(* ===== verification/Prelude.thy ===== *)
theory Prelude
  imports Main "HOL-Library.Word"
begin

section \<open>Shared types, results and list lemmas\<close>

text \<open>
  The vocabulary of the whole development. The C integer types of \<^verbatim>\<open>types.h\<close> are words of
  their width; a kernel routine returns a value of \<open>res\<close>: \<open>Ok\<close> with its result,
  \<open>Panic\<close> with the message the source passes to \<^verbatim>\<open>panic()\<close>, \<open>Block\<close> when the
  routine goes to sleep on a sleep-lock that somebody else holds, \<open>Fault\<close> where
  the C program dereferences a null pointer or indexes outside an array, and \<open>Diverge\<close>
  where a loop of the source would run for ever. The searches that the
  source writes as \<^verbatim>\<open>for\<close> loops over a table are \<open>scan\<close>, the index of the first
  entry that satisfies a test. Compile-time constants (\<^verbatim>\<open>param.h\<close>) are abbreviations, so that
  the simplifier sees the numerals.
\<close>

unbundle bit_operations_syntax

subsection \<open>Integer types (types.h) and parameters (param.h)\<close>

type_synonym uint = "32 word"
type_synonym ushort = "16 word"
type_synonym uchar = "8 word"

abbreviation (input) NPROC :: nat where "NPROC \<equiv> 64"
abbreviation (input) KSTACKSIZE :: uint where "KSTACKSIZE \<equiv> 4096"
abbreviation (input) NOFILE :: nat where "NOFILE \<equiv> 16"
abbreviation (input) NFILE :: nat where "NFILE \<equiv> 100"
abbreviation (input) NINODE :: nat where "NINODE \<equiv> 50"
abbreviation (input) NDEV :: nat where "NDEV \<equiv> 10"
abbreviation (input) ROOTDEV :: uint where "ROOTDEV \<equiv> 1"
abbreviation (input) MAXARG :: nat where "MAXARG \<equiv> 32"
abbreviation (input) MAXOPBLOCKS :: nat where "MAXOPBLOCKS \<equiv> 10"
abbreviation (input) LOGSIZE :: nat where "LOGSIZE \<equiv> 30"
abbreviation (input) NBUF :: nat where "NBUF \<equiv> 30"
abbreviation (input) FSSIZE :: nat where "FSSIZE \<equiv> 1000"

subsection \<open>Results of kernel routines\<close>

datatype 'a res = Ok 'a | Panic string | Block | Fault | Diverge

fun bindR :: "'a res \<Rightarrow> ('a \<Rightarrow> 'b res) \<Rightarrow> 'b res" where
  "bindR (Ok x) f = f x"
| "bindR (Panic m) f = Panic m"
| "bindR Block f = Block"
| "bindR Fault f = Fault"
| "bindR Diverge f = Diverge"

named_theorems res_simps \<open>equations that take a bound result apart\<close>

lemma bindR_eq_Ok [res_simps]: "bindR m f = Ok z \<longleftrightarrow> (\<exists>x. m = Ok x \<and> f x = Ok z)"
  by (cases m) auto

lemma bindR_eq_Ok_rev [res_simps]: "Ok z = bindR m f \<longleftrightarrow> (\<exists>x. m = Ok x \<and> f x = Ok z)"
  by (cases m) auto

lemma bindR_OkE:
  assumes "bindR m f = Ok z"
  obtains x where "m = Ok x" and "f x = Ok z"
  using assms by (auto simp: bindR_eq_Ok)

lemma bindR_assoc: "bindR (bindR m f) g = bindR m (\<lambda>x. bindR (f x) g)"
  by (cases m) auto

lemma bindR_cong [fundef_cong]:
  "m = m' \<Longrightarrow> (\<And>x. m' = Ok x \<Longrightarrow> f x = f' x) \<Longrightarrow> bindR m f = bindR m' f'"
  by (cases m') auto

subsection \<open>The first entry of a table that satisfies a test\<close>

fun scan :: "('a \<Rightarrow> bool) \<Rightarrow> 'a list \<Rightarrow> nat option" where
  "scan P [] = None"
| "scan P (x # xs) = (if P x then Some 0 else map_option Suc (scan P xs))"

lemma scan_None_iff: "scan P xs = None \<longleftrightarrow> (\<forall>x \<in> set xs. \<not> P x)"
  by (induction xs) auto

lemma scan_SomeD:
  "scan P xs = Some i \<Longrightarrow> i < length xs \<and> P (xs ! i) \<and> (\<forall>j < i. \<not> P (xs ! j))"
proof (induction xs arbitrary: i)
  case (Cons x xs)
  show ?case
  proof (cases "P x")
    case False
    with Cons.prems obtain k where k: "scan P xs = Some k" "i = Suc k" by auto
    from Cons.IH [OF k(1)] k(2) False show ?thesis
      by (auto simp: nth_Cons split: nat.splits)
  qed (use Cons.prems in auto)
qed simp

lemmas scan_less = scan_SomeD [THEN conjunct1]
lemmas scan_holds = scan_SomeD [THEN conjunct2, THEN conjunct1]

lemma scan_Some_eq:
  "scan P xs = Some i \<longleftrightarrow> i < length xs \<and> P (xs ! i) \<and> (\<forall>j < i. \<not> P (xs ! j))"
proof
  assume r: "i < length xs \<and> P (xs ! i) \<and> (\<forall>j < i. \<not> P (xs ! j))"
  then have "scan P xs \<noteq> None"
    by (auto simp: scan_None_iff)
  then obtain k where k: "scan P xs = Some k" by auto
  note s = scan_SomeD [OF k]
  have "k = i"
  proof (rule linorder_cases [of k i])
    assume "k < i" with r s show ?thesis by auto
  next
    assume "i < k" with r s show ?thesis by auto
  qed
  with k show "scan P xs = Some i" by simp
qed (rule scan_SomeD)

lemma scan_exists: "x \<in> set xs \<Longrightarrow> P x \<Longrightarrow> \<exists>i. scan P xs = Some i"
  by (cases "scan P xs") (auto simp: scan_None_iff)

subsection \<open>Tables: lists updated by index\<close>

lemma nth_list_update_if:
  "xs[i := x] ! j = (if i = j \<and> j < length xs then x else xs ! j)"
  by (cases "i < length xs"; cases "i = j") (auto simp: list_update_beyond)

lemma set_list_update_cases:
  "y \<in> set (xs[i := x]) \<Longrightarrow> y = x \<or> (\<exists>j < length xs. j \<noteq> i \<and> y = xs ! j)"
  by (auto simp: in_set_conv_nth nth_list_update_if split: if_splits)

lemma all_nth_update:
  assumes "\<And>j. j < length xs \<Longrightarrow> j \<noteq> i \<Longrightarrow> P j (xs ! j)"
    and "i < length xs \<Longrightarrow> P i x"
  shows "\<forall>j < length (xs[i := x]). P j (xs[i := x] ! j)"
  using assms by (auto simp: nth_list_update_if)

lemma unat_lt32: "unat (x :: uint) < 4294967296"
  using unsigned_less [of x, where 'a = nat] by simp

lemma unat_dec: "(x :: uint) \<noteq> 0 \<Longrightarrow> unat (x - 1) = unat x - 1"
  by (rule unat_minus_one)

lemma sum_list_update_nat:
  fixes xs :: "nat list"
  assumes "i < length xs"
  shows "sum_list (xs[i := x]) + xs ! i = sum_list xs + x"
  using assms
  by (induction xs arbitrary: i) (auto simp: nth_Cons split: nat.splits)

end
