(* ===== verification/Memory.thy ===== *)
theory Memory
  imports Prelude
begin

section \<open>Byte memory and the memory routines of string.c\<close>

text \<open>
  Kernel memory is a function from 32-bit addresses to bytes. \<open>load32\<close> and
  \<open>store32\<close> read and write little-endian words, as the x86 does for the pointers,
  page-table entries and saved registers that the kernel keeps in memory. On top of it are
  \<^verbatim>\<open>memset\<close>, \<^verbatim>\<open>memcmp\<close> and \<^verbatim>\<open>memmove\<close> of \<^verbatim>\<open>string.c\<close>, loop by loop, and the proofs that they fill,
  compare and copy as intended: \<open>memset\<close> by its word-wise and its byte-wise path alike,
  \<open>memmove\<close> for overlapping areas too. An address \<open>a\<close> lies in the \<open>n\<close> bytes
  from \<open>p\<close> when \<open>unat (a - p) < n\<close>.
\<close>

type_synonym mem = "uint \<Rightarrow> uchar"

definition load32 :: "mem \<Rightarrow> uint \<Rightarrow> uint" where
  "load32 m a = ucast (m a) OR push_bit 8 (ucast (m (a + 1)))
     OR push_bit 16 (ucast (m (a + 2))) OR push_bit 24 (ucast (m (a + 3)))"

definition store32 :: "mem \<Rightarrow> uint \<Rightarrow> uint \<Rightarrow> mem" where
  "store32 m a v = m(a := ucast v, a + 1 := ucast (drop_bit 8 v),
     a + 2 := ucast (drop_bit 16 v), a + 3 := ucast (drop_bit 24 v))"

definition store16 :: "mem \<Rightarrow> uint \<Rightarrow> ushort \<Rightarrow> mem" where
  "store16 m a v = m(a := ucast v, a + 1 := ucast (drop_bit 8 v))"

subsection \<open>string.c: memset, memcmp, memmove\<close>

text \<open>The string instructions \<^verbatim>\<open>rep stosb\<close> and \<^verbatim>\<open>rep stosl\<close> of \<^verbatim>\<open>x86.h\<close>.\<close>

fun stosb :: "mem \<Rightarrow> uint \<Rightarrow> uchar \<Rightarrow> nat \<Rightarrow> mem" where
  "stosb m d c 0 = m"
| "stosb m d c (Suc n) = stosb (m(d := c)) (d + 1) c n"

fun stosl :: "mem \<Rightarrow> uint \<Rightarrow> uint \<Rightarrow> nat \<Rightarrow> mem" where
  "stosl m d v 0 = m"
| "stosl m d v (Suc n) = stosl (store32 m d v) (d + 4) v n"

definition memset :: "mem \<Rightarrow> uint \<Rightarrow> uint \<Rightarrow> uint \<Rightarrow> mem" where
  "memset m dst c n =
     (if dst mod 4 = 0 \<and> n mod 4 = 0 then
        (let c = c AND 0xFF
         in stosl m dst (push_bit 24 c OR push_bit 16 c OR push_bit 8 c OR c) (unat (n div 4)))
      else stosb m dst (ucast c) (unat n))"

fun memcmp_loop :: "mem \<Rightarrow> uint \<Rightarrow> uint \<Rightarrow> nat \<Rightarrow> int" where
  "memcmp_loop m s1 s2 0 = 0"
| "memcmp_loop m s1 s2 (Suc n) =
     (if m s1 \<noteq> m s2 then uint (m s1) - uint (m s2)
      else memcmp_loop m (s1 + 1) (s2 + 1) n)"

definition memcmp :: "mem \<Rightarrow> uint \<Rightarrow> uint \<Rightarrow> uint \<Rightarrow> int" where
  "memcmp m v1 v2 n = memcmp_loop m v1 v2 (unat n)"

fun copy_up :: "mem \<Rightarrow> uint \<Rightarrow> uint \<Rightarrow> nat \<Rightarrow> mem" where
  "copy_up m d s 0 = m"
| "copy_up m d s (Suc n) = copy_up (m(d := m s)) (d + 1) (s + 1) n"

fun copy_down :: "mem \<Rightarrow> uint \<Rightarrow> uint \<Rightarrow> nat \<Rightarrow> mem" where
  "copy_down m d s 0 = m"
| "copy_down m d s (Suc n) = copy_down (m(d - 1 := m (s - 1))) (d - 1) (s - 1) n"

definition memmove :: "mem \<Rightarrow> uint \<Rightarrow> uint \<Rightarrow> uint \<Rightarrow> mem" where
  "memmove m dst src n =
     (if src < dst \<and> dst < src + n then copy_down m (dst + n) (src + n) (unat n)
      else copy_up m dst src (unat n))"

text \<open>What the three are for: the area filled, and the area copied as if at once.\<close>

definition filled :: "mem \<Rightarrow> uint \<Rightarrow> uchar \<Rightarrow> nat \<Rightarrow> mem" where
  "filled m d c n = (\<lambda>a. if unat (a - d) < n then c else m a)"

definition copied :: "mem \<Rightarrow> uint \<Rightarrow> uint \<Rightarrow> nat \<Rightarrow> mem" where
  "copied m d s n = (\<lambda>a. if unat (a - d) < n then m (s + (a - d)) else m a)"

subsection \<open>Words in memory\<close>

lemma load32_store32_same [simp]: "load32 (store32 m a v) a = v"
proof (rule bit_word_eqI)
  fix n assume "n < LENGTH(32)"
  then consider "n < 8" | "8 \<le> n" "n < 16" | "16 \<le> n" "n < 24" | "24 \<le> n" "n < 32"
    by fastforce
  then show "bit (load32 (store32 m a v) a) n = bit v n"
    by cases (auto simp: load32_def store32_def bit_simps)
qed

text \<open>Two aligned words are the same or disjoint.\<close>

lemma aligned_apart:
  fixes a b :: uint
  assumes "a mod 4 = 0" "b mod 4 = 0" "a \<noteq> b" "i < 4" "j < 4"
  shows "a + i \<noteq> b + j"
proof
  assume eq: "a + i = b + j"
  have m: "unat a mod 4 = 0" "unat b mod 4 = 0"
    using arg_cong [OF assms(1), of unat] arg_cong [OF assms(2), of unat]
    by (simp_all add: unat_mod)
  have lt: "unat i < 4" "unat j < 4"
    using assms(4,5) by (simp_all add: word_less_nat_alt)
  obtain k l where kl: "unat a = 4 * k" "unat b = 4 * l"
    using m by (auto simp: mod_eq_0_iff_dvd dvd_def)
  with unat_lt32 [of a] unat_lt32 [of b] have "k < 1073741824" "l < 1073741824" by simp_all
  with kl lt have "unat a + unat i < 4294967296" "unat b + unat j < 4294967296" by linarith+
  then have "unat a + unat i = unat b + unat j"
    using arg_cong [OF eq, of unat] by (simp add: unat_word_ariths)
  with kl lt have "unat a = unat b" by presburger
  with assms(3) show False by (simp add: word_unat_eq_iff)
qed

lemma load32_store32_other:
  assumes "a mod 4 = 0" "b mod 4 = 0" "a \<noteq> b"
  shows "load32 (store32 m a v) b = load32 m b"
proof -
  have "a + i \<noteq> b + j" if "i < 4" "j < 4" for i j :: uint
    using aligned_apart [OF assms that] .
  from this [of 0 0] this [of 0 1] this [of 0 2] this [of 0 3]
    this [of 1 0] this [of 1 1] this [of 1 2] this [of 1 3]
    this [of 2 0] this [of 2 1] this [of 2 2] this [of 2 3]
    this [of 3 0] this [of 3 1] this [of 3 2] this [of 3 3]
  show ?thesis by (simp add: load32_def store32_def)
qed

lemma store32_outside:
  "3 < unat (b - a) \<Longrightarrow> store32 m a v b = m b"
  by (auto simp: store32_def)

lemma load32_cong:
  "(\<And>i. i < 4 \<Longrightarrow> m (a + i) = m' (a + i)) \<Longrightarrow> load32 m a = load32 m' a"
proof -
  assume h: "\<And>i :: uint. i < 4 \<Longrightarrow> m (a + i) = m' (a + i)"
  from h [of 0] h [of 1] h [of 2] h [of 3] show ?thesis
    by (simp add: load32_def)
qed

subsection \<open>memset fills\<close>

lemma offset_Suc:
  fixes a d :: uint
  assumes "n < 4294967296"
  shows "unat (a - d) < Suc n \<longleftrightarrow> a = d \<or> unat (a - (d + 1)) < n"
proof (cases "a = d")
  case True then show ?thesis by simp
next
  case False
  then have "unat (a - d - 1) = unat (a - d) - 1" and "0 < unat (a - d)"
    by (simp_all add: unat_dec unat_gt_0)
  moreover have "a - (d + 1) = a - d - 1" by simp
  ultimately have "unat (a - (d + 1)) = unat (a - d) - 1" "0 < unat (a - d)"
    by (simp_all only:)
  then show ?thesis using False by linarith
qed

lemma stosb_filled: "n \<le> 4294967296 \<Longrightarrow> stosb m d c n = filled m d c n"
proof (induction n arbitrary: m d)
  case 0 show ?case by (simp add: filled_def)
next
  case (Suc n)
  then have n: "n < 4294967296" by simp
  from Suc show ?case
    by (auto simp: filled_def fun_eq_iff offset_Suc [OF n])
qed

lemma and_255: "(c :: uint) AND 0xFF = take_bit 8 c"
  by (simp add: take_bit_eq_mask mask_eq_exp_minus_1)

lemma store32_replicated:
  fixes c :: uint
  assumes "b = take_bit 8 c" and "w = push_bit 24 b OR push_bit 16 b OR push_bit 8 b OR b"
  shows "store32 m d w = m(d := ucast c, d + 1 := ucast c, d + 2 := ucast c, d + 3 := ucast c)"
proof -
  have "ucast w = (ucast c :: uchar)" "ucast (drop_bit 8 w) = (ucast c :: uchar)"
    "ucast (drop_bit 16 w) = (ucast c :: uchar)" "ucast (drop_bit 24 w) = (ucast c :: uchar)"
    unfolding assms by (rule bit_word_eqI; simp add: bit_simps; auto)+
  then show ?thesis by (simp add: store32_def)
qed

lemma stosl_stosb:
  fixes c :: uint
  assumes "b = take_bit 8 c" and "w = push_bit 24 b OR push_bit 16 b OR push_bit 8 b OR b"
  shows "stosl m d w n = stosb m d (ucast c) (4 * n)"
proof (induction n arbitrary: m d)
  case (Suc n)
  have "4 * Suc n = Suc (Suc (Suc (Suc (4 * n))))" by simp
  then show ?case
    using Suc.IH by (simp add: store32_replicated [OF assms] add.assoc fun_upd_def del: mult_Suc_right)
qed simp

lemma memset_filled: "memset m dst c n = filled m dst (ucast c) (unat n)"
proof (cases "dst mod 4 = 0 \<and> n mod 4 = 0")
  case True
  then have "unat (n mod 4) = 0" by simp
  then have "unat n mod 4 = 0" by (simp add: unat_mod)
  then have "4 * unat (n div 4) = unat n"
    by (simp add: unat_div) presburger
  with True show ?thesis
    by (simp add: memset_def Let_def and_255 stosl_stosb [OF refl refl] stosb_filled
        unat_lt32 less_imp_le)
next
  case False
  then show ?thesis
    by (auto simp: memset_def stosb_filled unat_lt32 less_imp_le)
qed

subsection \<open>memcmp compares\<close>

lemma memcmp_loop_zero:
  "memcmp_loop m s1 s2 n = 0 \<longleftrightarrow> (\<forall>i < n. m (s1 + of_nat i) = m (s2 + of_nat i))"
proof (induction n arbitrary: s1 s2)
  case (Suc n)
  have "(\<forall>i < Suc n. m (s1 + of_nat i) = m (s2 + of_nat i)) \<longleftrightarrow>
    m s1 = m s2 \<and> (\<forall>i < n. m (s1 + 1 + of_nat i) = m (s2 + 1 + of_nat i))"
    by (auto simp: less_Suc_eq_0_disj algebra_simps)
  then show ?case using Suc.IH [of "s1 + 1" "s2 + 1"] by (simp add: word_uint_eq_iff)
qed simp

subsection \<open>memmove copies\<close>

lemma copy_up_copied:
  assumes "d = s \<or> n \<le> unat (d - s)" and "n \<le> 4294967296"
  shows "copy_up m d s n = copied m d s n"
  using assms
proof (induction n arbitrary: m d s)
  case 0 show ?case by (simp add: copied_def)
next
  case (Suc n)
  have n: "n < 4294967296" using Suc.prems by simp
  have "d + 1 = s + 1 \<or> n \<le> unat (d + 1 - (s + 1))" using Suc.prems(1) by auto
  then have IH: "copy_up (m(d := m s)) (d + 1) (s + 1) n = copied (m(d := m s)) (d + 1) (s + 1) n"
    using n by (intro Suc.IH) simp_all
  have far: "s + (a - d) \<noteq> d" if "a \<noteq> d" "unat (a - (d + 1)) < n" for a
  proof
    assume e: "s + (a - d) = d"
    then have "a - d = d - s" by (simp add: algebra_simps)
    moreover have "unat (a - d) < Suc n" using that n by (simp add: offset_Suc)
    ultimately show False using Suc.prems(1) that(1) e by auto
  qed
  have shift: "s + 1 + (a - (d + 1)) = s + (a - d)" for a by simp
  show ?case
  proof
    fix a
    show "copy_up m d s (Suc n) a = copied m d s (Suc n) a"
    proof (cases "a = d")
      case True
      then show ?thesis using Suc.prems n by (auto simp: IH copied_def)
    next
      case False
      then show ?thesis
        using far [of a] by (auto simp: IH copied_def shift offset_Suc [OF n])
    qed
  qed
qed

lemma offset_down:
  fixes a d :: uint
  assumes "Suc n < 4294967296"
  shows "unat (a - (d - of_nat (Suc n))) < Suc n \<longleftrightarrow>
    a = d - 1 \<or> unat (a - (d - 1 - of_nat n)) < n"
proof -
  let ?x = "a - (d - of_nat (Suc n))"
  have x: "a - (d - 1 - of_nat n) = ?x" by simp
  have "a = d - 1 \<longleftrightarrow> ?x = of_nat n" by (auto simp: algebra_simps)
  also have "\<dots> \<longleftrightarrow> unat ?x = n"
    using assms by (auto simp: word_unat_eq_iff unat_of_nat)
  finally show ?thesis unfolding x by (simp add: less_Suc_eq disj_commute)
qed

lemma copy_down_copied:
  assumes "s = d \<or> n \<le> unat (s - d)" and "n < 4294967296"
  shows "copy_down m d s n = copied m (d - of_nat n) (s - of_nat n) n"
  using assms
proof (induction n arbitrary: m d s)
  case 0 show ?case by (simp add: copied_def)
next
  case (Suc n)
  let ?m = "m(d - 1 := m (s - 1))"
  have n: "Suc n < 4294967296" using Suc.prems by simp
  have "s - 1 = d - 1 \<or> n \<le> unat (s - 1 - (d - 1))" using Suc.prems(1) by auto
  then have IH: "copy_down ?m (d - 1) (s - 1) n
      = copied ?m (d - 1 - of_nat n) (s - 1 - of_nat n) n"
    using n by (intro Suc.IH) simp_all
  have far: "s - 1 - of_nat n + (a - (d - 1 - of_nat n)) \<noteq> d - 1"
    if "a \<noteq> d - 1" "unat (a - (d - 1 - of_nat n)) < n" for a
  proof
    assume e: "s - 1 - of_nat n + (a - (d - 1 - of_nat n)) = d - 1"
    define y where "y = a - (d - 1 - of_nat n)"
    have y: "unat y < n" using that(2) by (simp add: y_def)
    have "s - d = of_nat n - y" using e by (simp add: y_def algebra_simps)
    moreover have "y \<le> of_nat n" using y n by (simp add: word_le_nat_alt unat_of_nat)
    ultimately have sd: "unat (s - d) = n - unat y"
      using n by (simp add: unat_sub unat_of_nat)
    then have "s \<noteq> d" using y by auto
    then show False using Suc.prems(1) sd by simp
  qed
  let ?d = "d - of_nat (Suc n)" and ?s = "s - of_nat (Suc n)"
  have e: "d - 1 - of_nat n = ?d" "s - 1 - of_nat n = ?s" by simp_all
  have top: "unat (d - 1 - ?d) = n" "?s + (d - 1 - ?d) = s - 1"
    using n by (simp_all add: unat_of_nat)
  show ?case
  proof
    fix a
    have "copied ?m ?d ?s n a = copied m ?d ?s (Suc n) a"
    proof (cases "a = d - 1")
      case True
      with top show ?thesis unfolding copied_def by (simp only: if_True if_False less_irrefl lessI fun_upd_same)
    next
      case False
      have off: "unat (a - ?d) < Suc n \<longleftrightarrow> unat (a - ?d) < n"
        using offset_down [OF n, of a d] False unfolding e by blast
      show ?thesis
      proof (cases "unat (a - ?d) < n")
        case True
        have "?s + (a - ?d) \<noteq> d - 1" using far [OF False] True unfolding e by blast
        with True off show ?thesis unfolding copied_def by (metis fun_upd_other)
      next
        case near: False
        with off False show ?thesis unfolding copied_def by (metis fun_upd_other)
      qed
    qed
    then show "copy_down m d s (Suc n) a = copied m ?d ?s (Suc n) a"
      by (simp only: copy_down.simps IH e)
  qed
qed

lemma memmove_copied:
  assumes "unat src + unat n < 4294967296" and "unat dst + unat n \<le> 4294967296"
  shows "memmove m dst src n = copied m dst src (unat n)"
proof (cases "src < dst \<and> dst < src + n")
  case True
  have "unat (src - dst) = 4294967296 - (unat dst - unat src)"
    using True unat_lt32 [of dst] by (simp add: unat_sub_if_size word_less_nat_alt word_size)
  then have "unat n \<le> unat (src + n - (dst + n))" using assms(2) by simp
  then have "copy_down m (dst + n) (src + n) (unat n) = copied m dst src (unat n)"
    by (subst copy_down_copied) (auto simp: unat_lt32)
  with True show ?thesis by (simp add: memmove_def)
next
  case False
  have "dst = src \<or> unat n \<le> unat (dst - src)"
  proof (rule linorder_cases [of dst src])
    assume "dst < src"
    then have "unat (dst - src) = 4294967296 - (unat src - unat dst)"
      using unat_lt32 [of src] by (simp add: unat_sub_if_size word_less_nat_alt word_size)
    then show ?thesis using assms(1) by linarith
  next
    assume "src < dst"
    with False have "src + n \<le> dst" by simp
    then have "unat src + unat n \<le> unat dst"
      using assms(1) by (simp add: word_le_nat_alt unat_plus_if_size word_size)
    then have "unat n \<le> unat (dst - src)" using \<open>src < dst\<close>
      by (simp add: unat_sub_if_size word_le_nat_alt word_less_nat_alt)
    then show ?thesis ..
  qed simp
  then have "copy_up m dst src (unat n) = copied m dst src (unat n)"
    by (rule copy_up_copied) (simp add: unat_lt32 less_imp_le)
  with False show ?thesis by (auto simp: memmove_def)
qed

end
