(* ===== verification/Mmu.thy ===== *)
theory Mmu
  imports Memory
begin

section \<open>Address arithmetic: mmu.h and memlayout.h\<close>

text \<open>
  The macros of \<^verbatim>\<open>mmu.h\<close> and \<^verbatim>\<open>memlayout.h\<close> that split a virtual address, round to page
  boundaries, take a page-table entry apart and convert between physical and kernel virtual
  addresses, bit for bit as the source writes them, and what they compute as arithmetic on
  \<open>unat\<close>: the macros recover an address from its three parts, round as their names say
  away from the top of the address space, and are inverse to each other.
\<close>

abbreviation (input) PGSIZE :: uint where "PGSIZE \<equiv> 4096"
abbreviation (input) KERNBASE :: uint where "KERNBASE \<equiv> 0x80000000"
abbreviation (input) EXTMEM :: uint where "EXTMEM \<equiv> 0x100000"
abbreviation (input) PHYSTOP :: uint where "PHYSTOP \<equiv> 0xE000000"
abbreviation (input) DEVSPACE :: uint where "DEVSPACE \<equiv> 0xFE000000"
abbreviation (input) NPDENTRIES :: nat where "NPDENTRIES \<equiv> 1024"

abbreviation (input) PTE_P :: uint where "PTE_P \<equiv> 1"
abbreviation (input) PTE_W :: uint where "PTE_W \<equiv> 2"
abbreviation (input) PTE_U :: uint where "PTE_U \<equiv> 4"

definition PDX :: "uint \<Rightarrow> uint" where
  "PDX va = drop_bit 22 va AND 0x3FF"

definition PTX :: "uint \<Rightarrow> uint" where
  "PTX va = drop_bit 12 va AND 0x3FF"

definition PGADDR :: "uint \<Rightarrow> uint \<Rightarrow> uint \<Rightarrow> uint" where
  "PGADDR d t off = push_bit 22 d OR push_bit 12 t OR off"

definition PGROUNDUP :: "uint \<Rightarrow> uint" where
  "PGROUNDUP sz = (sz + PGSIZE - 1) AND NOT (PGSIZE - 1)"

definition PGROUNDDOWN :: "uint \<Rightarrow> uint" where
  "PGROUNDDOWN a = a AND NOT (PGSIZE - 1)"

definition PTE_ADDR :: "uint \<Rightarrow> uint" where
  "PTE_ADDR pte = pte AND NOT 0xFFF"

definition PTE_FLAGS :: "uint \<Rightarrow> uint" where
  "PTE_FLAGS pte = pte AND 0xFFF"

definition V2P :: "uint \<Rightarrow> uint" where
  "V2P a = a - KERNBASE"

definition P2V :: "uint \<Rightarrow> uint" where
  "P2V a = a + KERNBASE"

subsection \<open>Page arithmetic\<close>

definition page_aligned :: "uint \<Rightarrow> bool" where
  "page_aligned a \<longleftrightarrow> a mod PGSIZE = 0"

lemma P2V_V2P [simp]: "P2V (V2P a) = a" and V2P_P2V [simp]: "V2P (P2V a) = a"
  by (simp_all add: P2V_def V2P_def)

lemma mask12: "(0xFFF :: uint) = mask 12"
  by (simp add: mask_eq_exp_minus_1)

lemma mask10: "(0x3FF :: uint) = mask 10"
  by (simp add: mask_eq_exp_minus_1)

lemma and_not_mask12: "(a :: uint) AND NOT 0xFFF = push_bit 12 (drop_bit 12 a)"
  by (rule bit_word_eqI) (auto simp: mask12 bit_simps simp del: mask_eq_exp_minus_1)

lemma unat_round: "unat (push_bit 12 (drop_bit 12 (a :: uint))) = unat a div 4096 * 4096"
proof -
  have "unat a div 4096 * 4096 \<le> unat a" by simp
  then have "unat a div 4096 * 4096 < 4294967296"
    using unat_lt32 [of a] by linarith
  then show ?thesis
    by (simp add: push_bit_eq_mult drop_bit_eq_div unat_word_ariths unat_div)
qed

lemma unat_PGROUNDDOWN: "unat (PGROUNDDOWN a) = unat a div 4096 * 4096"
  using unat_round [of a] and_not_mask12 [of a] by (simp add: PGROUNDDOWN_def)

lemma unat_PTE_ADDR: "unat (PTE_ADDR a) = unat a div 4096 * 4096"
  using unat_round [of a] and_not_mask12 [of a] by (simp add: PTE_ADDR_def)

lemma unat_PGROUNDUP:
  assumes "unat sz + 4095 < 4294967296"
  shows "unat (PGROUNDUP sz) = (unat sz + 4095) div 4096 * 4096"
proof -
  have "unat (sz + 4095) = unat sz + 4095"
    using assms by (simp add: unat_word_ariths)
  then show ?thesis
    using unat_round [of "sz + 4095"] and_not_mask12 [of "sz + 4095"]
    by (simp add: PGROUNDUP_def add.commute)
qed

lemma page_aligned_unat: "page_aligned a \<longleftrightarrow> unat a mod 4096 = 0"
  by (simp add: page_aligned_def word_unat_eq_iff unat_mod)

lemma page_alignedE:
  assumes "page_aligned a"
  obtains k where "unat a = 4096 * k"
  using assms by (auto simp: page_aligned_unat mod_eq_0_iff_dvd dvd_def)

lemma page_aligned_PGROUNDDOWN [simp]: "page_aligned (PGROUNDDOWN a)"
  by (simp add: page_aligned_unat unat_PGROUNDDOWN)

lemma page_aligned_PTE_ADDR [simp]: "page_aligned (PTE_ADDR a)"
  by (simp add: page_aligned_unat unat_PTE_ADDR)

lemma PGROUNDUP_aligned [simp]: "page_aligned (PGROUNDUP sz)"
proof -
  have "PGROUNDUP sz = PTE_ADDR (sz + 4095)"
    by (simp add: PGROUNDUP_def PTE_ADDR_def add.commute)
  then show ?thesis by simp
qed

lemma page_aligned_0 [simp]: "page_aligned 0"
  by (simp add: page_aligned_def)

lemma PTE_ADDR_aligned: "page_aligned a \<Longrightarrow> PTE_ADDR a = a"
  by (erule page_alignedE) (simp add: word_unat_eq_iff unat_PTE_ADDR)

lemma page_aligned_word4: "page_aligned a \<Longrightarrow> a mod 4 = 0"
  by (erule page_alignedE) (simp add: word_unat_eq_iff unat_mod mod_mult_mult1 flip: mult_2_right)

lemma unat_PDX: "unat (PDX va) = unat va div 4194304"
proof -
  have "unat va div 4194304 < 1024" using unat_lt32 [of va] by simp
  then show ?thesis
    by (simp add: PDX_def mask10 drop_bit_eq_div unat_div take_bit_eq_mod unat_mod
        flip: take_bit_eq_mask del: mask_eq_exp_minus_1)
qed

lemma unat_PTX: "unat (PTX va) = unat va div 4096 mod 1024"
  by (simp add: PTX_def mask10 drop_bit_eq_div unat_div take_bit_eq_mod unat_mod
      flip: take_bit_eq_mask del: mask_eq_exp_minus_1)

lemma unat_PTE_FLAGS: "unat (PTE_FLAGS a) = unat a mod 4096"
  by (simp add: PTE_FLAGS_def mask12 take_bit_eq_mod unat_mod
      flip: take_bit_eq_mask del: mask_eq_exp_minus_1)

lemma PDX_PTX_eq:
  "PDX a = PDX b \<and> PTX a = PTX b \<longleftrightarrow> PGROUNDDOWN a = PGROUNDDOWN b"
proof -
  have "unat a div 4194304 = unat a div 4096 div 1024" for a :: uint
    by (simp add: div_mult2_eq flip: div_mult2_eq)
  then show ?thesis
    unfolding word_unat_eq_iff unat_PDX unat_PTX unat_PGROUNDDOWN
    by (metis div_mod_decomp mult_cancel2 zero_neq_numeral)
qed

lemma PGADDR_parts: "PGADDR (PDX va) (PTX va) (va AND 0xFFF) = va"
proof (rule bit_word_eqI)
  fix n assume "n < LENGTH(32)"
  then consider "n < 12" | "12 \<le> n" "n < 22" | "22 \<le> n" "n < 32"
    by fastforce
  then show "bit (PGADDR (PDX va) (PTX va) (va AND 0xFFF)) n = bit va n"
    by cases (auto simp: PGADDR_def PDX_def PTX_def mask10 mask12 bit_simps
        simp del: mask_eq_exp_minus_1)
qed

text \<open>A page-table entry built from an aligned address and flags gives both back.\<close>

lemma PTE_parts:
  assumes "page_aligned pa" and "unat perm < 4096"
  shows "PTE_ADDR (pa OR perm) = pa" and "PTE_FLAGS (pa OR perm) = perm"
proof -
  have pa: "\<not> bit pa n" if "n < 12" for n
  proof -
    have "pa = push_bit 12 (drop_bit 12 pa)"
      using PTE_ADDR_aligned [OF assms(1)] and_not_mask12 [of pa] by (simp add: PTE_ADDR_def)
    then show ?thesis using that by (metis bit_push_bit_iff not_le)
  qed
  have "take_bit 12 perm = perm"
    using assms(2) by (simp add: take_bit_eq_mod word_unat_eq_iff unat_mod)
  then have perm: "\<not> bit perm n" if "12 \<le> n" for n
    using that by (metis bit_take_bit_iff not_le)
  show "PTE_ADDR (pa OR perm) = pa"
  proof (rule bit_word_eqI)
    fix n assume "n < LENGTH(32)"
    then show "bit (PTE_ADDR (pa OR perm)) n = bit pa n"
      using pa [of n] perm [of n] by (cases "n < 12")
        (auto simp: PTE_ADDR_def mask12 bit_simps simp del: mask_eq_exp_minus_1)
  qed
  show "PTE_FLAGS (pa OR perm) = perm"
  proof (rule bit_word_eqI)
    fix n assume "n < LENGTH(32)"
    then show "bit (PTE_FLAGS (pa OR perm)) n = bit perm n"
      using pa [of n] perm [of n] by (cases "n < 12")
        (auto simp: PTE_FLAGS_def mask12 bit_simps simp del: mask_eq_exp_minus_1)
  qed
qed

lemma offset_in_page:
  assumes "page_aligned p" and "unat i < 4096"
  shows "PTE_ADDR (p + i) = p"
proof -
  obtain k where k: "unat p = 4096 * k"
    using assms(1) by (auto simp: page_aligned_unat mod_eq_0_iff_dvd dvd_def)
  with unat_lt32 [of p] have "k < 1048576" by simp
  with k assms(2) have "unat p + unat i < 4294967296" by linarith
  then have "unat (p + i) = unat p + unat i" by (simp add: unat_word_ariths)
  with k assms(2) have "unat (p + i) div 4096 * 4096 = unat p" by simp
  then show ?thesis by (simp add: word_unat_eq_iff unat_PTE_ADDR)
qed

text \<open>Different pages have no byte in common.\<close>

lemma pages_apart:
  assumes "page_aligned p" "page_aligned q" "p \<noteq> q" "unat i < 4096" "unat j < 4096"
  shows "p + i \<noteq> q + j"
  using offset_in_page [OF assms(1,4)] offset_in_page [OF assms(2,5)] assms(3) by auto

lemma outside_page:
  assumes "page_aligned p" "page_aligned q" "p \<noteq> q" "unat (a - p) < 4096"
  shows "\<not> unat (a - q) < 4096"
proof
  assume "unat (a - q) < 4096"
  from pages_apart [OF assms(1-3) assms(4) this] show False by simp
qed

end
