(* ===== verification/Kalloc.thy ===== *)
theory Kalloc
  imports Mmu
begin

section \<open>The physical page allocator: kalloc.c\<close>

text \<open>
  The allocator keeps the free pages on a linked list threaded through the pages themselves: the
  first word of a free page holds the address of the next one. The state is the kernel memory with
  the head of that list; \<open>k_end\<close> and \<open>k_data\<close> are the link-time symbols
  \<^verbatim>\<open>end\<close> and \<^verbatim>\<open>data\<close> of \<^verbatim>\<open>kernel.ld\<close>. The operations are those of
  \<^verbatim>\<open>kalloc.c\<close>, each taken as one atomic step (it runs under \<^verbatim>\<open>kmem.lock\<close>).

  \<open>page_allocator\<close> is the interface the rest of the kernel relies on: a list of
  available pages that allocation pops and freeing pushes. It is interpreted on \<open>kalloc\<close>
  and \<open>kfree\<close>; inside it, any history of allocations and frees is shown to keep the pages
  handed out apart from each other and from the free ones, and to lose none.
\<close>

record km =
  k_end :: uint
  k_data :: uint
  k_mem :: mem
  kmem_freelist :: uint
  kmem_use_lock :: bool

definition kfree :: "uint \<Rightarrow> 'z km_scheme \<Rightarrow> 'z km_scheme res" where
  "kfree v s =
     (if v mod PGSIZE \<noteq> 0 \<or> v < k_end s \<or> PHYSTOP \<le> V2P v then Panic ''kfree''
      else Ok (s\<lparr>k_mem := store32 (memset (k_mem s) v 1 PGSIZE) v (kmem_freelist s),
                kmem_freelist := v\<rparr>))"

definition kalloc :: "'z km_scheme \<Rightarrow> uint \<times> 'z km_scheme" where
  "kalloc s =
     (let r = kmem_freelist s
      in (r, if r \<noteq> 0 then s\<lparr>kmem_freelist := load32 (k_mem s) r\<rparr> else s))"

lemma kfree_below: "kfree p s = Ok s' \<Longrightarrow> unat p < 2382364672"
  by (auto simp: kfree_def V2P_def word_less_nat_alt word_le_nat_alt unat_sub_if_size word_size
      split: if_splits)

function freerange_loop :: "uint \<Rightarrow> uint \<Rightarrow> 'z km_scheme \<Rightarrow> 'z km_scheme res" where
  "freerange_loop p vend s =
     (if p + PGSIZE \<le> vend
      then bindR (kfree p s) (\<lambda>s. freerange_loop (p + PGSIZE) vend s)
      else Ok s)"
  by pat_completeness auto
termination
proof (relation "measure (\<lambda>(p, vend, s). 4294967296 - unat p)")
  fix p vend :: uint and s s' :: "'z km_scheme"
  assume "kfree p s = Ok s'"
  then have "unat p < 2382364672" by (rule kfree_below)
  then have "unat (p + PGSIZE) = unat p + 4096"
    by (simp add: unat_word_ariths)
  then show "((p + PGSIZE, vend, s'), p, vend, s)
      \<in> measure (\<lambda>(p, vend, s). 4294967296 - unat p)"
    using \<open>unat p < 2382364672\<close> by simp
qed simp

declare freerange_loop.simps [simp del]

definition freerange :: "uint \<Rightarrow> uint \<Rightarrow> 'z km_scheme \<Rightarrow> 'z km_scheme res" where
  "freerange vstart vend s = freerange_loop (PGROUNDUP vstart) vend s"

definition kinit1 :: "uint \<Rightarrow> uint \<Rightarrow> 'z km_scheme \<Rightarrow> 'z km_scheme res" where
  "kinit1 vstart vend s = freerange vstart vend (s\<lparr>kmem_use_lock := False\<rparr>)"

definition kinit2 :: "uint \<Rightarrow> uint \<Rightarrow> 'z km_scheme \<Rightarrow> 'z km_scheme res" where
  "kinit2 vstart vend s =
     bindR (freerange vstart vend s) (\<lambda>s. Ok (s\<lparr>kmem_use_lock := True\<rparr>))"

subsection \<open>The interface\<close>

text \<open>
  \<open>avail s ps\<close>: the pages that the next allocations will return, in order. A page fit to
  be managed satisfies \<open>fit s\<close>; \<open>none\<close> is the null result.
\<close>

datatype mem_op = Alloc | Free nat

locale page_allocator =
  fixes alloc :: "'s \<Rightarrow> 'p \<times> 's"
    and free :: "'p \<Rightarrow> 's \<Rightarrow> 's res"
    and none :: "'p"
    and fit :: "'s \<Rightarrow> 'p \<Rightarrow> bool"
    and avail :: "'s \<Rightarrow> 'p list \<Rightarrow> bool"
  assumes avail_distinct: "avail s ps \<Longrightarrow> distinct ps"
    and avail_fit: "avail s ps \<Longrightarrow> p \<in> set ps \<Longrightarrow> fit s p"
    and fit_none: "fit s p \<Longrightarrow> p \<noteq> none"
    and alloc_Nil: "avail s [] \<Longrightarrow> alloc s = (none, s)"
    and alloc_Cons: "avail s (p # ps) \<Longrightarrow> alloc s = (q, s') \<Longrightarrow> q = p \<and> avail s' ps"
    and alloc_fit: "alloc s = (q, s') \<Longrightarrow> fit s' = fit s"
    and free_Ok: "avail s ps \<Longrightarrow> fit s p \<Longrightarrow> p \<notin> set ps \<Longrightarrow>
      \<exists>s'. free p s = Ok s' \<and> avail s' (p # ps) \<and> fit s' = fit s"
begin

text \<open>
  A history of allocations and frees; a free gives back the \<open>i\<close>-th page held. The client
  never frees what it does not hold: such a request is skipped.
\<close>

fun history :: "mem_op list \<Rightarrow> 'p list \<Rightarrow> 's \<Rightarrow> ('p list \<times> 's) res" where
  "history [] held s = Ok (held, s)"
| "history (Alloc # ops) held s =
     (let (p, s') = alloc s in history ops (if p = none then held else p # held) s')"
| "history (Free i # ops) held s =
     (if i < length held
      then bindR (free (held ! i) s) (\<lambda>s'. history ops (take i held @ drop (Suc i) held) s')
      else history ops held s)"

lemma set_without_nth:
  assumes "distinct xs" "i < length xs"
  shows "set xs = insert (xs ! i) (set (take i xs @ drop (Suc i) xs))"
    and "xs ! i \<notin> set (take i xs @ drop (Suc i) xs)"
    and "distinct (take i xs @ drop (Suc i) xs)"
proof -
  have "xs = take i xs @ xs ! i # drop (Suc i) xs"
    using assms(2) by (rule id_take_nth_drop)
  then obtain ys zs where e: "xs = ys @ xs ! i # zs" "ys = take i xs" "zs = drop (Suc i) xs"
    by blast
  then have "distinct (ys @ xs ! i # zs)" using assms(1) by simp
  then show "xs ! i \<notin> set (take i xs @ drop (Suc i) xs)"
    and "distinct (take i xs @ drop (Suc i) xs)"
    unfolding e(2,3) [symmetric] by auto
  show "set xs = insert (xs ! i) (set (take i xs @ drop (Suc i) xs))"
    unfolding e(2,3) [symmetric] by (subst (1) e(1)) auto
qed

theorem history_safe:
  assumes "avail s ps" "distinct held" "set held \<inter> set ps = {}" "\<forall>p \<in> set held. fit s p"
  shows "\<exists>held' s' ps'. history ops held s = Ok (held', s') \<and> avail s' ps' \<and>
    distinct held' \<and> set held' \<inter> set ps' = {} \<and>
    set held' \<union> set ps' = set held \<union> set ps"
  using assms
proof (induction ops held s arbitrary: ps rule: history.induct)
  case (1 held s)
  then show ?case by auto
next
  case (2 ops held s)
  obtain q s' where a: "alloc s = (q, s')" by fastforce
  have fit: "fit s' = fit s" using a by (rule alloc_fit)
  show ?case
  proof (cases ps)
    case Nil
    with "2.prems"(1) a have "q = none" "s' = s" by (auto dest: alloc_Nil)
    with "2.IH" [OF a [symmetric] refl] "2.prems" a show ?thesis by auto
  next
    case (Cons p ps0)
    with "2.prems"(1) a have q: "q = p" and av: "avail s' ps0" by (auto dest: alloc_Cons)
    have "p \<noteq> none" using "2.prems"(1) Cons by (intro fit_none [of s] avail_fit) auto
    have "distinct ps" using "2.prems"(1) by (rule avail_distinct)
    with Cons "2.prems" fit have "distinct (p # held)" "set (p # held) \<inter> set ps0 = {}"
      "\<forall>x \<in> set (p # held). fit s' x"
      by (auto intro: avail_fit)
    with "2.IH" [OF a [symmetric] refl, of ps0] av q \<open>p \<noteq> none\<close> Cons a show ?thesis
      by (simp add: Un_left_commute insert_commute)
  qed
next
  case (3 i ops held s)
  show ?case
  proof (cases "i < length held")
    case True
    note w = set_without_nth [OF "3.prems"(2) True]
    have "held ! i \<in> set held" using True by simp
    then have "fit s (held ! i)" "held ! i \<notin> set ps" using "3.prems" by blast+
    with free_Ok [OF "3.prems"(1)] obtain s' where
      f: "free (held ! i) s = Ok s'" "avail s' (held ! i # ps)" "fit s' = fit s" by blast
    have "set (take i held @ drop (Suc i) held) \<inter> set (held ! i # ps) = {}"
      "\<forall>p \<in> set (take i held @ drop (Suc i) held). fit s' p"
      using w "3.prems"(3,4) f(3) by auto
    with "3.IH"(1) [OF True f(1,2) w(3)] show ?thesis
      using True f(1) w(1) by auto
  next
    case False
    with "3.IH"(2) "3.prems" show ?thesis by simp
  qed
qed

end

subsection \<open>The free list in memory\<close>

fun flist :: "mem \<Rightarrow> uint \<Rightarrow> uint list \<Rightarrow> bool" where
  "flist m p [] \<longleftrightarrow> p = 0"
| "flist m p (x # xs) \<longleftrightarrow> p = x \<and> x \<noteq> 0 \<and> flist m (load32 m x) xs"

definition managed :: "'z km_scheme \<Rightarrow> uint \<Rightarrow> bool" where
  "managed s p \<longleftrightarrow> page_aligned p \<and> k_end s \<le> p \<and> V2P p < PHYSTOP"

definition kmem_avail :: "'z km_scheme \<Rightarrow> uint list \<Rightarrow> bool" where
  "kmem_avail s ps \<longleftrightarrow> flist (k_mem s) (kmem_freelist s) ps \<and> distinct ps \<and>
     (\<forall>p \<in> set ps. managed s p)"

lemma flist_cong:
  "(\<And>x. x \<in> set xs \<Longrightarrow> load32 m x = load32 m' x) \<Longrightarrow> flist m p xs = flist m' p xs"
  by (induction xs arbitrary: p) auto

lemma managed_nonzero: "managed s p \<Longrightarrow> p \<noteq> 0"
  by (auto simp: managed_def V2P_def)

lemma managed_range: "managed s p \<Longrightarrow> 2147483648 \<le> unat p \<and> unat p < 2382364672"
  using unat_lt32 [of p]
  by (auto simp: managed_def V2P_def word_less_nat_alt unat_sub_if_size word_size split: if_splits)

lemma managed_iff:
  "managed s p \<longleftrightarrow> page_aligned p \<and> k_end s \<le> p \<and> 2147483648 \<le> unat p \<and> unat p < 2382364672"
  using unat_lt32 [of p]
  by (auto simp: managed_def V2P_def word_less_nat_alt unat_sub_if_size word_size split: if_splits)

lemma kfree_eq:
  "managed s v \<Longrightarrow> kfree v s = Ok (s\<lparr>
     k_mem := store32 (memset (k_mem s) v 1 PGSIZE) v (kmem_freelist s), kmem_freelist := v\<rparr>)"
  by (simp add: kfree_def managed_def page_aligned_def not_less not_le)

lemma kfree_mem_outside:
  assumes "kfree v s = Ok s'" and "\<not> unat (a - v) < 4096"
  shows "k_mem s' a = k_mem s a"
  using assms
  by (auto simp: kfree_def memset_filled filled_def store32_outside split: if_splits)

lemma kalloc_mem [simp]: "k_mem (snd (kalloc s)) = k_mem s" "k_end (snd (kalloc s)) = k_end s"
  by (simp_all add: kalloc_def Let_def)

lemma kfree_avail:
  assumes av: "kmem_avail s ps" and v: "managed s v" "v \<notin> set ps"
  shows "\<exists>s'. kfree v s = Ok s' \<and> kmem_avail s' (v # ps) \<and> managed s' = managed s"
proof -
  let ?m = "store32 (memset (k_mem s) v 1 PGSIZE) v (kmem_freelist s)"
  have "load32 ?m x = load32 (k_mem s) x" if "x \<in> set ps" for x
  proof (rule load32_cong)
    fix i :: uint assume i: "i < 4"
    have x: "page_aligned x" "x \<noteq> v" using that av v by (auto simp: kmem_avail_def managed_def)
    have "unat (x + i - x) < 4096" using i by (simp add: word_less_nat_alt)
    then have "\<not> unat (x + i - v) < 4096"
      using x v(1) by (intro outside_page [of x]) (auto simp: managed_def)
    then show "?m (x + i) = k_mem s (x + i)"
      by (simp add: store32_outside memset_filled filled_def)
  qed
  then have "flist ?m (kmem_freelist s) ps"
    using av flist_cong [of ps ?m "k_mem s"] by (simp add: kmem_avail_def)
  with av v show ?thesis
    by (auto simp: kfree_eq [OF v(1)] kmem_avail_def managed_nonzero [OF v(1)] managed_def fun_eq_iff)
qed

interpretation kpages: page_allocator kalloc kfree 0 managed kmem_avail
proof unfold_locales
  fix s :: "'z km_scheme" and ps p q s'
  show "kmem_avail s ps \<Longrightarrow> distinct ps" by (simp add: kmem_avail_def)
  show "kmem_avail s ps \<Longrightarrow> p \<in> set ps \<Longrightarrow> managed s p" by (simp add: kmem_avail_def)
  show "managed s p \<Longrightarrow> p \<noteq> 0" by (rule managed_nonzero)
  show "kmem_avail s [] \<Longrightarrow> kalloc s = (0, s)" by (simp add: kmem_avail_def kalloc_def)
  show "kmem_avail s (p # ps) \<Longrightarrow> kalloc s = (q, s') \<Longrightarrow> q = p \<and> kmem_avail s' ps"
    by (auto simp: kmem_avail_def kalloc_def Let_def managed_def)
  show "kalloc s = (q, s') \<Longrightarrow> managed s' = managed s"
    by (auto simp: kalloc_def Let_def managed_def fun_eq_iff split: if_splits)
  show "kmem_avail s ps \<Longrightarrow> managed s p \<Longrightarrow> p \<notin> set ps \<Longrightarrow>
      \<exists>s'. kfree p s = Ok s' \<and> kmem_avail s' (p # ps) \<and> managed s' = managed s"
    by (rule kfree_avail)
qed

subsection \<open>Initialisation frees every page of the range\<close>

lemma page_step:
  assumes "page_aligned p" "unat p + 4096 \<le> 4294967295"
  shows "unat (p + PGSIZE) = unat p + 4096" "page_aligned (p + PGSIZE)"
proof -
  show u: "unat (p + PGSIZE) = unat p + 4096"
    using assms(2) by (simp add: unat_word_ariths)
  show "page_aligned (p + PGSIZE)"
    using assms(1) unfolding page_aligned_unat u by simp
qed

lemma freerange_loop_avail:
  assumes "kmem_avail s ps" "page_aligned p" "k_end s \<le> p" "2147483648 \<le> unat p"
    "unat p \<le> 2382364672" "unat vend \<le> 2382364672" "\<forall>q \<in> set ps. q < p"
  shows "\<exists>s' qs. freerange_loop p vend s = Ok s' \<and> kmem_avail s' (qs @ ps) \<and> k_end s' = k_end s \<and>
    set qs = {q. page_aligned q \<and> p \<le> q \<and> unat q + 4096 \<le> unat vend}"
  using assms
proof (induction p vend s arbitrary: ps rule: freerange_loop.induct)
  case (1 p vend s)
  have step: "unat (p + PGSIZE) = unat p + 4096" "page_aligned (p + PGSIZE)"
    using page_step [OF "1.prems"(2)] "1.prems"(5) by simp_all
  show ?case
  proof (cases "p + PGSIZE \<le> vend")
    case False
    then have "{q. page_aligned q \<and> p \<le> q \<and> unat q + 4096 \<le> unat vend} = {}"
      using step(1) by (auto simp: word_le_nat_alt)
    with False "1.prems"(1) show ?thesis
      by (subst freerange_loop.simps) (auto intro!: exI [of _ "[]"])
  next
    case True
    then have le: "unat p + 4096 \<le> unat vend" using step(1) by (simp add: word_le_nat_alt)
    have "managed s p" using "1.prems" le by (auto simp: managed_iff)
    moreover have "p \<notin> set ps" using "1.prems"(7) by auto
    ultimately obtain s1 where s1: "kfree p s = Ok s1" "kmem_avail s1 (p # ps)"
      using kfree_avail [OF "1.prems"(1)] by blast
    have e1: "k_end s1 = k_end s" using s1(1) by (auto simp: kfree_def split: if_splits)
    have "\<exists>s' qs. freerange_loop (p + PGSIZE) vend s1 = Ok s' \<and> kmem_avail s' (qs @ p # ps) \<and>
      k_end s' = k_end s1 \<and>
      set qs = {q. page_aligned q \<and> p + PGSIZE \<le> q \<and> unat q + 4096 \<le> unat vend}"
      using "1.prems" le step e1
      by (intro "1.IH" [OF True s1]) (auto simp: word_le_nat_alt word_less_nat_alt)
    then obtain s' qs where
      r: "freerange_loop (p + PGSIZE) vend s1 = Ok s'" "kmem_avail s' (qs @ p # ps)"
        "k_end s' = k_end s1"
        "set qs = {q. page_aligned q \<and> p + PGSIZE \<le> q \<and> unat q + 4096 \<le> unat vend}" by blast
    have "set (qs @ [p]) = {q. page_aligned q \<and> p \<le> q \<and> unat q + 4096 \<le> unat vend}"
    proof -
      have next_page: "q = p \<or> p + PGSIZE \<le> q" if "page_aligned q" "p \<le> q" for q
      proof -
        obtain k where "unat q = 4096 * k" using \<open>page_aligned q\<close> by (rule page_alignedE)
        moreover obtain l where "unat p = 4096 * l" using "1.prems"(2) by (rule page_alignedE)
        ultimately show ?thesis
          using that(2) step(1) by (cases "k = l") (auto simp: word_le_nat_alt word_unat_eq_iff)
      qed
      have "p \<le> p + PGSIZE" using step(1) by (simp add: word_le_nat_alt)
      then show ?thesis
        using r(4) next_page le "1.prems"(2) by (auto intro: order_trans)
    qed
    moreover have "freerange_loop p vend s = Ok s'"
      using True s1(1) r(1) by (subst freerange_loop.simps) simp
    moreover have "kmem_avail s' ((qs @ [p]) @ ps)" "k_end s' = k_end s"
      using r(2,3) e1 by simp_all
    ultimately show ?thesis by blast
  qed
qed

text \<open>
  The state at boot, for the examples: the kernel image ends at \<^verbatim>\<open>0x80115000\<close>, nothing is free.
\<close>

definition km_boot :: km where
  "km_boot = \<lparr>k_end = 0x80115000, k_data = 0x80108000, k_mem = (\<lambda>_. 0),
     kmem_freelist = 0, kmem_use_lock = False\<rparr>"

text \<open>
  C1. Booting frees each page once: after \<^verbatim>\<open>kinit1(end, P2V(4MB))\<close> and
  \<^verbatim>\<open>kinit2(P2V(4MB), P2V(PHYSTOP))\<close> on an empty list, as \<^verbatim>\<open>main()\<close> calls them, neither call
  panics and the free list holds, without repetition, exactly the page-aligned pages between
  \<^verbatim>\<open>end\<close> and \<^verbatim>\<open>P2V(PHYSTOP)\<close>.
\<close>

theorem kinit_frees_all:
  assumes "kmem_freelist s = 0" and "2147483648 \<le> unat (k_end s)" and "unat (k_end s) \<le> 2151677952"
  shows "\<exists>s1 s2 ps. kinit1 (k_end s) (P2V 0x400000) s = Ok s1 \<and>
    kinit2 (P2V 0x400000) (P2V PHYSTOP) s1 = Ok s2 \<and> kmem_avail s2 ps \<and>
    set ps = {p. page_aligned p \<and> k_end s \<le> p \<and> unat p + 4096 \<le> 2382364672}"
proof -
  let ?s0 = "s\<lparr>kmem_use_lock := False\<rparr>"
  let ?p = "PGROUNDUP (k_end s)" and ?mid = "P2V 0x400000" and ?top = "P2V PHYSTOP"
  have um: "unat ?mid = 2151677952" and ut: "unat ?top = 2382364672"
    by (simp_all add: P2V_def)
  have up: "unat ?p = (unat (k_end s) + 4095) div 4096 * 4096"
    using assms(3) by (intro unat_PGROUNDUP) simp
  obtain d where d: "unat ?p = 4096 * d" "4096 * d \<le> unat (k_end s) + 4095"
    "unat (k_end s) < 4096 * d + 1"
  proof
    let ?d = "(unat (k_end s) + 4095) div 4096"
    show "unat ?p = 4096 * ?d" using up by simp
    show "4096 * ?d \<le> unat (k_end s) + 4095" by simp
    have "unat (k_end s) + 4095 < 4096 * ?d + 4096"
      using mod_less_divisor [of 4096 "unat (k_end s) + 4095"]
        div_mult_mod_eq [of "unat (k_end s) + 4095" 4096] by linarith
    then show "unat (k_end s) < 4096 * ?d + 1" by simp
  qed
  have "d \<le> 525312" using d(2) assms(3) by simp
  then have le_p: "unat (k_end s) \<le> unat ?p" "unat ?p \<le> 2151677952"
    using d by simp_all
  have up_q: "?p \<le> q \<longleftrightarrow> k_end s \<le> q" if "page_aligned q" for q
  proof -
    obtain k where "unat q = 4096 * k" using \<open>page_aligned q\<close> by (rule page_alignedE)
    then show ?thesis using d unfolding word_le_nat_alt by (cases "d \<le> k") auto
  qed
  have "kmem_avail ?s0 []" using assms(1) by (simp add: kmem_avail_def)
  from freerange_loop_avail [OF this, of ?p ?mid] obtain s1 qs where
    s1: "kinit1 (k_end s) ?mid s = Ok s1" "kmem_avail s1 qs" "k_end s1 = k_end s"
      "set qs = {q. page_aligned q \<and> ?p \<le> q \<and> unat q + 4096 \<le> unat ?mid}"
    using le_p assms(2) um by (auto simp: kinit1_def freerange_def word_le_nat_alt)
  have mid: "PGROUNDUP ?mid = ?mid" "page_aligned ?mid"
    by (simp_all add: P2V_def PGROUNDUP_def page_aligned_def)
  have "\<exists>s' rs. freerange_loop ?mid ?top s1 = Ok s' \<and> kmem_avail s' (rs @ qs) \<and>
    k_end s' = k_end s1 \<and>
    set rs = {q. page_aligned q \<and> ?mid \<le> q \<and> unat q + 4096 \<le> unat ?top}"
    using assms(3) s1 mid um ut
    by (intro freerange_loop_avail) (auto simp: word_le_nat_alt word_less_nat_alt)
  then obtain s' rs where
    s2: "freerange_loop ?mid ?top s1 = Ok s'" "kmem_avail s' (rs @ qs)"
      "set rs = {q. page_aligned q \<and> ?mid \<le> q \<and> unat q + 4096 \<le> unat ?top}" by blast
  have "set (rs @ qs) = {p. page_aligned p \<and> k_end s \<le> p \<and> unat p + 4096 \<le> 2382364672}"
  proof -
    have split: "(?mid \<le> q \<and> unat q + 4096 \<le> unat ?top) \<or> (?p \<le> q \<and> unat q + 4096 \<le> unat ?mid)
      \<longleftrightarrow> k_end s \<le> q \<and> unat q + 4096 \<le> 2382364672" if al: "page_aligned q" for q
    proof -
      obtain k where k: "unat q = 4096 * k" using al by (rule page_alignedE)
      have "unat q + 4096 \<le> unat ?mid \<or> ?mid \<le> q"
        unfolding word_le_nat_alt um k by (cases "k < 525312") auto
      then show ?thesis
        using le_p assms(3) up_q [OF al] unfolding ut word_le_nat_alt um by (elim disjE) auto
    qed
    then show ?thesis unfolding s2(3) s1(4) set_append by blast
  qed
  moreover have "kinit2 ?mid ?top s1 = Ok (s'\<lparr>kmem_use_lock := True\<rparr>)"
    using s2(1) mid by (simp add: kinit2_def freerange_def)
  moreover have "kmem_avail (s'\<lparr>kmem_use_lock := True\<rparr>) (rs @ qs)"
    using s2(2) by (simp add: kmem_avail_def managed_def)
  ultimately show ?thesis using s1(1) by blast
qed

theorem kinit_frees_all_witness:
  "\<exists>s1 s2 ps. kinit1 (k_end km_boot) (P2V 0x400000) km_boot = Ok s1 \<and>
    kinit2 (P2V 0x400000) (P2V PHYSTOP) s1 = Ok s2 \<and> kmem_avail s2 ps \<and>
    set ps = {p. page_aligned p \<and> k_end km_boot \<le> p \<and> unat p + 4096 \<le> 2382364672}"
  by (rule kinit_frees_all) (simp_all add: km_boot_def)

text \<open>
  C2. No page is handed out twice and none is lost: from any state whose free list holds the pages
  \<open>ps\<close>, every history of \<open>kalloc\<close> calls and of \<open>kfree\<close> calls on pages held
  runs without panic, and at its end the pages held are distinct, none of them is on the free list,
  and the two together are \<open>ps\<close>.
\<close>

theorem kalloc_history_safe:
  assumes "kmem_avail s ps"
  shows "\<exists>held s' ps'. kpages.history ops [] s = Ok (held, s') \<and> kmem_avail s' ps' \<and>
    distinct held \<and> set held \<inter> set ps' = {} \<and> set held \<union> set ps' = set ps"
  using kpages.history_safe [of s ps "[]" ops] assms by simp

theorem kalloc_history_safe_witness:
  "kmem_avail (km_boot\<lparr>kmem_freelist := 0x80200000\<rparr>) [0x80200000] \<and>
   (\<exists>held s' ps'. kpages.history [Alloc, Alloc, Free 0] []
      (km_boot\<lparr>kmem_freelist := 0x80200000\<rparr>) = Ok (held, s') \<and> kmem_avail s' ps' \<and>
    distinct held \<and> set held \<inter> set ps' = {} \<and> set held \<union> set ps' = set [0x80200000])"
proof -
  have h: "kmem_avail (km_boot\<lparr>kmem_freelist := 0x80200000\<rparr>) [0x80200000]"
    by (simp add: kmem_avail_def km_boot_def load32_def managed_def page_aligned_def V2P_def)
  show ?thesis using h kalloc_history_safe [OF h, of "[Alloc, Alloc, Free 0]"] by blast
qed

end
