(* ===== verification/Vm.thy ===== *)
theory Vm
  imports Kalloc
begin

section \<open>Page tables and address spaces: vm.c\<close>

text \<open>
  A page directory is a page of 1024 words in kernel memory; a present entry holds the physical
  address of a page table, another page of 1024 words. The functions of \<^verbatim>\<open>vm.c\<close> read and write
  those words through \<open>load32\<close> and \<open>store32\<close> and take pages from \<open>kalloc\<close>.
  A null pointer result is \<open>None\<close> for \<open>walkpgdir\<close> and \<open>0\<close> elsewhere, as in the
  source.

  \<open>pte_of\<close> is what a page directory means: the entry the hardware would find for a virtual
  address. The refinement lemmas say how each operation changes that function.

  The loops over addresses return \<open>Diverge\<close> when the counter wraps past the top of the
  address space: the comparison with a limit above the last page then holds again for every page
  and the loop of the source does not end. The messages \<^verbatim>\<open>allocuvm\<close> prints are left out.
\<close>

subsection \<open>Segments and the per-CPU registers\<close>

record segdesc =
  lim_15_0 :: "16 word"
  base_15_0 :: "16 word"
  base_23_16 :: "8 word"
  sd_type :: "4 word"
  sd_s :: "1 word"
  sd_dpl :: "2 word"
  sd_p :: "1 word"
  lim_19_16 :: "4 word"
  sd_avl :: "1 word"
  sd_rsv1 :: "1 word"
  sd_db :: "1 word"
  sd_g :: "1 word"
  base_31_24 :: "8 word"

definition SEG :: "uint \<Rightarrow> uint \<Rightarrow> uint \<Rightarrow> uint \<Rightarrow> segdesc" where
  "SEG type base lim dpl =
     \<lparr>lim_15_0 = ucast (drop_bit 12 lim AND 0xFFFF), base_15_0 = ucast (base AND 0xFFFF),
      base_23_16 = ucast (drop_bit 16 base AND 0xFF), sd_type = ucast type, sd_s = 1,
      sd_dpl = ucast dpl, sd_p = 1, lim_19_16 = ucast (drop_bit 28 lim), sd_avl = 0, sd_rsv1 = 0,
      sd_db = 1, sd_g = 1, base_31_24 = ucast (drop_bit 24 base)\<rparr>"

definition SEG16 :: "uint \<Rightarrow> uint \<Rightarrow> uint \<Rightarrow> uint \<Rightarrow> segdesc" where
  "SEG16 type base lim dpl =
     \<lparr>lim_15_0 = ucast (lim AND 0xFFFF), base_15_0 = ucast (base AND 0xFFFF),
      base_23_16 = ucast (drop_bit 16 base AND 0xFF), sd_type = ucast type, sd_s = 1,
      sd_dpl = ucast dpl, sd_p = 1, lim_19_16 = ucast (drop_bit 16 lim), sd_avl = 0, sd_rsv1 = 0,
      sd_db = 1, sd_g = 0, base_31_24 = ucast (drop_bit 24 base)\<rparr>"

text \<open>
  The fields of the current CPU the memory code sets: its page-directory register, the three fields
  of its task state that are ever written, its segment table, its task register. \<open>ts_addr\<close> is
  the address of \<^verbatim>\<open>mycpu()->ts\<close>, chosen by the linker.
\<close>

record vmst = km +
  kpgdir :: uint
  cpu_cr3 :: uint
  cpu_gdt :: "segdesc list"
  cpu_tr :: ushort
  ts_addr :: uint
  ts_esp0 :: uint
  ts_ss0 :: ushort
  ts_iomb :: ushort

definition seginit :: "'z vmst_scheme \<Rightarrow> 'z vmst_scheme" where
  "seginit s = s\<lparr>cpu_gdt := (cpu_gdt s)
     [1 := SEG (0x8 OR 0x2) 0 0xFFFFFFFF 0,
      2 := SEG 0x2 0 0xFFFFFFFF 0,
      3 := SEG (0x8 OR 0x2) 0 0xFFFFFFFF 3,
      4 := SEG 0x2 0 0xFFFFFFFF 3]\<rparr>"

subsection \<open>The operations\<close>

definition walkpgdir :: "uint \<Rightarrow> uint \<Rightarrow> bool \<Rightarrow> 'z km_scheme \<Rightarrow> uint option \<times> 'z km_scheme" where
  "walkpgdir pgdir va alloc s =
     (let pde = pgdir + 4 * PDX va in
      if load32 (k_mem s) pde AND PTE_P \<noteq> 0
      then (Some (P2V (PTE_ADDR (load32 (k_mem s) pde)) + 4 * PTX va), s)
      else if \<not> alloc then (None, s)
      else (let (pgtab, s) = kalloc s in
        if pgtab = 0 then (None, s)
        else (Some (pgtab + 4 * PTX va),
              s\<lparr>k_mem := store32 (memset (k_mem s) pgtab 0 PGSIZE) pde
                 (V2P pgtab OR PTE_P OR PTE_W OR PTE_U)\<rparr>)))"

text \<open>
  The loop of \<open>mappages\<close> from page \<open>a\<close>; \<open>n\<close> counts the pages after this one, so
  that \<open>n = 0\<close> is the test \<^verbatim>\<open>a == last\<close>.
\<close>

fun mappages_loop :: "nat \<Rightarrow> uint \<Rightarrow> uint \<Rightarrow> uint \<Rightarrow> uint \<Rightarrow> 'z km_scheme \<Rightarrow> (int \<times> 'z km_scheme) res" where
  "mappages_loop n pgdir a pa perm s =
     (case walkpgdir pgdir a True s of
        (None, s) \<Rightarrow> Ok (- 1, s)
      | (Some pte, s) \<Rightarrow>
          if load32 (k_mem s) pte AND PTE_P \<noteq> 0 then Panic ''remap''
          else
            let s = s\<lparr>k_mem := store32 (k_mem s) pte (pa OR perm OR PTE_P)\<rparr> in
            (case n of 0 \<Rightarrow> Ok (0, s)
             | Suc k \<Rightarrow> mappages_loop k pgdir (a + PGSIZE) (pa + PGSIZE) perm s))"

declare mappages_loop.simps [simp del]

definition mappages :: "uint \<Rightarrow> uint \<Rightarrow> uint \<Rightarrow> uint \<Rightarrow> uint \<Rightarrow> 'z km_scheme \<Rightarrow> (int \<times> 'z km_scheme) res" where
  "mappages pgdir va sz pa perm s =
     (let a = PGROUNDDOWN va; last = PGROUNDDOWN (va + sz - 1)
      in mappages_loop (unat (last - a) div 4096) pgdir a pa perm s)"

function deallocuvm_loop :: "uint \<Rightarrow> uint \<Rightarrow> uint \<Rightarrow> 'z km_scheme \<Rightarrow> 'z km_scheme res" where
  "deallocuvm_loop pgdir a oldsz s =
     (if a < oldsz then
        (case fst (walkpgdir pgdir a False s) of
           None \<Rightarrow>
             let a' = PGADDR (PDX a + 1) 0 0 - PGSIZE + PGSIZE
             in if a < a' then deallocuvm_loop pgdir a' oldsz s else Diverge
         | Some pte \<Rightarrow>
             bindR (if load32 (k_mem s) pte AND PTE_P \<noteq> 0 then
                      let pa = PTE_ADDR (load32 (k_mem s) pte) in
                      if pa = 0 then Panic ''kfree''
                      else bindR (kfree (P2V pa) s)
                        (\<lambda>s. Ok (s\<lparr>k_mem := store32 (k_mem s) pte 0\<rparr>))
                    else Ok s)
               (\<lambda>s. if a < a + PGSIZE then deallocuvm_loop pgdir (a + PGSIZE) oldsz s else Diverge))
      else Ok s)"
  by pat_completeness auto
termination
proof (relation "measure (\<lambda>(pgdir, a, oldsz, s). 4294967296 - unat a)")
  fix pgdir a oldsz a' :: uint and s :: "'z km_scheme"
  assume "a < a'"
  then show "((pgdir, a', oldsz, s), pgdir, a, oldsz, s)
      \<in> measure (\<lambda>(pgdir, a, oldsz, s). 4294967296 - unat a)"
    using unat_lt32 [of a] by (simp add: word_less_nat_alt)
next
  fix pgdir a oldsz :: uint and s s' :: "'z km_scheme"
  assume "a < a + PGSIZE"
  then show "((pgdir, a + PGSIZE, oldsz, s'), pgdir, a, oldsz, s)
      \<in> measure (\<lambda>(pgdir, a, oldsz, s). 4294967296 - unat a)"
    using unat_lt32 [of a] by (simp add: word_less_nat_alt)
qed simp

declare deallocuvm_loop.simps [simp del]

definition deallocuvm :: "uint \<Rightarrow> uint \<Rightarrow> uint \<Rightarrow> 'z km_scheme \<Rightarrow> (uint \<times> 'z km_scheme) res" where
  "deallocuvm pgdir oldsz newsz s =
     (if oldsz \<le> newsz then Ok (oldsz, s)
      else bindR (deallocuvm_loop pgdir (PGROUNDUP newsz) oldsz s) (\<lambda>s. Ok (newsz, s)))"

text \<open>The loop of \<open>freevm\<close> over the page directory, from entry \<open>i\<close> with \<open>n\<close> to go.\<close>

fun free_tables :: "nat \<Rightarrow> nat \<Rightarrow> uint \<Rightarrow> 'z km_scheme \<Rightarrow> 'z km_scheme res" where
  "free_tables 0 i pgdir s = Ok s"
| "free_tables (Suc n) i pgdir s =
     (let pde = load32 (k_mem s) (pgdir + 4 * of_nat i) in
      bindR (if pde AND PTE_P \<noteq> 0 then kfree (P2V (PTE_ADDR pde)) s else Ok s)
        (free_tables n (Suc i) pgdir))"

definition freevm :: "uint \<Rightarrow> 'z km_scheme \<Rightarrow> 'z km_scheme res" where
  "freevm pgdir s =
     (if pgdir = 0 then Panic ''freevm: no pgdir''
      else bindR (deallocuvm pgdir KERNBASE 0 s) (\<lambda>(_, s).
           bindR (free_tables NPDENTRIES 0 pgdir s) (kfree pgdir)))"

text \<open>The table \<open>kmap\<close> of the kernel's mappings: virtual start, physical start and end, flags.\<close>

definition kmap :: "'z km_scheme \<Rightarrow> (uint \<times> uint \<times> uint \<times> uint) list" where
  "kmap s =
     [(KERNBASE, 0, EXTMEM, PTE_W),
      (KERNBASE + EXTMEM, V2P (KERNBASE + EXTMEM), V2P (k_data s), 0),
      (k_data s, V2P (k_data s), PHYSTOP, PTE_W),
      (DEVSPACE, DEVSPACE, 0, PTE_W)]"

fun setupkvm_loop :: "(uint \<times> uint \<times> uint \<times> uint) list \<Rightarrow> uint \<Rightarrow> 'z km_scheme \<Rightarrow> (uint \<times> 'z km_scheme) res" where
  "setupkvm_loop [] pgdir s = Ok (pgdir, s)"
| "setupkvm_loop ((virt, phys_start, phys_end, perm) # ks) pgdir s =
     bindR (mappages pgdir virt (phys_end - phys_start) phys_start perm s) (\<lambda>(r, s).
       if r < 0 then bindR (freevm pgdir s) (\<lambda>s. Ok (0, s))
       else setupkvm_loop ks pgdir s)"

definition setupkvm :: "'z km_scheme \<Rightarrow> (uint \<times> 'z km_scheme) res" where
  "setupkvm s =
     (let (pgdir, s) = kalloc s in
      if pgdir = 0 then Ok (0, s)
      else
        let s = s\<lparr>k_mem := memset (k_mem s) pgdir 0 PGSIZE\<rparr> in
        if DEVSPACE < P2V PHYSTOP then Panic ''PHYSTOP too high''
        else setupkvm_loop (kmap s) pgdir s)"

definition switchkvm :: "'z vmst_scheme \<Rightarrow> 'z vmst_scheme" where
  "switchkvm s = s\<lparr>cpu_cr3 := V2P (kpgdir s)\<rparr>"

definition kvmalloc :: "'z vmst_scheme \<Rightarrow> 'z vmst_scheme res" where
  "kvmalloc s = bindR (setupkvm s) (\<lambda>(d, s). Ok (switchkvm (s\<lparr>kpgdir := d\<rparr>)))"

text \<open>
  \<open>switchuvm\<close> for a process with the given kernel stack and page directory; \<open>None\<close> is the
  null process. The task state has 104 bytes.
\<close>

definition switchuvm :: "(uint \<times> uint) option \<Rightarrow> 'z vmst_scheme \<Rightarrow> 'z vmst_scheme res" where
  "switchuvm p s =
     (case p of
        None \<Rightarrow> Panic ''switchuvm: no process''
      | Some (kstack, pgdir) \<Rightarrow>
          if kstack = 0 then Panic ''switchuvm: no kstack''
          else if pgdir = 0 then Panic ''switchuvm: no pgdir''
          else Ok (s\<lparr>cpu_gdt := (cpu_gdt s)[5 := (SEG16 0x9 (ts_addr s) 103 0)\<lparr>sd_s := 0\<rparr>],
                     ts_ss0 := push_bit 3 2, ts_esp0 := kstack + 4096, ts_iomb := 0xFFFF,
                     cpu_tr := push_bit 3 5, cpu_cr3 := V2P pgdir\<rparr>))"

text \<open>Bytes of a kernel object or of a user's buffer written to memory one after another.\<close>

fun write_bytes :: "mem \<Rightarrow> uint \<Rightarrow> uchar list \<Rightarrow> mem" where
  "write_bytes m a [] = m"
| "write_bytes m a (b # bs) = write_bytes (m(a := b)) (a + 1) bs"

definition inituvm :: "uint \<Rightarrow> uchar list \<Rightarrow> 'z km_scheme \<Rightarrow> 'z km_scheme res" where
  "inituvm pgdir init s =
     (if 4096 \<le> length init then Panic ''inituvm: more than a page''
      else
        let (mem, s) = kalloc s in
        if mem = 0 then Fault
        else
          bindR (mappages pgdir 0 PGSIZE (V2P mem) (PTE_W OR PTE_U)
                  (s\<lparr>k_mem := memset (k_mem s) mem 0 PGSIZE\<rparr>)) (\<lambda>(_, s).
            Ok (s\<lparr>k_mem := write_bytes (k_mem s) mem init\<rparr>)))"

function allocuvm_loop :: "uint \<Rightarrow> uint \<Rightarrow> uint \<Rightarrow> uint \<Rightarrow> 'z km_scheme \<Rightarrow> (uint \<times> 'z km_scheme) res" where
  "allocuvm_loop pgdir a oldsz newsz s =
     (if a < newsz then
        let (mem, s) = kalloc s in
        if mem = 0 then bindR (deallocuvm pgdir newsz oldsz s) (\<lambda>(_, s). Ok (0, s))
        else
          bindR (mappages pgdir a PGSIZE (V2P mem) (PTE_W OR PTE_U)
                  (s\<lparr>k_mem := memset (k_mem s) mem 0 PGSIZE\<rparr>)) (\<lambda>(r, s).
            if r < 0 then
              bindR (deallocuvm pgdir newsz oldsz s) (\<lambda>(_, s).
                bindR (kfree mem s) (\<lambda>s. Ok (0, s)))
            else if a < a + PGSIZE then allocuvm_loop pgdir (a + PGSIZE) oldsz newsz s
            else Diverge)
      else Ok (newsz, s))"
  by pat_completeness auto
termination
proof (relation "measure (\<lambda>(pgdir, a, oldsz, newsz, s). 4294967296 - unat a)")
  fix pgdir a oldsz newsz :: uint and s s' :: "'z km_scheme"
  assume "a < a + PGSIZE"
  then show "((pgdir, a + PGSIZE, oldsz, newsz, s'), pgdir, a, oldsz, newsz, s)
      \<in> measure (\<lambda>(pgdir, a, oldsz, newsz, s). 4294967296 - unat a)"
    using unat_lt32 [of a] by (simp add: word_less_nat_alt)
qed simp

declare allocuvm_loop.simps [simp del]

definition allocuvm :: "uint \<Rightarrow> uint \<Rightarrow> uint \<Rightarrow> 'z km_scheme \<Rightarrow> (uint \<times> 'z km_scheme) res" where
  "allocuvm pgdir oldsz newsz s =
     (if KERNBASE \<le> newsz then Ok (0, s)
      else if newsz < oldsz then Ok (oldsz, s)
      else allocuvm_loop pgdir (PGROUNDUP oldsz) oldsz newsz s)"

definition clearpteu :: "uint \<Rightarrow> uint \<Rightarrow> 'z km_scheme \<Rightarrow> 'z km_scheme res" where
  "clearpteu pgdir uva s =
     (case fst (walkpgdir pgdir uva False s) of
        None \<Rightarrow> Panic ''clearpteu''
      | Some pte \<Rightarrow> Ok (s\<lparr>k_mem := store32 (k_mem s) pte (load32 (k_mem s) pte AND NOT PTE_U)\<rparr>))"

function copyuvm_loop :: "uint \<Rightarrow> uint \<Rightarrow> uint \<Rightarrow> uint \<Rightarrow> 'z km_scheme \<Rightarrow> (uint \<times> 'z km_scheme) res" where
  "copyuvm_loop d pgdir i sz s =
     (if i < sz then
        (case fst (walkpgdir pgdir i False s) of
           None \<Rightarrow> Panic ''copyuvm: pte should exist''
         | Some pte \<Rightarrow>
             let e = load32 (k_mem s) pte in
             if e AND PTE_P = 0 then Panic ''copyuvm: page not present''
             else
               let pa = PTE_ADDR e; flags = PTE_FLAGS e; (mem, s) = kalloc s in
               if mem = 0 then bindR (freevm d s) (\<lambda>s. Ok (0, s))
               else
                 bindR (mappages d i PGSIZE (V2P mem) flags
                         (s\<lparr>k_mem := memmove (k_mem s) mem (P2V pa) PGSIZE\<rparr>)) (\<lambda>(r, s).
                   if r < 0 then bindR (freevm d s) (\<lambda>s. Ok (0, s))
                   else if i < i + PGSIZE then copyuvm_loop d pgdir (i + PGSIZE) sz s
                   else Diverge))
      else Ok (d, s))"
  by pat_completeness auto
termination
proof (relation "measure (\<lambda>(d, pgdir, i, sz, s). 4294967296 - unat i)")
  fix d pgdir i sz :: uint and s s' :: "'z km_scheme"
  assume "i < i + PGSIZE"
  then show "((d, pgdir, i + PGSIZE, sz, s'), d, pgdir, i, sz, s)
      \<in> measure (\<lambda>(d, pgdir, i, sz, s). 4294967296 - unat i)"
    using unat_lt32 [of i] by (simp add: word_less_nat_alt)
qed simp

declare copyuvm_loop.simps [simp del]

definition copyuvm :: "uint \<Rightarrow> uint \<Rightarrow> 'z km_scheme \<Rightarrow> (uint \<times> 'z km_scheme) res" where
  "copyuvm pgdir sz s =
     bindR (setupkvm s) (\<lambda>(d, s). if d = 0 then Ok (0, s) else copyuvm_loop d pgdir 0 sz s)"

text \<open>
  \<open>uva2ka\<close> does not test the pointer \<open>walkpgdir\<close> returns before reading through it: for
  an address whose page table does not exist the model faults.
\<close>

definition uva2ka :: "uint \<Rightarrow> uint \<Rightarrow> 'z km_scheme \<Rightarrow> uint res" where
  "uva2ka pgdir uva s =
     (case fst (walkpgdir pgdir uva False s) of
        None \<Rightarrow> Fault
      | Some pte \<Rightarrow>
          let e = load32 (k_mem s) pte in
          if e AND PTE_P = 0 then Ok 0
          else if e AND PTE_U = 0 then Ok 0
          else Ok (P2V (PTE_ADDR e)))"

lemma copyout_chunk: "0 < unat (PGSIZE - (va - PGROUNDDOWN va))"
proof -
  have "PGROUNDDOWN va \<le> va" "unat va - unat (PGROUNDDOWN va) = unat va mod 4096"
    by (simp_all add: word_le_nat_alt unat_PGROUNDDOWN minus_div_mult_eq_mod)
  then have "unat (va - PGROUNDDOWN va) = unat va mod 4096" by (simp add: unat_sub)
  then have "unat (PGSIZE - (va - PGROUNDDOWN va)) = 4096 - unat va mod 4096"
    by (simp add: unat_sub word_le_nat_alt)
  then show ?thesis by simp
qed

function copyout :: "uint \<Rightarrow> uint \<Rightarrow> uchar list \<Rightarrow> 'z km_scheme \<Rightarrow> (int \<times> 'z km_scheme) res" where
  "copyout pgdir va buf s =
     (if buf = [] then Ok (0, s)
      else
        let va0 = PGROUNDDOWN va in
        bindR (uva2ka pgdir va0 s) (\<lambda>pa0.
          if pa0 = 0 then Ok (- 1, s)
          else
            let n = min (unat (PGSIZE - (va - va0))) (length buf) in
            copyout pgdir (va0 + PGSIZE) (drop n buf)
              (s\<lparr>k_mem := write_bytes (k_mem s) (pa0 + (va - va0)) (take n buf)\<rparr>)))"
  by pat_completeness auto
termination
  by (relation "measure (\<lambda>(pgdir, va, buf, s). length buf)") (auto simp: copyout_chunk)

declare copyout.simps [simp del]

subsection \<open>The hardware's translation\<close>

text \<open>
  The entry the paging hardware finds for an address, and the accesses of kernel code that follows
  a user pointer while a page directory is loaded: an access through an entry that is not present,
  or a write through one that is not writable (write protection is on in supervisor mode), faults.
\<close>

definition pt_of :: "mem \<Rightarrow> uint \<Rightarrow> uint \<Rightarrow> uint option" where
  "pt_of m pgdir va =
     (let pde = load32 m (pgdir + 4 * PDX va)
      in if pde AND PTE_P \<noteq> 0 then Some (P2V (PTE_ADDR pde)) else None)"

definition pte_of :: "mem \<Rightarrow> uint \<Rightarrow> uint \<Rightarrow> uint" where
  "pte_of m pgdir va =
     (case pt_of m pgdir va of None \<Rightarrow> 0 | Some t \<Rightarrow> load32 m (t + 4 * PTX va))"

definition uread8 :: "uint \<Rightarrow> uint \<Rightarrow> 'z km_scheme \<Rightarrow> uchar res" where
  "uread8 pgdir va s =
     (let e = pte_of (k_mem s) pgdir va in
      if e AND PTE_P = 0 then Fault
      else Ok (k_mem s (P2V (PTE_ADDR e) + (va AND 0xFFF))))"

definition uwrite8 :: "uint \<Rightarrow> uint \<Rightarrow> uchar \<Rightarrow> 'z km_scheme \<Rightarrow> 'z km_scheme res" where
  "uwrite8 pgdir va c s =
     (let e = pte_of (k_mem s) pgdir va in
      if e AND PTE_P = 0 \<or> e AND PTE_W = 0 then Fault
      else Ok (s\<lparr>k_mem := (k_mem s)(P2V (PTE_ADDR e) + (va AND 0xFFF) := c)\<rparr>))"

fun uwrite :: "uint \<Rightarrow> uint \<Rightarrow> uchar list \<Rightarrow> 'z km_scheme \<Rightarrow> 'z km_scheme res" where
  "uwrite pgdir va [] s = Ok s"
| "uwrite pgdir va (c # cs) s = bindR (uwrite8 pgdir va c s) (uwrite pgdir (va + 1) cs)"

fun uread :: "uint \<Rightarrow> uint \<Rightarrow> nat \<Rightarrow> 'z km_scheme \<Rightarrow> uchar list res" where
  "uread pgdir va 0 s = Ok []"
| "uread pgdir va (Suc n) s =
     bindR (uread8 pgdir va s) (\<lambda>c. bindR (uread pgdir (va + 1) n s) (\<lambda>cs. Ok (c # cs)))"

text \<open>The bytes of a word, lowest first, and the word of four bytes.\<close>

definition le32 :: "uint \<Rightarrow> uchar list" where
  "le32 v = [ucast v, ucast (drop_bit 8 v), ucast (drop_bit 16 v), ucast (drop_bit 24 v)]"

definition of_le32 :: "uchar list \<Rightarrow> uint" where
  "of_le32 b = ucast (b ! 0) OR push_bit 8 (ucast (b ! 1)) OR push_bit 16 (ucast (b ! 2))
     OR push_bit 24 (ucast (b ! 3))"

lemma of_le32_le32 [simp]: "of_le32 (le32 v) = v"
proof -
  have "of_le32 (le32 v) = load32 (store32 (\<lambda>_. 0) 0 v) 0"
    by (simp add: of_le32_def le32_def load32_def store32_def)
  then show ?thesis by simp
qed

lemma length_le32 [simp]: "length (le32 v) = 4"
  by (simp add: le32_def)

end
