(* ===== verification/PageTable.thy ===== *)
theory PageTable
  imports Vm
begin

section \<open>What page tables mean, and what the operations do to that meaning\<close>

text \<open>
  \<open>pt_of\<close> is the page table a directory has for an address, \<open>pte_of\<close> the entry the
  hardware finds there (\<open>0\<close>, not present, without a table). \<open>pgdir_ok\<close> says the
  structure is a tree of separate pages, none of them free. The lemmas show that \<open>walkpgdir\<close>
  leaves the meaning alone and that a store through the pointer it returns changes one entry;
  \<open>mappages\<close>, \<open>clearpteu\<close>, \<open>uva2ka\<close> and \<open>copyout\<close> follow.
\<close>

definition tables_ok :: "(uint \<Rightarrow> uint option) \<Rightarrow> uint list \<Rightarrow> uint \<Rightarrow> bool" where
  "tables_ok pt ps pgdir \<longleftrightarrow> (\<forall>va t. pt va = Some t \<longrightarrow> t \<noteq> pgdir \<and> t \<notin> set ps \<and>
     (\<forall>va'. pt va' = Some t \<longrightarrow> PDX va' = PDX va))"

definition pgdir_ok :: "'z km_scheme \<Rightarrow> uint list \<Rightarrow> uint \<Rightarrow> bool" where
  "pgdir_ok s ps pgdir \<longleftrightarrow> kmem_avail s ps \<and> page_aligned pgdir \<and> pgdir \<notin> set ps \<and>
     tables_ok (pt_of (k_mem s) pgdir) ps pgdir"

text \<open>The addresses in a set of pages.\<close>

definition in_pages :: "uint set \<Rightarrow> uint \<Rightarrow> bool" where
  "in_pages P a \<longleftrightarrow> (\<exists>p \<in> P. unat (a - p) < 4096)"

subsection \<open>Entries are separate words\<close>

lemma page_aligned_P2V: "page_aligned a \<Longrightarrow> page_aligned (P2V a)"
proof -
  assume "page_aligned a"
  then obtain k where k: "unat a = 4096 * k" by (rule page_alignedE)
  have "unat (P2V a) = 4096 * (k + 524288) mod 4294967296"
    using k by (simp add: P2V_def unat_word_ariths)
  then show ?thesis by (simp add: page_aligned_unat mod_mod_cancel)
qed

lemma pt_of_aligned: "pt_of m pgdir va = Some t \<Longrightarrow> page_aligned t"
  by (auto simp: pt_of_def Let_def page_aligned_P2V split: if_splits)

lemma unat_4_PDX: "unat (4 * PDX va) = 4 * unat (PDX va)" "unat (PDX va) < 1024"
  and unat_4_PTX: "unat (4 * PTX va) = 4 * unat (PTX va)" "unat (PTX va) < 1024"
proof -
  show d: "unat (PDX va) < 1024" using unat_lt32 [of va] by (simp add: unat_PDX)
  show t: "unat (PTX va) < 1024" by (simp add: unat_PTX)
  show "unat (4 * PDX va) = 4 * unat (PDX va)" "unat (4 * PTX va) = 4 * unat (PTX va)"
    using d t by (simp_all add: unat_word_ariths)
qed

lemma entry_offset: "unat (4 * PDX va) < 4096" "unat (4 * PTX va) < 4096"
  using unat_4_PDX unat_4_PTX by simp_all

lemma entry_inj:
  "4 * PDX a = 4 * PDX b \<longleftrightarrow> PDX a = PDX b" "4 * PTX a = 4 * PTX b \<longleftrightarrow> PTX a = PTX b"
  by (simp_all add: word_unat_eq_iff unat_4_PDX unat_4_PTX)

lemma entry_aligned:
  assumes "page_aligned p"
  shows "(p + 4 * PDX va) mod 4 = 0" "(p + 4 * PTX va) mod 4 = 0"
proof -
  have "(p + w) mod 4 = 0" if w: "unat w = 4 * j" "j < 1024" for w :: uint and j
  proof -
    obtain k where k: "unat p = 4096 * k" using assms by (rule page_alignedE)
    with unat_lt32 [of p] have "k < 1048576" by simp
    with k w have "unat p + unat w < 4294967296" by simp
    then have "unat (p + w) = 4 * (1024 * k + j)" using k w by (simp add: unat_word_ariths)
    then show ?thesis by (simp add: word_unat_eq_iff unat_mod mod_mult_self1_is_0)
  qed
  then show "(p + 4 * PDX va) mod 4 = 0" "(p + 4 * PTX va) mod 4 = 0"
    using unat_4_PDX unat_4_PTX by blast+
qed

lemma in_page_self:
  fixes i j p :: uint
  shows "unat i < 4093 \<Longrightarrow> j < 4 \<Longrightarrow> unat (p + i + j - p) < 4096"
proof -
  assume "unat i < 4093" "j < 4"
  then have "unat (i + j) < 4096" by (simp add: unat_word_ariths word_less_nat_alt)
  then show ?thesis by (simp add: add.assoc)
qed

lemma entry_in_page:
  assumes "j < 4"
  shows "unat (p + 4 * PDX va + j - p) < 4096" "unat (p + 4 * PTX va + j - p) < 4096"
  by (rule in_page_self [OF _ assms], use unat_4_PDX [of va] unat_4_PTX [of va] in linarith)+

lemma store32_page:
  assumes "unat i < 4093" "\<not> unat (a - p) < 4096"
  shows "store32 m (p + i) v a = m a"
proof (rule store32_outside, rule ccontr)
  assume "\<not> 3 < unat (a - (p + i))"
  then have "a - (p + i) < 4" by (simp add: word_less_nat_alt)
  from in_page_self [OF assms(1) this, of p] assms(2) show False by simp
qed

lemma load_entry_cong:
  assumes "\<And>a. unat (a - p) < 4096 \<Longrightarrow> m a = m' a"
  shows "load32 m (p + 4 * PDX va) = load32 m' (p + 4 * PDX va)"
    and "load32 m (p + 4 * PTX va) = load32 m' (p + 4 * PTX va)"
  by (rule load32_cong; rule assms; rule entry_in_page; assumption)+

subsection \<open>walkpgdir\<close>

lemma walkpgdir_lookup:
  "walkpgdir pgdir va False s = (map_option (\<lambda>t. t + 4 * PTX va) (pt_of (k_mem s) pgdir va), s)"
  by (simp add: walkpgdir_def pt_of_def Let_def)

lemma walkpgdir_present:
  "pt_of (k_mem s) pgdir va = Some t \<Longrightarrow> walkpgdir pgdir va alloc s = (Some (t + 4 * PTX va), s)"
  by (simp add: walkpgdir_def pt_of_def Let_def split: if_splits)

lemma pt_of_store:
  assumes "pgdir_ok s ps pgdir" "pt_of (k_mem s) pgdir va = Some t"
  shows "pt_of (store32 (k_mem s) (t + 4 * PTX va) e) pgdir = pt_of (k_mem s) pgdir"
proof -
  have "page_aligned pgdir" "page_aligned t" "t \<noteq> pgdir"
    using assms pt_of_aligned unfolding pgdir_ok_def tables_ok_def by blast+
  then have "store32 (k_mem s) (t + 4 * PTX va) e a = k_mem s a" if "unat (a - pgdir) < 4096" for a
    using that outside_page [of pgdir t a] unat_4_PTX [of va] by (intro store32_page) auto
  then have "load32 (store32 (k_mem s) (t + 4 * PTX va) e) (pgdir + 4 * PDX v)
      = load32 (k_mem s) (pgdir + 4 * PDX v)" for v
    by (rule load_entry_cong)
  then show ?thesis by (simp add: pt_of_def fun_eq_iff)
qed

lemma pte_of_store:
  assumes ok: "pgdir_ok s ps pgdir" and t: "pt_of (k_mem s) pgdir va = Some t"
  shows "pte_of (store32 (k_mem s) (t + 4 * PTX va) e) pgdir v =
    (if PGROUNDDOWN v = PGROUNDDOWN va then e else pte_of (k_mem s) pgdir v)"
proof (cases "pt_of (k_mem s) pgdir v")
  case None
  then have "PDX v \<noteq> PDX va" using t by (auto simp: pt_of_def)
  then have "PGROUNDDOWN v \<noteq> PGROUNDDOWN va" using PDX_PTX_eq by blast
  then show ?thesis using None by (simp add: pte_of_def pt_of_store [OF ok t])
next
  case (Some u)
  have al: "page_aligned u" "page_aligned t" using Some t pt_of_aligned by blast+
  have "u = t" if "PDX v = PDX va" using Some t that by (simp add: pt_of_def)
  moreover have "PDX v = PDX va" if "u = t" using ok Some t that unfolding pgdir_ok_def tables_ok_def by blast
  ultimately have "PDX v = PDX va \<longleftrightarrow> u = t" by blast
  then have "u + 4 * PTX v = t + 4 * PTX va \<longleftrightarrow> PGROUNDDOWN v = PGROUNDDOWN va"
    using pages_apart [OF al, of "4 * PTX v" "4 * PTX va"] entry_offset
    by (auto simp: entry_inj simp flip: PDX_PTX_eq)
  then show ?thesis
    using Some load32_store32_other [OF entry_aligned(2) entry_aligned(2), OF al(2,1)]
    by (auto simp: pte_of_def pt_of_store [OF ok t])
qed

lemma kmem_avail_cong:
  assumes "kmem_avail s ps" "\<And>a. in_pages (set ps) a \<Longrightarrow> m a = k_mem s a"
  shows "kmem_avail (s\<lparr>k_mem := m\<rparr>) ps"
proof -
  have "load32 m x = load32 (k_mem s) x" if "x \<in> set ps" for x
  proof (rule load32_cong, rule assms(2))
    fix i :: uint assume "i < 4"
    then have "unat (x + i - x) < 4096" by (simp add: word_less_nat_alt)
    then show "in_pages (set ps) (x + i)" using that unfolding in_pages_def by blast
  qed
  then show ?thesis
    using assms(1) flist_cong [of ps m "k_mem s"] by (simp add: kmem_avail_def managed_def)
qed

lemma in_pages_other:
  assumes "in_pages P a" "\<And>p. p \<in> P \<Longrightarrow> page_aligned p" "page_aligned q" "q \<notin> P"
  shows "\<not> unat (a - q) < 4096"
  using assms outside_page [of _ q a] by (force simp: in_pages_def)

lemma pgdir_ok_freeD:
  assumes "pgdir_ok s ps pgdir"
  shows "kmem_avail s ps" "page_aligned pgdir" "pgdir \<notin> set ps" "distinct ps"
    "p \<in> set ps \<Longrightarrow> managed s p" "p \<in> set ps \<Longrightarrow> page_aligned p"
  using assms by (auto simp: pgdir_ok_def kmem_avail_def managed_def)

lemma pgdir_ok_tableD:
  assumes "pgdir_ok s ps pgdir" "pt_of (k_mem s) pgdir va = Some t"
  shows "t \<noteq> pgdir" "t \<notin> set ps" "page_aligned t"
    "pt_of (k_mem s) pgdir va' = Some t \<Longrightarrow> PDX va' = PDX va"
  using assms pt_of_aligned unfolding pgdir_ok_def tables_ok_def by blast+

lemma pgdir_ok_store:
  assumes ok: "pgdir_ok s ps pgdir" and t: "pt_of (k_mem s) pgdir va = Some t"
  shows "pgdir_ok (s\<lparr>k_mem := store32 (k_mem s) (t + 4 * PTX va) e\<rparr>) ps pgdir"
proof -
  have "kmem_avail (s\<lparr>k_mem := store32 (k_mem s) (t + 4 * PTX va) e\<rparr>) ps"
  proof (rule kmem_avail_cong)
    fix a assume "in_pages (set ps) a"
    then have "\<not> unat (a - t) < 4096"
      using pgdir_ok_freeD [OF ok] pgdir_ok_tableD [OF ok t] by (intro in_pages_other) auto
    then show "store32 (k_mem s) (t + 4 * PTX va) e a = k_mem s a"
      using unat_4_PTX [of va] by (intro store32_page) auto
  qed (rule pgdir_ok_freeD [OF ok])
  then show ?thesis using ok by (simp add: pgdir_ok_def pt_of_store [OF ok t])
qed

subsection \<open>A new page table\<close>

lemma V2P_eq_P2V: "V2P a = P2V a"
  by (simp add: V2P_def P2V_def diff_eq_eq add.assoc)

lemma V2P_aligned: "page_aligned p \<Longrightarrow> page_aligned (V2P p)"
  using page_aligned_P2V [of p] by (simp add: V2P_eq_P2V)

lemma new_pde: "page_aligned p \<Longrightarrow> P2V (PTE_ADDR (V2P p OR 7)) = p" "(V2P p OR 7) AND 1 \<noteq> 0"
proof -
  show "page_aligned p \<Longrightarrow> P2V (PTE_ADDR (V2P p OR 7)) = p"
    by (simp add: PTE_parts V2P_aligned)
  have "bit ((V2P p OR 7) AND 1) 0" by (simp add: bit_simps)
  then show "(V2P p OR 7) AND 1 \<noteq> 0" by (metis bit_0_eq bot_apply bot_bool_def)
qed

text \<open>The memory after \<open>walkpgdir\<close> has installed the zeroed page \<open>p\<close> as a page table.\<close>

definition new_table :: "mem \<Rightarrow> uint \<Rightarrow> uint \<Rightarrow> uint \<Rightarrow> mem" where
  "new_table m pgdir va p = store32 (memset m p 0 PGSIZE) (pgdir + 4 * PDX va) (V2P p OR 7)"

lemma new_table_outside:
  assumes "\<not> unat (a - pgdir) < 4096" "\<not> unat (a - p) < 4096"
  shows "new_table m pgdir va p a = m a"
  using assms unat_4_PDX [of va] unfolding new_table_def
  by (subst store32_page) (auto simp: memset_filled filled_def)

lemma new_table_zero:
  assumes "page_aligned pgdir" "page_aligned p" "p \<noteq> pgdir" "unat (a - p) < 4096"
  shows "new_table m pgdir va p a = 0"
  using assms outside_page [of p pgdir a] unat_4_PDX [of va] unfolding new_table_def
  by (subst store32_page) (auto simp: memset_filled filled_def)

lemma pt_of_new_table:
  assumes "page_aligned pgdir" "page_aligned p" "p \<noteq> pgdir"
  shows "pt_of (new_table m pgdir va p) pgdir v =
    (if PDX v = PDX va then Some p else pt_of m pgdir v)"
proof (cases "PDX v = PDX va")
  case True
  then show ?thesis using new_pde assms(2) by (simp add: pt_of_def new_table_def)
next
  case False
  then have "pgdir + 4 * PDX va \<noteq> pgdir + 4 * PDX v" by (simp add: entry_inj)
  then have "load32 (new_table m pgdir va p) (pgdir + 4 * PDX v)
      = load32 (memset m p 0 PGSIZE) (pgdir + 4 * PDX v)"
    unfolding new_table_def
    by (intro load32_store32_other entry_aligned(1) assms(1))
  also have "\<dots> = load32 m (pgdir + 4 * PDX v)"
    using assms outside_page [of pgdir p]
    by (intro load_entry_cong(1)) (auto simp: memset_filled filled_def)
  finally show ?thesis using False by (simp add: pt_of_def)
qed

lemma pte_of_new_table:
  assumes ok: "pgdir_ok s ps pgdir" and p: "p \<in> set ps" and none: "pt_of (k_mem s) pgdir va = None"
  shows "pte_of (new_table (k_mem s) pgdir va p) pgdir = pte_of (k_mem s) pgdir"
proof
  fix v
  have al: "page_aligned pgdir" "page_aligned p" "p \<noteq> pgdir"
    using pgdir_ok_freeD [OF ok] p by auto
  show "pte_of (new_table (k_mem s) pgdir va p) pgdir v = pte_of (k_mem s) pgdir v"
  proof (cases "PDX v = PDX va")
    case True
    then have "pt_of (k_mem s) pgdir v = None" using none by (simp add: pt_of_def)
    moreover have "load32 (new_table (k_mem s) pgdir va p) (p + 4 * PTX v)
        = load32 (\<lambda>_. 0) (p + 4 * PTX v)"
      by (rule load_entry_cong(2)) (rule new_table_zero [OF al])
    ultimately show ?thesis
      using True by (simp add: pte_of_def pt_of_new_table [OF al] load32_def)
  next
    case False
    have "load32 (new_table (k_mem s) pgdir va p) (u + 4 * PTX v) = load32 (k_mem s) (u + 4 * PTX v)"
      if u: "pt_of (k_mem s) pgdir v = Some u" for u
    proof (rule load_entry_cong(2), rule new_table_outside)
      fix a assume a: "unat (a - u) < 4096"
      have "page_aligned u" "u \<noteq> pgdir" "u \<noteq> p" using pgdir_ok_tableD [OF ok u] p by auto
      with a al show "\<not> unat (a - pgdir) < 4096" "\<not> unat (a - p) < 4096"
        using outside_page [of u] by blast+
    qed
    then show ?thesis
      using False by (simp add: pte_of_def pt_of_new_table [OF al] split: option.split)
  qed
qed

text \<open>The pages a directory and its tables use, with the free ones: conserved by \<open>walkpgdir\<close>.\<close>

definition vm_pages :: "'z km_scheme \<Rightarrow> uint list \<Rightarrow> uint \<Rightarrow> uint set" where
  "vm_pages s ps pgdir = insert pgdir (ran (pt_of (k_mem s) pgdir) \<union> set ps)"

definition vm_frame :: "'z km_scheme \<Rightarrow> uint list \<Rightarrow> uint \<Rightarrow> 'z km_scheme \<Rightarrow> uint list \<Rightarrow> bool" where
  "vm_frame s ps pgdir s' ps' \<longleftrightarrow> pgdir_ok s' ps' pgdir \<and>
     vm_pages s' ps' pgdir = vm_pages s ps pgdir \<and> set ps' \<subseteq> set ps \<and> managed s' = managed s \<and>
     (\<forall>a. \<not> in_pages (vm_pages s ps pgdir) a \<longrightarrow> k_mem s' a = k_mem s a)"

lemma vm_frame_refl: "pgdir_ok s ps pgdir \<Longrightarrow> vm_frame s ps pgdir s ps"
  by (simp add: vm_frame_def)

lemma vm_frame_trans:
  "vm_frame s ps pgdir s1 ps1 \<Longrightarrow> vm_frame s1 ps1 pgdir s2 ps2 \<Longrightarrow> vm_frame s ps pgdir s2 ps2"
  by (auto simp: vm_frame_def)

lemma tables_okD:
  assumes "tables_ok pt ps pgdir" "pt va = Some t"
  shows "t \<noteq> pgdir" "t \<notin> set ps" "pt va' = Some t \<Longrightarrow> PDX va' = PDX va"
  using assms unfolding tables_ok_def by blast+

lemma tables_ok_new:
  assumes ok: "tables_ok pt (p # ps) pgdir" and p: "p \<noteq> pgdir" "p \<notin> set ps"
  shows "tables_ok (\<lambda>v. if PDX v = PDX va then Some p else pt v) ps pgdir"
  unfolding tables_ok_def
proof (intro allI impI conjI)
  fix v t v'
  assume t: "(if PDX v = PDX va then Some p else pt v) = Some t"
  have np: "pt x \<noteq> Some p" for x using tables_okD(2) [OF ok, of x p] by auto
  show "t \<noteq> pgdir" "t \<notin> set ps"
    using t p tables_okD(1,2) [OF ok, of v t] by (auto split: if_splits)
  assume t': "(if PDX v' = PDX va then Some p else pt v') = Some t"
  show "PDX v' = PDX v"
    using t t' np tables_okD(3) [OF ok, of v t v'] by (auto split: if_splits)
qed

lemma walkpgdir_new:
  assumes ok: "pgdir_ok s (p # ps) pgdir" and none: "pt_of (k_mem s) pgdir va = None"
  shows "\<exists>s'. walkpgdir pgdir va True s = (Some (p + 4 * PTX va), s') \<and>
    pt_of (k_mem s') pgdir va = Some p \<and> vm_frame s (p # ps) pgdir s' ps \<and>
    pte_of (k_mem s') pgdir = pte_of (k_mem s) pgdir"
proof -
  note free = pgdir_ok_freeD [OF ok]
  obtain s1 where s1: "kalloc s = (p, s1)" "kmem_avail s1 ps" "managed s1 = managed s"
    using kpages.alloc_Cons [OF free(1)] kpages.alloc_fit by (metis prod.collapse)
  have m1: "k_mem s1 = k_mem s" using s1(1) kalloc_mem(1) [of s] by simp
  have p: "page_aligned pgdir" "page_aligned p" "p \<noteq> pgdir" "p \<noteq> 0" "p \<notin> set ps"
    using free managed_nonzero by auto
  let ?m = "new_table (k_mem s) pgdir va p" and ?s' = "s1\<lparr>k_mem := new_table (k_mem s) pgdir va p\<rparr>"
  have pt: "pt_of ?m pgdir = (\<lambda>v. if PDX v = PDX va then Some p else pt_of (k_mem s) pgdir v)"
    by (rule ext) (rule pt_of_new_table [OF p(1-3)])
  have w: "walkpgdir pgdir va True s = (Some (p + 4 * PTX va), ?s')"
    using none s1(1) p(4) m1
    by (simp add: walkpgdir_def pt_of_def Let_def new_table_def split: if_splits)
  have "kmem_avail ?s' ps"
  proof (rule kmem_avail_cong [OF s1(2)])
    fix a assume a: "in_pages (set ps) a"
    have "\<not> unat (a - pgdir) < 4096" "\<not> unat (a - p) < 4096"
      by (rule in_pages_other [OF a]; use free p in auto)+
    then show "?m a = k_mem s1 a" using m1 by (simp add: new_table_outside)
  qed
  moreover have "tables_ok (pt_of ?m pgdir) ps pgdir"
    using tables_ok_new [OF _ p(3,5)] ok unfolding pgdir_ok_def pt by simp
  ultimately have "pgdir_ok ?s' ps pgdir" using free by (simp add: pgdir_ok_def)
  moreover have "vm_pages ?s' ps pgdir = vm_pages s (p # ps) pgdir"
  proof -
    have "pt_of (k_mem s) pgdir v = None" if "PDX v = PDX va" for v
      using none that by (simp add: pt_of_def)
    then have "ran (pt_of ?m pgdir) = insert p (ran (pt_of (k_mem s) pgdir))"
      unfolding ran_def pt by auto (metis option.distinct(1))
    then show ?thesis by (auto simp: vm_pages_def)
  qed
  moreover have "?m a = k_mem s a" if "\<not> in_pages (vm_pages s (p # ps) pgdir) a" for a
    using that by (intro new_table_outside) (auto simp: in_pages_def vm_pages_def)
  ultimately have "vm_frame s (p # ps) pgdir ?s' ps"
    using s1(3) by (auto simp: vm_frame_def managed_def fun_eq_iff)
  then show ?thesis using w pt pte_of_new_table [OF ok _ none, of p] by auto
qed

lemma walkpgdir_alloc:
  assumes ok: "pgdir_ok s ps pgdir"
  obtains "walkpgdir pgdir va True s = (None, s)" "ps = []"
  | t s' ps' where "walkpgdir pgdir va True s = (Some (t + 4 * PTX va), s')"
    "pt_of (k_mem s') pgdir va = Some t" "vm_frame s ps pgdir s' ps'"
    "pte_of (k_mem s') pgdir = pte_of (k_mem s) pgdir"
proof (cases "pt_of (k_mem s) pgdir va")
  case (Some t)
  then show ?thesis using that(2) walkpgdir_present vm_frame_refl [OF ok] by blast
next
  case None
  show ?thesis
  proof (cases ps)
    case Nil
    then have "kalloc s = (0, s)" using ok kpages.alloc_Nil by (auto simp: pgdir_ok_def)
    then have "walkpgdir pgdir va True s = (None, s)"
      using None by (simp add: walkpgdir_def pt_of_def Let_def split: if_splits)
    then show ?thesis using that(1) Nil by blast
  next
    case (Cons p ps')
    then show ?thesis using that(2) walkpgdir_new [of s p ps' pgdir va] ok None by blast
  qed
qed

lemma store_frame:
  assumes ok: "pgdir_ok s ps pgdir" and t: "pt_of (k_mem s) pgdir va = Some t"
  shows "vm_frame s ps pgdir (s\<lparr>k_mem := store32 (k_mem s) (t + 4 * PTX va) e\<rparr>) ps"
proof -
  have "store32 (k_mem s) (t + 4 * PTX va) e a = k_mem s a"
    if "\<not> in_pages (vm_pages s ps pgdir) a" for a
  proof (rule store32_page)
    have "t \<in> vm_pages s ps pgdir" using t by (auto simp: vm_pages_def ran_def)
    then show "\<not> unat (a - t) < 4096" using that by (auto simp: in_pages_def)
  qed (use unat_4_PTX [of va] in linarith)
  then show ?thesis
    using pgdir_ok_store [OF ok t]
    by (simp add: vm_frame_def vm_pages_def pt_of_store [OF ok t] managed_def fun_eq_iff)
qed

subsection \<open>mappages\<close>

lemma pte_of_pt: "pt_of m pgdir va = Some t \<Longrightarrow> load32 m (t + 4 * PTX va) = pte_of m pgdir va"
  by (simp add: pte_of_def)

definition in_range :: "uint \<Rightarrow> nat \<Rightarrow> uint \<Rightarrow> bool" where
  "in_range a n v \<longleftrightarrow> unat a \<le> unat v \<and> unat v < unat a + 4096 * Suc n"

lemma round_eq_iff:
  assumes "page_aligned a"
  shows "PGROUNDDOWN v = a \<longleftrightarrow> unat a \<le> unat v \<and> unat v < unat a + 4096"
proof -
  obtain k where k: "unat a = 4096 * k" using assms by (rule page_alignedE)
  have d: "unat v = 4096 * (unat v div 4096) + unat v mod 4096" by simp
  have "unat v mod 4096 < 4096" by simp
  then have "unat v div 4096 = k \<longleftrightarrow> 4096 * k \<le> unat v \<and> unat v < 4096 * k + 4096"
    using d by linarith
  then show ?thesis using k by (simp add: word_unat_eq_iff unat_PGROUNDDOWN)
qed

lemma in_range_Suc:
  assumes "page_aligned a" "unat a + 4096 * Suc n < 4294967296"
  shows "in_range a (Suc n) v \<longleftrightarrow> PGROUNDDOWN v = a \<or> in_range (a + PGSIZE) n v"
    and "\<not> (PGROUNDDOWN v = a \<and> in_range (a + PGSIZE) n v)"
  unfolding round_eq_iff [OF assms(1)] in_range_def
  using page_step(1) [OF assms(1)] assms(2) by auto

text \<open>The page a range maps to an address.\<close>

definition mapped_to :: "uint \<Rightarrow> uint \<Rightarrow> uint \<Rightarrow> uint \<Rightarrow> uint" where
  "mapped_to a pa perm v = ((pa + (PGROUNDDOWN v - a)) OR perm OR PTE_P)"

lemma mappages_loop_maps:
  assumes "pgdir_ok s ps pgdir" "page_aligned a" "unat a + 4096 * n < 4294967296"
    "\<And>v. in_range a n v \<Longrightarrow> pte_of (k_mem s) pgdir v AND PTE_P = 0"
  shows "\<exists>r s' ps'. mappages_loop n pgdir a pa perm s = Ok (r, s') \<and> vm_frame s ps pgdir s' ps' \<and>
    (\<forall>v. \<not> in_range a n v \<longrightarrow> pte_of (k_mem s') pgdir v = pte_of (k_mem s) pgdir v) \<and>
    (r = 0 \<and> (\<forall>v. in_range a n v \<longrightarrow> pte_of (k_mem s') pgdir v = mapped_to a pa perm v) \<or>
     r = - 1 \<and> ps' = [])"
  using assms
proof (induction n arbitrary: a pa s ps)
  case 0
  from "0.prems"(1) show ?case
  proof (cases rule: walkpgdir_alloc [of s ps pgdir a])
    case 1
    then show ?thesis
      using vm_frame_refl [OF "0.prems"(1)] by (subst mappages_loop.simps) auto
  next
    case (2 t s1 ps1)
    have ok1: "pgdir_ok s1 ps1 pgdir" using 2(3) by (simp add: vm_frame_def)
    let ?s2 = "s1\<lparr>k_mem := store32 (k_mem s1) (t + 4 * PTX a) (pa OR perm OR PTE_P)\<rparr>"
    have "in_range a 0 v \<longleftrightarrow> PGROUNDDOWN v = a" for v
      by (simp add: in_range_def round_eq_iff [OF "0.prems"(2)])
    moreover have "load32 (k_mem s1) (t + 4 * PTX a) AND PTE_P = 0"
      using "0.prems"(4) [of a] pte_of_pt [OF 2(2)] 2(4) by (simp add: in_range_def)
    moreover have "PGROUNDDOWN a = a" by (simp add: round_eq_iff [OF "0.prems"(2)])
    ultimately show ?thesis
      using 2(1,4) vm_frame_trans [OF 2(3) store_frame [OF ok1 2(2)]]
      by (subst mappages_loop.simps) (auto simp: Let_def pte_of_store [OF ok1 2(2)] mapped_to_def)
  qed
next
  case (Suc n)
  from Suc.prems(1) show ?case
  proof (cases rule: walkpgdir_alloc [of s ps pgdir a])
    case 1
    then show ?thesis
      using vm_frame_refl [OF Suc.prems(1)] by (subst mappages_loop.simps) auto
  next
    case (2 t s1 ps1)
    have ok1: "pgdir_ok s1 ps1 pgdir" using 2(3) by (simp add: vm_frame_def)
    let ?s2 = "s1\<lparr>k_mem := store32 (k_mem s1) (t + 4 * PTX a) (pa OR perm OR PTE_P)\<rparr>"
    note rng = in_range_Suc [OF Suc.prems(2,3)]
    have a0: "PGROUNDDOWN a = a" by (simp add: round_eq_iff [OF Suc.prems(2)])
    have al: "page_aligned (a + PGSIZE)" "unat (a + PGSIZE) = unat a + 4096"
      using page_step [OF Suc.prems(2)] Suc.prems(3) by auto
    have e2: "pte_of (k_mem ?s2) pgdir v =
        (if PGROUNDDOWN v = a then pa OR perm OR PTE_P else pte_of (k_mem s) pgdir v)" for v
      using 2(4) a0 by (simp add: pte_of_store [OF ok1 2(2)])
    have f2: "vm_frame s ps pgdir ?s2 ps1" by (rule vm_frame_trans [OF 2(3) store_frame [OF ok1 2(2)]])
    have "pgdir_ok ?s2 ps1 pgdir" using f2 by (simp add: vm_frame_def)
    moreover have "pte_of (k_mem ?s2) pgdir v AND PTE_P = 0" if "in_range (a + PGSIZE) n v" for v
      using Suc.prems(4) [of v] rng [of v] that unfolding e2 by auto
    ultimately obtain r s' ps' where IH: "mappages_loop n pgdir (a + PGSIZE) (pa + PGSIZE) perm ?s2 = Ok (r, s')"
      "vm_frame ?s2 ps1 pgdir s' ps'"
      "\<And>v. \<not> in_range (a + PGSIZE) n v \<Longrightarrow> pte_of (k_mem s') pgdir v = pte_of (k_mem ?s2) pgdir v"
      "r = 0 \<and> (\<forall>v. in_range (a + PGSIZE) n v \<longrightarrow>
          pte_of (k_mem s') pgdir v = mapped_to (a + PGSIZE) (pa + PGSIZE) perm v) \<or> r = - 1 \<and> ps' = []"
      using Suc.IH [of ?s2 ps1 "a + PGSIZE" "pa + PGSIZE"] al Suc.prems(3) by auto
    have shift: "mapped_to (a + PGSIZE) (pa + PGSIZE) perm v = mapped_to a pa perm v" for v
      by (simp add: mapped_to_def algebra_simps)
    have "load32 (k_mem s1) (t + 4 * PTX a) AND PTE_P = 0"
      using Suc.prems(4) [of a] pte_of_pt [OF 2(2)] 2(4) by (simp add: in_range_def)
    then have run: "mappages_loop (Suc n) pgdir a pa perm s = Ok (r, s')"
      using 2(1) IH(1) by (subst mappages_loop.simps) (simp add: Let_def)
    have out: "pte_of (k_mem s') pgdir v = pte_of (k_mem s) pgdir v" if "\<not> in_range a (Suc n) v" for v
      using IH(3) [of v] rng [of v] that e2 [of v] by auto
    have first: "pte_of (k_mem s') pgdir v = mapped_to a pa perm v" if "PGROUNDDOWN v = a" for v
      using IH(3) [of v] rng(2) [of v] that e2 [of v] by (auto simp: mapped_to_def)
    show ?thesis
      using run vm_frame_trans [OF f2 IH(2)] out first IH(4) rng unfolding shift by blast
  qed
qed

definition touched :: "uint \<Rightarrow> uint \<Rightarrow> uint \<Rightarrow> bool" where
  "touched va sz v \<longleftrightarrow>
     PGROUNDDOWN va \<le> PGROUNDDOWN v \<and> PGROUNDDOWN v \<le> PGROUNDDOWN (va + sz - 1)"

lemma touched_range:
  assumes "0 < sz" "unat va + unat sz \<le> 4294967296"
  defines "a \<equiv> PGROUNDDOWN va" and "n \<equiv> unat (PGROUNDDOWN (va + sz - 1) - PGROUNDDOWN va) div 4096"
  shows "touched va sz v \<longleftrightarrow> in_range a n v" "unat a + 4096 * n < 4294967296"
proof -
  let ?l = "PGROUNDDOWN (va + sz - 1)"
  have "unat (va + (sz - 1)) = unat va + (unat sz - 1)"
    using assms(1,2) unat_dec [of sz] unat_gt_0 [of sz] by (auto simp: unat_word_ariths)
  then have ge: "unat va \<le> unat (va + sz - 1)" by (simp add: add_diff_eq)
  obtain j k where jk: "unat a = 4096 * j" "unat ?l = 4096 * k"
    "j = unat va div 4096" "k = unat (va + sz - 1) div 4096"
    by (simp add: a_def unat_PGROUNDDOWN)
  then have "j \<le> k" using ge by (simp add: div_le_mono)
  then have "unat (?l - a) = 4096 * (k - j)"
    using jk(1,2) by (simp add: unat_sub word_le_nat_alt diff_mult_distrib2)
  then have n: "n = k - j" by (simp add: n_def a_def)
  show "unat a + 4096 * n < 4294967296"
    using jk(1,2) n \<open>j \<le> k\<close> unat_lt32 [of ?l] by simp
  have d: "unat v = 4096 * (unat v div 4096) + unat v mod 4096" "unat v mod 4096 < 4096" by simp_all
  have "touched va sz v \<longleftrightarrow> j \<le> unat v div 4096 \<and> unat v div 4096 \<le> k"
    using jk by (simp add: touched_def word_le_nat_alt unat_PGROUNDDOWN)
  also have "\<dots> \<longleftrightarrow> 4096 * j \<le> unat v \<and> unat v < 4096 * j + 4096 * Suc n"
    using d n \<open>j \<le> k\<close> by (intro conj_cong) (linarith, simp add: right_diff_distrib, linarith)
  finally show "touched va sz v \<longleftrightarrow> in_range a n v" using jk by (simp add: in_range_def)
qed

text \<open>A directory of zeroes beside one free page, for the examples.\<close>

definition vm_demo :: km where
  "vm_demo = \<lparr>k_end = 0x80115000, k_data = 0x80108000, k_mem = (\<lambda>_. 0),
     kmem_freelist = 0x80200000, kmem_use_lock = True\<rparr>"

lemma load32_zero [simp]: "load32 (\<lambda>_. 0) a = 0"
  by (simp add: load32_def)

lemma pt_of_zero [simp]: "pt_of (\<lambda>_. 0) pgdir = Map.empty"
  by (simp add: pt_of_def fun_eq_iff)

lemma pte_of_zero [simp]: "pte_of (\<lambda>_. 0) pgdir v = 0"
  by (simp add: pte_of_def)

lemma vm_demo_ok: "pgdir_ok vm_demo [0x80200000] 0x80201000"
  by (simp add: pgdir_ok_def tables_ok_def kmem_avail_def managed_def vm_demo_def page_aligned_def
      V2P_def)

text \<open>
  C3. \<open>mappages\<close> maps exactly the pages its range touches. On a well-formed directory in which no
  page of the range is present it does not panic; when it returns \<open>0\<close>, the entry of every
  address of the range is the corresponding physical page with the given permissions and the
  present bit, when it returns \<open>-1\<close> no page is left to allocate. In both cases no entry outside
  the range has changed, the directory is still well-formed, no page is lost, and no memory outside
  the directory, its tables and the free pages has been written.
\<close>

theorem mappages_maps:
  assumes "pgdir_ok s ps pgdir" "0 < sz" "unat va + unat sz \<le> 4294967296"
    "\<And>v. touched va sz v \<Longrightarrow> pte_of (k_mem s) pgdir v AND PTE_P = 0"
  shows "\<exists>r s' ps'. mappages pgdir va sz pa perm s = Ok (r, s') \<and> vm_frame s ps pgdir s' ps' \<and>
    (\<forall>v. \<not> touched va sz v \<longrightarrow> pte_of (k_mem s') pgdir v = pte_of (k_mem s) pgdir v) \<and>
    (r = 0 \<and> (\<forall>v. touched va sz v \<longrightarrow> pte_of (k_mem s') pgdir v =
        ((pa + (PGROUNDDOWN v - PGROUNDDOWN va)) OR perm OR PTE_P)) \<or>
     r = - 1 \<and> ps' = [])"
  using mappages_loop_maps [OF assms(1) page_aligned_PGROUNDDOWN touched_range(2) [OF assms(2,3)]]
    assms(4) unfolding touched_range(1) [OF assms(2,3)] mappages_def Let_def mapped_to_def by blast

theorem mappages_maps_witness:
  "\<exists>r s' ps'. mappages 0x80201000 0x1000 0x2000 0x300000 6 vm_demo = Ok (r, s') \<and>
    vm_frame vm_demo [0x80200000] 0x80201000 s' ps' \<and>
    (\<forall>v. \<not> touched 0x1000 0x2000 v \<longrightarrow>
      pte_of (k_mem s') 0x80201000 v = pte_of (k_mem vm_demo) 0x80201000 v) \<and>
    (r = 0 \<and> (\<forall>v. touched 0x1000 0x2000 v \<longrightarrow> pte_of (k_mem s') 0x80201000 v =
        ((0x300000 + (PGROUNDDOWN v - PGROUNDDOWN 0x1000)) OR 6 OR PTE_P)) \<or>
     r = - 1 \<and> ps' = [])"
  by (rule mappages_maps [OF vm_demo_ok]) (simp_all add: vm_demo_def)

subsection \<open>User memory: uva2ka and copyout\<close>

text \<open>
  A user address is one whose entry is present and user-accessible; \<open>uframe\<close> is its page as the
  kernel addresses it, \<open>ubyte\<close> the address of its byte. In \<open>upages_ok\<close> the user pages are
  separate from each other and from the page tables.
\<close>

definition user_addr :: "mem \<Rightarrow> uint \<Rightarrow> uint \<Rightarrow> bool" where
  "user_addr m pgdir v \<longleftrightarrow> pte_of m pgdir v AND PTE_P \<noteq> 0 \<and> pte_of m pgdir v AND PTE_U \<noteq> 0"

definition uframe :: "mem \<Rightarrow> uint \<Rightarrow> uint \<Rightarrow> uint" where
  "uframe m pgdir v = P2V (PTE_ADDR (pte_of m pgdir v))"

definition ubyte :: "mem \<Rightarrow> uint \<Rightarrow> uint \<Rightarrow> uint" where
  "ubyte m pgdir v = uframe m pgdir v + (v - PGROUNDDOWN v)"

definition upages_ok :: "mem \<Rightarrow> uint \<Rightarrow> bool" where
  "upages_ok m pgdir \<longleftrightarrow> page_aligned pgdir \<and> (\<forall>v. user_addr m pgdir v \<longrightarrow>
     uframe m pgdir v \<noteq> 0 \<and> uframe m pgdir v \<noteq> pgdir \<and> uframe m pgdir v \<notin> ran (pt_of m pgdir) \<and>
     (\<forall>v'. user_addr m pgdir v' \<longrightarrow> uframe m pgdir v' = uframe m pgdir v \<longrightarrow>
       PGROUNDDOWN v' = PGROUNDDOWN v))"

lemma write_bytes_eq:
  "length bs \<le> 4294967296 \<Longrightarrow>
   write_bytes m a bs = (\<lambda>x. if unat (x - a) < length bs then bs ! unat (x - a) else m x)"
proof (induction bs arbitrary: m a)
  case (Cons b bs)
  then have n: "length bs < 4294967296" by simp
  have IH: "write_bytes m' (a + 1) bs x =
      (if unat (x - (a + 1)) < length bs then bs ! unat (x - (a + 1)) else m' x)" for m' x
    using Cons by simp
  show ?case
  proof
    fix x
    have "(- 1 :: uint) = 4294967295" by simp
    then have "unat (- 1 :: uint) = 4294967295" by (simp only: unat_numeral) simp
    then have "\<not> unat (a - (a + 1)) < length bs" using n by simp
    moreover have "unat (x - a) = Suc (unat (x - (a + 1)))" if "x \<noteq> a"
      using that unat_dec [of "x - a"] unat_gt_0 [of "x - a"] by (simp add: diff_diff_eq [symmetric])
    ultimately show "write_bytes m a (b # bs) x =
        (if unat (x - a) < length (b # bs) then (b # bs) ! unat (x - a) else m x)"
      by (cases "x = a") (simp_all only: write_bytes.simps IH, simp_all)
  qed
qed simp

lemma uframe_aligned [simp]: "page_aligned (uframe m pgdir v)"
  by (simp add: uframe_def page_aligned_P2V)

lemma upages_okD:
  assumes "upages_ok m pgdir" "user_addr m pgdir v"
  shows "uframe m pgdir v \<noteq> 0" "uframe m pgdir v \<noteq> pgdir" "pt_of m pgdir x \<noteq> Some (uframe m pgdir v)"
    "user_addr m pgdir v' \<Longrightarrow> uframe m pgdir v' = uframe m pgdir v \<Longrightarrow> PGROUNDDOWN v' = PGROUNDDOWN v"
  using assms unfolding upages_ok_def ran_def by blast+

lemma page_offset:
  fixes v :: uint
  shows "unat (v - PGROUNDDOWN v) = unat v mod 4096" "unat (v - PGROUNDDOWN v) < 4096"
proof -
  have "PGROUNDDOWN v \<le> v" by (simp add: word_le_nat_alt unat_PGROUNDDOWN)
  then show "unat (v - PGROUNDDOWN v) = unat v mod 4096"
    by (simp add: unat_sub unat_PGROUNDDOWN minus_div_mult_eq_mod)
  then show "unat (v - PGROUNDDOWN v) < 4096" by simp
qed

lemma pte_of_round [simp]: "pte_of m pgdir (PGROUNDDOWN v) = pte_of m pgdir v"
proof -
  have "PGROUNDDOWN (PGROUNDDOWN v) = PGROUNDDOWN v"
    by (simp add: word_unat_eq_iff unat_PGROUNDDOWN)
  then have "PDX (PGROUNDDOWN v) = PDX v" "PTX (PGROUNDDOWN v) = PTX v"
    using PDX_PTX_eq [of "PGROUNDDOWN v" v] by auto
  then show ?thesis by (simp only: pte_of_def pt_of_def)
qed

lemma uva2ka_user: "user_addr (k_mem s) pgdir v \<Longrightarrow> uva2ka pgdir v s = Ok (uframe (k_mem s) pgdir v)"
  by (auto simp: uva2ka_def walkpgdir_lookup user_addr_def uframe_def pte_of_def Let_def
      split: option.splits)

lemma uva2ka_Ok:
  assumes "uva2ka pgdir v s = Ok p" "p \<noteq> 0"
  shows "user_addr (k_mem s) pgdir v" "p = uframe (k_mem s) pgdir v"
  using assms
  by (auto simp: uva2ka_def walkpgdir_lookup user_addr_def uframe_def pte_of_def Let_def
      split: option.splits if_splits)

text \<open>Writing inside a user page leaves the page tables as they are.\<close>

lemma user_write_tables:
  assumes ok: "upages_ok m pgdir" and u: "user_addr m pgdir v"
    and out: "\<And>a. \<not> unat (a - uframe m pgdir v) < 4096 \<Longrightarrow> m' a = m a"
  shows "pt_of m' pgdir = pt_of m pgdir" "pte_of m' pgdir = pte_of m pgdir"
proof -
  let ?f = "uframe m pgdir v"
  have "load32 m' (pgdir + 4 * PDX x) = load32 m (pgdir + 4 * PDX x)" for x
    using upages_okD(2) [OF ok u] ok outside_page [of pgdir ?f]
    by (intro load_entry_cong(1) out) (auto simp: upages_ok_def)
  then show pt: "pt_of m' pgdir = pt_of m pgdir" by (simp add: pt_of_def fun_eq_iff)
  have "load32 m' (t + 4 * PTX x) = load32 m (t + 4 * PTX x)" if t: "pt_of m pgdir x = Some t" for x t
    using upages_okD(3) [OF ok u, of x] t pt_of_aligned [OF t] outside_page [of t ?f]
    by (intro load_entry_cong(2) out) auto
  then show "pte_of m' pgdir = pte_of m pgdir"
    by (auto simp: pte_of_def pt fun_eq_iff split: option.split)
qed

lemma same_tables:
  assumes "pt_of m' pgdir = pt_of m pgdir" "pte_of m' pgdir = pte_of m pgdir"
  shows "user_addr m' pgdir = user_addr m pgdir" "uframe m' pgdir = uframe m pgdir"
    "ubyte m' pgdir = ubyte m pgdir" "upages_ok m' pgdir = upages_ok m pgdir"
proof -
  show u: "user_addr m' pgdir = user_addr m pgdir" and f: "uframe m' pgdir = uframe m pgdir"
    by (simp_all add: user_addr_def uframe_def assms(2) fun_eq_iff)
  show "ubyte m' pgdir = ubyte m pgdir" "upages_ok m' pgdir = upages_ok m pgdir"
    by (rule ext) (simp_all only: ubyte_def upages_ok_def u f assms(1))
qed

definition written :: "uint \<Rightarrow> uchar list \<Rightarrow> (uint \<Rightarrow> uchar) \<Rightarrow> uint \<Rightarrow> uchar" where
  "written va buf old v =
     (if unat va \<le> unat v \<and> unat v < unat va + length buf then buf ! (unat v - unat va) else old v)"

text \<open>One chunk: \<open>bs\<close> does not leave the page of \<open>va\<close>.\<close>

lemma user_chunk:
  assumes ok: "upages_ok m pgdir" and u: "user_addr m pgdir va"
    and len: "length bs + unat va mod 4096 \<le> 4096"
  defines "m' \<equiv> write_bytes m (uframe m pgdir va + (va - PGROUNDDOWN va)) bs"
  shows "\<And>a. \<not> unat (a - uframe m pgdir va) < 4096 \<Longrightarrow> m' a = m a"
    and "user_addr m pgdir v \<Longrightarrow>
      m' (ubyte m pgdir v) = written va bs (\<lambda>v. m (ubyte m pgdir v)) v"
proof -
  let ?f = "uframe m pgdir va" and ?off = "va - PGROUNDDOWN va"
  have m': "m' x = (if unat (x - (?f + ?off)) < length bs then bs ! unat (x - (?f + ?off)) else m x)"
    for x using len by (simp add: m'_def write_bytes_eq)
  have inside: "unat (x - ?f) = unat ?off + unat (x - (?f + ?off))"
    if "unat (x - (?f + ?off)) < length bs" for x
  proof -
    have "x - ?f = ?off + (x - (?f + ?off))" by simp
    moreover have "unat ?off + unat (x - (?f + ?off)) < 4294967296"
      using that len page_offset [of va] by simp
    ultimately show ?thesis by (simp only: unat_word_ariths) simp
  qed
  show out: "m' a = m a" if "\<not> unat (a - ?f) < 4096" for a
    using inside [of a] that len page_offset(1) [of va] by (auto simp: m')
  assume v: "user_addr m pgdir v"
  let ?off' = "v - PGROUNDDOWN v" and ?x = "ubyte m pgdir v"
  show "m' ?x = written va bs (\<lambda>v. m (ubyte m pgdir v)) v"
  proof (cases "PGROUNDDOWN v = PGROUNDDOWN va")
    case True
    then have f: "uframe m pgdir v = ?f"
      using pte_of_round [of m pgdir v] pte_of_round [of m pgdir va] by (simp add: uframe_def)
    then have x: "?x - ?f = ?off'" by (simp add: ubyte_def)
    have same: "unat va div 4096 = unat v div 4096"
      using True by (simp add: word_unat_eq_iff unat_PGROUNDDOWN)
    have "unat va = 4096 * (unat va div 4096) + unat va mod 4096" by simp
    moreover have "unat v = 4096 * (unat va div 4096) + unat v mod 4096" unfolding same by simp
    ultimately have d: "unat va = 4096 * (unat va div 4096) + unat va mod 4096"
      "unat v = 4096 * (unat va div 4096) + unat v mod 4096" .
    show ?thesis
    proof (cases "unat va \<le> unat v \<and> unat v < unat va + length bs")
      case True
      then have le: "unat va mod 4096 \<le> unat v mod 4096" using d by linarith
      have "?x - (?f + ?off) = ?off' - ?off" using f by (simp add: ubyte_def)
      moreover have "unat (?off' - ?off) = unat v mod 4096 - unat va mod 4096"
        using le by (simp add: unat_sub word_le_nat_alt page_offset)
      ultimately have "unat (?x - (?f + ?off)) = unat v mod 4096 - unat va mod 4096"
        by (simp only:)
      then have "unat (?x - (?f + ?off)) = unat v - unat va" using d by linarith
      moreover have "unat v - unat va < length bs" using True by linarith
      ultimately show ?thesis using True by (simp add: m' written_def)
    next
      case False
      then have "\<not> unat (?x - (?f + ?off)) < length bs"
        using inside [of ?x] x d page_offset(1) [of v] page_offset(1) [of va] by auto
      then show ?thesis unfolding m' written_def using False by auto
    qed
  next
    case False
    then have "uframe m pgdir v \<noteq> ?f" using upages_okD(4) [OF ok u v] by blast
    moreover have "unat (?x - uframe m pgdir v) < 4096"
      using page_offset(2) [of v] by (simp add: ubyte_def)
    ultimately have "m' ?x = m ?x"
      using outside_page [of "uframe m pgdir v" ?f ?x] by (intro out) simp
    moreover have "\<not> (unat va \<le> unat v \<and> unat v < unat va + length bs)"
    proof
      assume c: "unat va \<le> unat v \<and> unat v < unat va + length bs"
      have "unat va = 4096 * (unat va div 4096) + unat va mod 4096" by simp
      with c len have "PGROUNDDOWN v = PGROUNDDOWN va"
        unfolding round_eq_iff [OF page_aligned_PGROUNDDOWN] unat_PGROUNDDOWN by linarith
      with False show False ..
    qed
    ultimately show ?thesis unfolding written_def by (simp only: if_False)
  qed
qed

lemma unat_plus_of_nat:
  "unat (a :: uint) + k < 4294967296 \<Longrightarrow> unat (a + of_nat k) = unat a + k"
  by (simp add: unat_word_ariths unat_of_nat)

lemma written_append:
  assumes "unat va' = unat va + length bs"
  shows "written va' cs (written va bs old) v = written va (bs @ cs) old v"
  using assms by (auto simp: written_def nth_append)

lemma copyout_writes_lemma:
  assumes "upages_ok (k_mem s) pgdir" "unat va + length buf \<le> 4294967296"
    "\<And>i. i < length buf \<Longrightarrow> user_addr (k_mem s) pgdir (va + of_nat i)"
  shows "\<exists>s'. copyout pgdir va buf s = Ok (0, s') \<and> pt_of (k_mem s') pgdir = pt_of (k_mem s) pgdir \<and>
    pte_of (k_mem s') pgdir = pte_of (k_mem s) pgdir \<and>
    (\<forall>v. user_addr (k_mem s) pgdir v \<longrightarrow> k_mem s' (ubyte (k_mem s) pgdir v) =
      written va buf (\<lambda>v. k_mem s (ubyte (k_mem s) pgdir v)) v) \<and>
    (\<forall>a. \<not> in_pages {uframe (k_mem s) pgdir v |v. user_addr (k_mem s) pgdir v} a \<longrightarrow>
      k_mem s' a = k_mem s a)"
  using assms
proof (induction "length buf" arbitrary: va buf s rule: less_induct)
  case less
  let ?m = "k_mem s"
  show ?case
  proof (cases "buf = []")
    case True
    then show ?thesis by (subst copyout.simps) (auto simp: written_def)
  next
    case False
    let ?va0 = "PGROUNDDOWN va"
    let ?n = "min (unat (PGSIZE - (va - ?va0))) (length buf)"
    let ?m1 = "write_bytes ?m (uframe ?m pgdir va + (va - ?va0)) (take ?n buf)"
    let ?s1 = "s\<lparr>k_mem := ?m1\<rparr>"
    have u: "user_addr ?m pgdir va" using less.prems(3) [of 0] False by simp
    then have "user_addr ?m pgdir ?va0" by (simp add: user_addr_def)
    then have uv: "uva2ka pgdir ?va0 s = Ok (uframe ?m pgdir va)"
      by (simp add: uva2ka_user uframe_def)
    have chunk: "unat (PGSIZE - (va - ?va0)) = 4096 - unat va mod 4096"
      using page_offset [of va] by (simp add: unat_sub word_le_nat_alt)
    then have n: "0 < ?n" "?n + unat va mod 4096 \<le> 4096" "length (take ?n buf) = ?n"
      using False by (auto simp: min_def)
    note c = user_chunk [OF less.prems(1) u, of "take ?n buf"]
    have len: "length (take ?n buf) + unat va mod 4096 \<le> 4096" using n by simp
    have st: "pt_of ?m1 pgdir = pt_of ?m pgdir" "pte_of ?m1 pgdir = pte_of ?m pgdir"
      by (rule user_write_tables [OF less.prems(1) u]; erule c(1) [OF len])+
    note same = same_tables [OF st]
    have run: "copyout pgdir va buf s = copyout pgdir (?va0 + PGSIZE) (drop ?n buf) ?s1"
      using uv upages_okD(1) [OF less.prems(1) u] False by (subst copyout.simps) (simp add: Let_def)
    show ?thesis
    proof (cases "drop ?n buf = []")
      case True
      then have b: "take ?n buf = buf" by (metis append_Nil2 append_take_drop_id)
      have "copyout pgdir va buf s = Ok (0, ?s1)"
        unfolding run using True by (subst copyout.simps) simp
      then show ?thesis using st c [OF len] u unfolding b by (auto simp: in_pages_def)
    next
      case False
      then have nb: "?n < length buf" "?n = 4096 - unat va mod 4096" using chunk by (auto simp: min_def split: if_splits)
      have "unat va mod 4096 \<le> 4096" "unat va = 4096 * (unat va div 4096) + unat va mod 4096"
        by simp_all
      then have next_va: "unat ?va0 + 4096 = unat va + ?n"
        unfolding nb(2) unat_PGROUNDDOWN by linarith
      have va1: "unat (?va0 + PGSIZE) = unat va + ?n"
        using next_va nb(1) less.prems(2) by (simp add: unat_word_ariths)
      have step: "?va0 + PGSIZE + of_nat i = va + of_nat (?n + i)" for i
      proof -
        have "?va0 + PGSIZE = va + of_nat ?n"
          unfolding word_unat_eq_iff va1
          using nb(1) less.prems(2) by (intro unat_plus_of_nat [symmetric]) linarith
        then show ?thesis by (simp add: add.assoc)
      qed
      have k1: "k_mem ?s1 = ?m1" by simp
      have us: "user_addr (k_mem ?s1) pgdir (?va0 + PGSIZE + of_nat i)" if "i < length (drop ?n buf)" for i
      proof -
        have "?n + i < length buf" using that nb(1) unfolding length_drop by linarith
        from less.prems(3) [OF this] show ?thesis unfolding k1 same(1) step .
      qed
      have up: "upages_ok (k_mem ?s1) pgdir" unfolding k1 same(4) by (rule less.prems(1))
      have "length (drop ?n buf) < length buf" "unat (?va0 + PGSIZE) + length (drop ?n buf) \<le> 4294967296"
        using va1 n(1) nb(1) less.prems(2) unfolding length_drop by linarith+
      from less.hyps [OF this(1) up this(2) us] obtain s' where s': "copyout pgdir (?va0 + PGSIZE) (drop ?n buf) ?s1 = Ok (0, s')"
        "pt_of (k_mem s') pgdir = pt_of ?m pgdir" "pte_of (k_mem s') pgdir = pte_of ?m pgdir"
        "\<And>v. user_addr ?m pgdir v \<Longrightarrow> k_mem s' (ubyte ?m pgdir v) =
          written (?va0 + PGSIZE) (drop ?n buf) (\<lambda>v. ?m1 (ubyte ?m pgdir v)) v"
        "\<And>a. \<not> in_pages {uframe ?m pgdir v |v. user_addr ?m pgdir v} a \<Longrightarrow> k_mem s' a = ?m1 a"
        unfolding k1 same st by blast
      have "k_mem s' (ubyte ?m pgdir v) = written va buf (\<lambda>v. ?m (ubyte ?m pgdir v)) v"
        if v: "user_addr ?m pgdir v" for v
      proof -
        have "k_mem s' (ubyte ?m pgdir v) = written (?va0 + PGSIZE) (drop ?n buf)
            (written va (take ?n buf) (\<lambda>v. ?m (ubyte ?m pgdir v))) v"
          using s'(4) [OF v] c(2) [OF len v] by (simp add: written_def)
        then show ?thesis using va1 n(3) by (simp add: written_append)
      qed
      moreover have "k_mem s' a = ?m a"
        if "\<not> in_pages {uframe ?m pgdir v |v. user_addr ?m pgdir v} a" for a
        using s'(5) [OF that] c(1) [OF len, of a] that u by (auto simp: in_pages_def)
      ultimately show ?thesis using s'(1-3) unfolding run by blast
    qed
  qed
qed

text \<open>
  C4. \<open>copyout\<close> writes the user buffer and nothing else. When the user pages are separate and every
  address of the range is user-accessible, it returns \<open>0\<close>, each byte of the range then holds
  the byte of the buffer, every other user byte is unchanged, and so are the page tables and all
  memory outside the user pages.
\<close>

theorem copyout_writes:
  assumes "upages_ok (k_mem s) pgdir" "unat va + length buf \<le> 4294967296"
    "\<And>i. i < length buf \<Longrightarrow> user_addr (k_mem s) pgdir (va + of_nat i)"
  shows "\<exists>s'. copyout pgdir va buf s = Ok (0, s') \<and> pte_of (k_mem s') pgdir = pte_of (k_mem s) pgdir \<and>
    (\<forall>v. user_addr (k_mem s) pgdir v \<longrightarrow> k_mem s' (ubyte (k_mem s) pgdir v) =
      (if unat va \<le> unat v \<and> unat v < unat va + length buf then buf ! (unat v - unat va)
       else k_mem s (ubyte (k_mem s) pgdir v))) \<and>
    (\<forall>a. \<not> in_pages {uframe (k_mem s) pgdir v |v. user_addr (k_mem s) pgdir v} a \<longrightarrow>
      k_mem s' a = k_mem s a)"
  using copyout_writes_lemma [OF assms] unfolding written_def by blast

text \<open>One user page at address 0, for the example: its table entry is present, writable and user.\<close>

definition uvm_demo :: km where
  "uvm_demo = vm_demo\<lparr>k_mem := store32 (new_table (\<lambda>_. 0) 0x80201000 0 0x80200000)
     0x80200000 0x00300007\<rparr>"

lemma uvm_demo_tables:
  "pt_of (k_mem uvm_demo) 0x80201000 v = (if PDX v = 0 then Some 0x80200000 else None)"
  "pte_of (k_mem uvm_demo) 0x80201000 v = (if PGROUNDDOWN v = 0 then 0x00300007 else 0)"
proof -
  let ?s = "vm_demo\<lparr>k_mem := new_table (\<lambda>_. 0) 0x80201000 0 0x80200000, kmem_freelist := 0\<rparr>"
  have al: "page_aligned 0x80201000" "page_aligned 0x80200000" "(0x80200000 :: uint) \<noteq> 0x80201000"
    by (simp_all add: page_aligned_def)
  have z: "PDX 0 = 0" "PTX 0 = 0" "PGROUNDDOWN 0 = 0" by (simp_all add: PDX_def PTX_def PGROUNDDOWN_def)
  have pt: "pt_of (k_mem ?s) 0x80201000 = (\<lambda>v. if PDX v = 0 then Some 0x80200000 else None)"
    by (rule ext) (simp add: pt_of_new_table [OF al] z)
  have t: "pt_of (k_mem ?s) 0x80201000 0 = Some 0x80200000" unfolding pt by (simp add: z)
  have ok: "pgdir_ok ?s [] 0x80201000"
    unfolding pgdir_ok_def pt by (auto simp: tables_ok_def kmem_avail_def page_aligned_def split: if_splits)
  have none: "pt_of (k_mem vm_demo) 0x80201000 0 = None" by (simp add: vm_demo_def)
  have "pte_of (k_mem ?s) 0x80201000 v = 0"
    using pte_of_new_table [OF vm_demo_ok _ none] by (simp add: vm_demo_def)
  then show "pte_of (k_mem uvm_demo) 0x80201000 v = (if PGROUNDDOWN v = 0 then 0x00300007 else 0)"
    using pte_of_store [OF ok t, where e = "0x00300007"] by (simp add: uvm_demo_def z)
  show "pt_of (k_mem uvm_demo) 0x80201000 v = (if PDX v = 0 then Some 0x80200000 else None)"
    using pt_of_store [OF ok t, where e = "0x00300007"] pt by (simp add: uvm_demo_def z)
qed

theorem copyout_writes_witness:
  "\<exists>s'. copyout 0x80201000 5 [7, 8] uvm_demo = Ok (0, s') \<and>
    pte_of (k_mem s') 0x80201000 = pte_of (k_mem uvm_demo) 0x80201000 \<and>
    (\<forall>v. user_addr (k_mem uvm_demo) 0x80201000 v \<longrightarrow> k_mem s' (ubyte (k_mem uvm_demo) 0x80201000 v) =
      (if unat (5 :: uint) \<le> unat v \<and> unat v < unat (5 :: uint) + length [7, 8 :: uchar]
       then [7, 8] ! (unat v - unat (5 :: uint)) else k_mem uvm_demo (ubyte (k_mem uvm_demo) 0x80201000 v))) \<and>
    (\<forall>a. \<not> in_pages {uframe (k_mem uvm_demo) 0x80201000 v |v. user_addr (k_mem uvm_demo) 0x80201000 v} a \<longrightarrow>
      k_mem s' a = k_mem uvm_demo a)"
proof (rule copyout_writes)
  have "PTE_ADDR 0x00300007 = 0x00300000" by (simp add: PTE_ADDR_def)
  then show "upages_ok (k_mem uvm_demo) 0x80201000"
    by (auto simp: upages_ok_def page_aligned_def user_addr_def uframe_def uvm_demo_tables ran_def P2V_def
        split: if_splits)
  show "user_addr (k_mem uvm_demo) 0x80201000 (5 + of_nat i)" if "i < length [7, 8 :: uchar]" for i
  proof -
    have "i = 0 \<or> i = 1" using that by auto
    then show ?thesis
      by (auto simp: user_addr_def uvm_demo_tables PGROUNDDOWN_def)
  qed
qed simp

end
