(* ===== verification/CString.thy ===== *)
theory CString
  imports Memory
begin

section \<open>C strings: string.c and ulib.c\<close>

text \<open>
  A character array is a list of bytes, and reading past the end of the list gives NUL, so that a
  list stands for itself followed by a terminator. The functions that write return the bytes of the
  destination afterwards; \<open>strncpy_w\<close> and \<open>safestrcpy_w\<close> are the bytes written, one
  iteration of the source loop per step. \<open>cstr\<close> is the string a buffer holds.
\<close>

text \<open>A string literal as bytes.\<close>

definition str :: "string \<Rightarrow> uchar list" where
  "str cs = map of_char cs"

definition hd0 :: "uchar list \<Rightarrow> uchar" where
  "hd0 xs = (case xs of [] \<Rightarrow> 0 | x # _ \<Rightarrow> x)"

definition cstr :: "uchar list \<Rightarrow> uchar list" where
  "cstr xs = takeWhile (\<lambda>c. c \<noteq> 0) xs"

subsection \<open>The kernel's string.c\<close>

fun strncmp :: "uchar list \<Rightarrow> uchar list \<Rightarrow> nat \<Rightarrow> int" where
  "strncmp p q 0 = 0"
| "strncmp p q (Suc n) =
     (if hd0 p \<noteq> 0 \<and> hd0 p = hd0 q then strncmp (tl p) (tl q) n
      else uint (hd0 p) - uint (hd0 q))"

fun strncpy_w :: "uchar list \<Rightarrow> nat \<Rightarrow> uchar list" where
  "strncpy_w t 0 = []"
| "strncpy_w t (Suc n) =
     (if hd0 t \<noteq> 0 then hd0 t # strncpy_w (tl t) n else replicate (Suc n) 0)"

definition strncpy :: "uchar list \<Rightarrow> uchar list \<Rightarrow> int \<Rightarrow> uchar list" where
  "strncpy s t n = (let w = strncpy_w t (nat n) in w @ drop (length w) s)"

fun safestrcpy_w :: "uchar list \<Rightarrow> nat \<Rightarrow> uchar list" where
  "safestrcpy_w t 0 = []"
| "safestrcpy_w t (Suc 0) = [0]"
| "safestrcpy_w t (Suc (Suc n)) =
     (if hd0 t \<noteq> 0 then hd0 t # safestrcpy_w (tl t) (Suc n) else [0, 0])"

definition safestrcpy :: "uchar list \<Rightarrow> uchar list \<Rightarrow> int \<Rightarrow> uchar list" where
  "safestrcpy s t n =
     (if n \<le> 0 then s else let w = safestrcpy_w t (nat n) in w @ drop (length w) s)"

fun strlen :: "uchar list \<Rightarrow> nat" where
  "strlen [] = 0"
| "strlen (c # s) = (if c \<noteq> 0 then Suc (strlen s) else 0)"

subsection \<open>The users' ulib.c\<close>

function strcmp :: "uchar list \<Rightarrow> uchar list \<Rightarrow> int" where
  "strcmp p q =
     (if hd0 p \<noteq> 0 \<and> hd0 p = hd0 q then strcmp (tl p) (tl q)
      else uint (hd0 p) - uint (hd0 q))"
  by pat_completeness auto
termination
  by (relation "measure (\<lambda>(p, q). length p)") (auto simp: hd0_def split: list.splits)

declare strcmp.simps [simp del]

fun strcpy_w :: "uchar list \<Rightarrow> uchar list" where
  "strcpy_w [] = [0]"
| "strcpy_w (c # t) = (if c \<noteq> 0 then c # strcpy_w t else [0])"

definition strcpy :: "uchar list \<Rightarrow> uchar list \<Rightarrow> uchar list" where
  "strcpy s t = (let w = strcpy_w t in w @ drop (length w) s)"

text \<open>\<open>strchr\<close> returns the offset of the first occurrence, \<open>None\<close> for the null pointer.\<close>

fun strchr :: "uchar list \<Rightarrow> uchar \<Rightarrow> nat option" where
  "strchr [] c = None"
| "strchr (d # s) c =
     (if d = 0 then None else if d = c then Some 0 else map_option Suc (strchr s c))"

text \<open>\<open>atoi\<close> keeps the 32 bits of its result: the source does not guard against overflow.\<close>

fun atoi_loop :: "uint \<Rightarrow> uchar list \<Rightarrow> uint" where
  "atoi_loop n [] = n"
| "atoi_loop n (c # s) =
     (if 48 \<le> c \<and> c \<le> 57 then atoi_loop (n * 10 + ucast c - 48) s else n)"

definition atoi :: "uchar list \<Rightarrow> uint" where
  "atoi s = atoi_loop 0 s"

text \<open>
  \<open>gets\<close> reads one byte per call of \<^verbatim>\<open>read(0, &c, 1)\<close> from the bytes still to come; an empty
  input is the end of the file. \<open>n\<close> is \<^verbatim>\<open>max - 1 - i\<close>, the room left before the terminator.
\<close>

fun gets_loop :: "nat \<Rightarrow> uchar list \<Rightarrow> uchar list \<times> uchar list" where
  "gets_loop 0 inp = ([], inp)"
| "gets_loop (Suc n) [] = ([], [])"
| "gets_loop (Suc n) (c # inp) =
     (if c = 10 \<or> c = 13 then ([c], inp)
      else let (b, r) = gets_loop n inp in (c # b, r))"

definition gets :: "int \<Rightarrow> uchar list \<Rightarrow> uchar list \<times> uchar list" where
  "gets mx inp = (let (b, r) = gets_loop (nat (mx - 1)) inp in (b @ [0], r))"

definition umemset :: "mem \<Rightarrow> uint \<Rightarrow> uchar \<Rightarrow> uint \<Rightarrow> mem" where
  "umemset m dst c n = stosb m dst c (unat n)"

definition umemmove :: "mem \<Rightarrow> uint \<Rightarrow> uint \<Rightarrow> int \<Rightarrow> mem" where
  "umemmove m vdst vsrc n = copy_up m vdst vsrc (nat n)"

subsection \<open>What they compute\<close>

lemma cstr_simps [simp]:
  "cstr [] = []" "cstr (c # s) = (if c \<noteq> 0 then c # cstr s else [])"
  by (simp_all add: cstr_def)

lemma hd0_simps [simp]: "hd0 [] = 0" "hd0 (c # s) = c"
  by (simp_all add: hd0_def)

lemma cstr_hd0: "cstr t = (if hd0 t = 0 then [] else hd0 t # cstr (tl t))"
  by (cases t) auto

lemma strlen_cstr: "strlen s = length (cstr s)"
  by (induction s) auto

lemma cstr_nonzero: "0 \<notin> set (cstr s)"
  by (auto simp: cstr_def dest: set_takeWhileD)

lemma strncmp_zero_iff: "strncmp p q n = 0 \<longleftrightarrow> take n (cstr p) = take n (cstr q)"
proof (induction n arbitrary: p q)
  case (Suc n)
  have "take (Suc n) (cstr p) = take (Suc n) (cstr q) \<longleftrightarrow>
    hd0 p = hd0 q \<and> (hd0 p \<noteq> 0 \<longrightarrow> take n (cstr (tl p)) = take n (cstr (tl q)))"
    by (subst (1 2) cstr_hd0) auto
  then show ?case using Suc.IH by (auto simp: word_uint_eq_iff)
qed simp

lemma strcmp_zero_iff: "strcmp p q = 0 \<longleftrightarrow> cstr p = cstr q"
proof (induction p q rule: strcmp.induct)
  case (1 p q)
  have "cstr p = cstr q \<longleftrightarrow> hd0 p = hd0 q \<and> (hd0 p \<noteq> 0 \<longrightarrow> cstr (tl p) = cstr (tl q))"
    by (subst (1 2) cstr_hd0) auto
  then show ?case using 1 by (subst strcmp.simps) (auto simp: word_uint_eq_iff)
qed

lemma strncpy_w_eq: "strncpy_w t n = take n (cstr t) @ replicate (n - length (cstr t)) 0"
proof (induction t n rule: strncpy_w.induct)
  case (2 t n)
  then show ?case by (cases "hd0 t = 0") (simp_all add: cstr_hd0 [of t])
qed simp

lemma length_strncpy_w [simp]: "length (strncpy_w t n) = n"
  by (simp add: strncpy_w_eq)

lemma safestrcpy_w_prefix:
  "0 < n \<Longrightarrow> \<exists>z. safestrcpy_w t n = take (n - 1) (cstr t) @ 0 # z \<and>
     length (safestrcpy_w t n) \<le> n"
proof (induction t n rule: safestrcpy_w.induct)
  case (3 t n)
  then show ?case by (cases "hd0 t = 0") (auto simp: cstr_hd0 [of t])
qed auto

lemma cstr_append_zero: "0 \<notin> set xs \<Longrightarrow> cstr (xs @ 0 # ys) = xs"
  by (induction xs) auto

lemma safestrcpy_string:
  assumes "0 < n"
  shows "cstr (safestrcpy s t n) = take (nat n - 1) (cstr t)"
proof -
  obtain z where z: "safestrcpy_w t (nat n) = take (nat n - 1) (cstr t) @ 0 # z"
    using safestrcpy_w_prefix [of "nat n" t] assms by auto
  have "0 \<notin> set (take (nat n - 1) (cstr t))" using cstr_nonzero [of t] in_set_takeD by fast
  then show ?thesis using assms z by (simp add: safestrcpy_def Let_def cstr_append_zero)
qed

lemma length_safestrcpy:
  assumes "nat n \<le> length s"
  shows "length (safestrcpy s t n) = length s"
  using assms safestrcpy_w_prefix [of "nat n" t]
  by (cases "0 < n") (auto simp: safestrcpy_def Let_def)

lemma strcpy_string: "cstr (strcpy s t) = cstr t"
proof -
  have "strcpy_w t = cstr t @ [0]" by (induction t) auto
  then show ?thesis using cstr_nonzero [of t] by (simp add: strcpy_def Let_def cstr_append_zero)
qed

lemma strchr_Some: "strchr s c = Some i \<Longrightarrow> i < length (cstr s) \<and> cstr s ! i = c"
  by (induction s arbitrary: i) (auto split: if_splits)

lemma strchr_None: "strchr s c = None \<longleftrightarrow> c \<notin> set (cstr s)"
  by (induction s) auto

text \<open>
  C5. \<open>safestrcpy\<close> always terminates its result: for every destination, source and positive size
  the destination holds as a string the first \<open>n - 1\<close> bytes of the source string, and no byte
  at or after position \<open>n\<close> is written.
\<close>

theorem safestrcpy_terminates:
  assumes "0 < n" "nat n \<le> length s"
  shows "cstr (safestrcpy s t n) = take (nat n - 1) (cstr t) \<and>
    length (safestrcpy s t n) = length s \<and> drop (nat n) (safestrcpy s t n) = drop (nat n) s"
proof -
  have "drop (nat n) (safestrcpy s t n) = drop (nat n) s"
    using assms safestrcpy_w_prefix [of "nat n" t] by (auto simp: safestrcpy_def Let_def)
  then show ?thesis using safestrcpy_string length_safestrcpy assms by simp
qed

theorem safestrcpy_terminates_witness:
  "cstr (safestrcpy [1, 2, 3, 4, 5] [7, 8, 9] 3) = take (nat 3 - 1) (cstr [7, 8, 9]) \<and>
    length (safestrcpy [1, 2, 3, 4, 5] [7, 8, 9] 3) = length [1, 2, 3, 4, 5 :: uchar] \<and>
    drop (nat 3) (safestrcpy [1, 2, 3, 4, 5] [7, 8, 9] 3) = drop (nat 3) [1, 2, 3, 4, 5]"
  by (rule safestrcpy_terminates) simp_all

end
