(* ===== verification/ProcTable.thy ===== *)
theory ProcTable
  imports Vm CString
begin

section \<open>The process table: proc.c without the file layer\<close>

text \<open>
  The table \<^verbatim>\<open>ptable.proc\<close> is a list of 64 records, a pointer into it an index, the null
  pointer \<open>None\<close>; what a process sleeps on is a value of \<open>chan\<close>, one constructor per kind
  of object whose address the code uses. The section between \<open>acquire\<close> and \<open>release\<close> of
  \<^verbatim>\<open>ptable.lock\<close> or of a semaphore's lock is one step of the model.

  \<open>sleep\<close> gives up the CPU, so an operation that may sleep returns \<open>Asleep\<close> and has a second
  definition, its \<^verbatim>\<open>..._resume\<close>, for what it does when \<open>sched\<close> returns to it. The state is
  that of one CPU: \<open>cpu_proc\<close> is \<^verbatim>\<open>mycpu()->proc\<close>.

  Signed integers are mathematical integers (their overflow is undefined in C), except in
  \<open>random\<close>, which shifts them as machine words.
\<close>

datatype procstate = UNUSED | EMBRYO | SLEEPING | RUNNABLE | RUNNING | ZOMBIE

datatype chan = ChProc nat | ChSema nat | ChBuf nat | ChInode nat | ChLog | ChTicks
  | ChPipeR uint | ChPipeW uint | ChInput

record proc =
  p_sz :: uint
  p_pgdir :: uint
  p_kstack :: uint
  p_state :: procstate
  p_pid :: int
  p_priority :: int
  p_parent :: "nat option"
  p_tf :: uint
  p_context :: uint
  p_chan :: "chan option"
  p_killed :: int
  p_ofile :: "nat option list"
  p_cwd :: "nat option"
  p_name :: "uchar list"
  p_isthread :: int
  p_stack :: uint
  p_ctime :: uint
  p_stime :: int
  p_retime :: int
  p_rutime :: int
  p_sem_held :: "int list"

record semaphore =
  sem_value :: int
  sem_active :: int

datatype policy = DefaultScheduler | PriorityScheduler | FcfsScheduler | RrScheduler | SmlScheduler

text \<open>
  \<open>a_trapret\<close> and \<open>a_forkret\<close> are addresses of code, \<open>rng\<close> the four static variables
  of \<open>random\<close>.
\<close>

record pst = vmst +
  procs :: "proc list"
  cpu_proc :: "nat option"
  initproc :: "nat option"
  nextpid :: int
  sema :: "semaphore list"
  ready_process :: policy
  schedSelected :: int
  rng :: "uint \<times> uint \<times> uint \<times> uint"
  ticks :: uint
  a_trapret :: uint
  a_forkret :: uint

datatype 'a outcome = Done 'a | Asleep

definition upd_proc :: "nat \<Rightarrow> (proc \<Rightarrow> proc) \<Rightarrow> 'z pst_scheme \<Rightarrow> 'z pst_scheme" where
  "upd_proc i f s = s\<lparr>procs := (procs s)[i := f (procs s ! i)]\<rparr>"

text \<open>\<open>myproc()\<close> where the code follows the pointer: the null pointer faults.\<close>

definition myproc :: "(nat \<Rightarrow> 'z pst_scheme \<Rightarrow> 'a res) \<Rightarrow> 'z pst_scheme \<Rightarrow> 'a res" where
  "myproc f s = (case cpu_proc s of None \<Rightarrow> Fault | Some c \<Rightarrow> f c s)"

subsection \<open>Allocation of a slot\<close>

text \<open>
  The stack page receives the return address of \<open>forkret\<close> and a context, below the 76 bytes of
  the trap frame. The code writes \<^verbatim>\<open>kstack\<close> before it tests it.
\<close>

definition allocproc :: "'z pst_scheme \<Rightarrow> nat option \<times> 'z pst_scheme" where
  "allocproc s =
     (case scan (\<lambda>p. p_state p = UNUSED) (procs s) of
        None \<Rightarrow> (None, s)
      | Some i \<Rightarrow>
          let s = upd_proc i (\<lambda>p. p\<lparr>p_state := EMBRYO, p_priority := 10, p_pid := nextpid s,
                    p_sem_held := replicate 32 0\<rparr>) (s\<lparr>nextpid := nextpid s + 1\<rparr>);
              (ks, s) = kalloc s;
              s = upd_proc i (\<lambda>p. p\<lparr>p_kstack := ks\<rparr>) s
          in if ks = 0 then (None, upd_proc i (\<lambda>p. p\<lparr>p_state := UNUSED\<rparr>) s)
             else
               let sp = ks + 4096 - 76; s = upd_proc i (\<lambda>p. p\<lparr>p_tf := sp\<rparr>) s;
                   s = s\<lparr>k_mem := store32 (k_mem s) (sp - 4) (a_trapret s)\<rparr>;
                   ctx = sp - 4 - 20; s = upd_proc i (\<lambda>p. p\<lparr>p_context := ctx\<rparr>) s;
                   s = s\<lparr>k_mem := store32 (memset (k_mem s) ctx 0 20) (ctx + 16) (a_forkret s)\<rparr>
               in (Some i, s))"

subsection \<open>Sleeping and waking\<close>

text \<open>
  What the scheduler does when a process has switched back to it, and \<open>sched\<close>, whose other panics
  concern the locks.
\<close>

definition sched_return :: "'z pst_scheme \<Rightarrow> 'z pst_scheme" where
  "sched_return s = (switchkvm s)\<lparr>cpu_proc := None\<rparr>"

definition sched :: "'z pst_scheme \<Rightarrow> 'z pst_scheme res" where
  "sched = myproc (\<lambda>c s. if p_state (procs s ! c) = RUNNING then Panic ''sched running''
     else Ok (sched_return s))"

definition yield :: "'z pst_scheme \<Rightarrow> 'z pst_scheme res" where
  "yield = myproc (\<lambda>c s. sched (upd_proc c (\<lambda>p. p\<lparr>p_state := RUNNABLE\<rparr>) s))"

definition sleep :: "chan \<Rightarrow> 'z pst_scheme \<Rightarrow> 'z pst_scheme res" where
  "sleep ch s =
     (case cpu_proc s of
        None \<Rightarrow> Panic ''sleep''
      | Some c \<Rightarrow> sched (upd_proc c (\<lambda>p. p\<lparr>p_chan := Some ch, p_state := SLEEPING\<rparr>) s))"

text \<open>The rest of \<open>sleep\<close>, after \<open>sched\<close> has returned.\<close>

definition awake :: "'z pst_scheme \<Rightarrow> 'z pst_scheme res" where
  "awake = myproc (\<lambda>c s. Ok (upd_proc c (\<lambda>p. p\<lparr>p_chan := None\<rparr>) s))"

definition wakeup1 :: "chan option \<Rightarrow> 'z pst_scheme \<Rightarrow> 'z pst_scheme" where
  "wakeup1 ch s = s\<lparr>procs := map (\<lambda>p.
     if p_state p = SLEEPING \<and> p_chan p = ch then p\<lparr>p_state := RUNNABLE\<rparr> else p) (procs s)\<rparr>"

definition wakeup :: "chan \<Rightarrow> 'z pst_scheme \<Rightarrow> 'z pst_scheme" where
  "wakeup ch s = wakeup1 (Some ch) s"

definition kill :: "int \<Rightarrow> 'z pst_scheme \<Rightarrow> int \<times> 'z pst_scheme" where
  "kill pid s =
     (case scan (\<lambda>p. p_pid p = pid) (procs s) of
        None \<Rightarrow> (- 1, s)
      | Some i \<Rightarrow>
          (0, upd_proc i (\<lambda>p. p\<lparr>p_killed := 1,
                p_state := if p_state p = SLEEPING then RUNNABLE else p_state p\<rparr>) s))"

definition setpriority :: "int \<Rightarrow> int \<Rightarrow> 'z pst_scheme \<Rightarrow> int \<times> 'z pst_scheme" where
  "setpriority pid priority s =
     (if priority < 1 \<or> 20 < priority then (- 1, s)
      else case scan (\<lambda>p. p_pid p = pid) (procs s) of
        None \<Rightarrow> (- 1, s)
      | Some i \<Rightarrow> (0, upd_proc i (\<lambda>p. p\<lparr>p_priority := priority\<rparr>) s))"

subsection \<open>Growing, waiting, reaping\<close>

definition growproc :: "int \<Rightarrow> 'z pst_scheme \<Rightarrow> (int \<times> 'z pst_scheme) res" where
  "growproc n = myproc (\<lambda>c s.
     let sz = p_sz (procs s ! c); pgdir = p_pgdir (procs s ! c);
         finish = (\<lambda>sz s.
           let s = upd_proc c (\<lambda>p. p\<lparr>p_sz := sz\<rparr>) s
           in bindR (switchuvm (Some (p_kstack (procs s ! c), p_pgdir (procs s ! c))) s)
                (\<lambda>s. Ok (0, s)))
     in if 0 < n then
          bindR (allocuvm pgdir sz (sz + of_int n) s)
            (\<lambda>(sz, s). if sz = 0 then Ok (- 1, s) else finish sz s)
        else if n < 0 then
          bindR (deallocuvm pgdir sz (sz + of_int n) s)
            (\<lambda>(sz, s). if sz = 0 then Ok (- 1, s) else finish sz s)
        else finish sz s)"

definition is_child :: "nat \<Rightarrow> proc \<Rightarrow> bool" where
  "is_child c p \<longleftrightarrow> p_parent p = Some c"

text \<open>
  \<^verbatim>\<open>p->name[0] = 0\<close>, and the fields every reaping function clears.
\<close>

definition cleared :: "proc \<Rightarrow> proc" where
  "cleared p = p\<lparr>p_kstack := 0, p_state := UNUSED, p_pid := 0, p_parent := None,
     p_name := (p_name p)[0 := 0], p_killed := 0\<rparr>"

definition wait :: "'z pst_scheme \<Rightarrow> (int outcome \<times> 'z pst_scheme) res" where
  "wait = myproc (\<lambda>c s.
     case scan (\<lambda>p. is_child c p \<and> p_state p = ZOMBIE) (procs s) of
       Some i \<Rightarrow>
         let pid = p_pid (procs s ! i) in
         bindR (kfree (p_kstack (procs s ! i)) s) (\<lambda>s.
         bindR (freevm (p_pgdir (procs s ! i)) s) (\<lambda>s.
           Ok (Done pid, upd_proc i cleared s)))
     | None \<Rightarrow>
         if (\<forall>p \<in> set (procs s). \<not> is_child c p) \<or> p_killed (procs s ! c) \<noteq> 0
         then Ok (Done (- 1), s)
         else bindR (sleep (ChProc c) s) (\<lambda>s. Ok (Asleep, s)))"

definition wait_resume :: "'z pst_scheme \<Rightarrow> (int outcome \<times> 'z pst_scheme) res" where
  "wait_resume s = bindR (awake s) wait"

text \<open>The three results of \<open>wait2\<close> are stored through the caller's pointers.\<close>

definition wait2 :: "uint \<Rightarrow> uint \<Rightarrow> uint \<Rightarrow> 'z pst_scheme \<Rightarrow> (int outcome \<times> 'z pst_scheme) res" where
  "wait2 retime rutime stime = myproc (\<lambda>c s.
     case scan (\<lambda>p. is_child c p \<and> p_state p = ZOMBIE) (procs s) of
       Some i \<Rightarrow>
         let p = procs s ! i; pgdir = p_pgdir (procs s ! c) in
         bindR (uwrite pgdir retime (le32 (of_int (p_retime p))) s) (\<lambda>s.
         bindR (uwrite pgdir rutime (le32 (of_int (p_rutime p))) s) (\<lambda>s.
         bindR (uwrite pgdir stime (le32 (of_int (p_stime p))) s) (\<lambda>s.
         bindR (kfree (p_kstack p) s) (\<lambda>s.
         bindR (freevm (p_pgdir p) s) (\<lambda>s.
           Ok (Done (p_pid p), upd_proc i (\<lambda>p. (cleared p)\<lparr>p_ctime := 0, p_retime := 0,
                 p_rutime := 0, p_stime := 0, p_priority := 0\<rparr>) s))))))
     | None \<Rightarrow>
         if (\<forall>p \<in> set (procs s). \<not> is_child c p) \<or> p_killed (procs s ! c) \<noteq> 0
         then Ok (Done (- 1), s)
         else bindR (sleep (ChProc c) s) (\<lambda>s. Ok (Asleep, s)))"

definition wait2_resume :: "uint \<Rightarrow> uint \<Rightarrow> uint \<Rightarrow> 'z pst_scheme \<Rightarrow> (int outcome \<times> 'z pst_scheme) res" where
  "wait2_resume retime rutime stime s = bindR (awake s) (wait2 retime rutime stime)"

definition is_thread :: "nat \<Rightarrow> proc \<Rightarrow> bool" where
  "is_thread c p \<longleftrightarrow> p_parent p = Some c \<and> p_isthread p = 1"

definition join :: "uint \<Rightarrow> 'z pst_scheme \<Rightarrow> (int outcome \<times> 'z pst_scheme) res" where
  "join stack = myproc (\<lambda>c s.
     case scan (\<lambda>p. is_thread c p \<and> p_state p = ZOMBIE) (procs s) of
       Some i \<Rightarrow>
         let pid = p_pid (procs s ! i) in
         bindR (kfree (p_kstack (procs s ! i)) s) (\<lambda>s.
           let s = upd_proc i cleared s in
           bindR (uwrite (p_pgdir (procs s ! c)) stack (le32 (p_stack (procs s ! i))) s) (\<lambda>s.
             Ok (Done pid, s)))
     | None \<Rightarrow>
         if (\<forall>p \<in> set (procs s). \<not> is_thread c p) \<or> p_killed (procs s ! c) \<noteq> 0
         then Ok (Done (- 1), s)
         else bindR (sleep (ChProc c) s) (\<lambda>s. Ok (Asleep, s)))"

definition join_resume :: "uint \<Rightarrow> 'z pst_scheme \<Rightarrow> (int outcome \<times> 'z pst_scheme) res" where
  "join_resume stack s = bindR (awake s) (join stack)"

subsection \<open>Semaphores\<close>

definition upd_sema :: "nat \<Rightarrow> (semaphore \<Rightarrow> semaphore) \<Rightarrow> 'z pst_scheme \<Rightarrow> 'z pst_scheme" where
  "upd_sema i f s = s\<lparr>sema := (sema s)[i := f (sema s ! i)]\<rparr>"

definition sem_init :: "int \<Rightarrow> int \<Rightarrow> 'z pst_scheme \<Rightarrow> int \<times> 'z pst_scheme" where
  "sem_init sem val s =
     (if sem < 0 \<or> 32 \<le> sem then (- 1, s)
      else if sem_active (sema s ! nat sem) = 1 then (- 1, s)
      else (0, upd_sema (nat sem) (\<lambda>x. x\<lparr>sem_value := val, sem_active := 1\<rparr>) s))"

definition sem_destroy :: "int \<Rightarrow> 'z pst_scheme \<Rightarrow> int \<times> 'z pst_scheme" where
  "sem_destroy sem s =
     (if sem < 0 \<or> 32 \<le> sem then (- 1, s)
      else if sem_active (sema s ! nat sem) = 0 then (- 1, s)
      else (0, upd_sema (nat sem) (\<lambda>x. x\<lparr>sem_active := 0, sem_value := 0\<rparr>) s))"

text \<open>
  \<open>sem_wait\<close> from its \<^verbatim>\<open>while\<close> on: it sleeps while the value is too small. What follows the loop
  takes \<open>count\<close> from the value and puts it back, as the source does.
\<close>

definition sem_wait_loop :: "int \<Rightarrow> int \<Rightarrow> 'z pst_scheme \<Rightarrow> (int outcome \<times> 'z pst_scheme) res" where
  "sem_wait_loop sem count s =
     (if sem_value (sema s ! nat sem) < count
      then bindR (sleep (ChSema (nat sem)) s) (\<lambda>s. Ok (Asleep, s))
      else myproc (\<lambda>c s.
        let s = upd_sema (nat sem) (\<lambda>x. x\<lparr>sem_value := sem_value x - count\<rparr>) s;
            s = upd_sema (nat sem) (\<lambda>x. x\<lparr>sem_value := sem_value x + count\<rparr>) s;
            h = p_sem_held (procs s ! c) ! nat sem;
            s = upd_proc c (\<lambda>p. p\<lparr>p_sem_held := (p_sem_held p)
                  [nat sem := if count \<le> h then h - count else 0]\<rparr>) s
        in Ok (Done 0, wakeup (ChSema (nat sem)) s)) s)"

definition sem_wait :: "int \<Rightarrow> int \<Rightarrow> 'z pst_scheme \<Rightarrow> (int outcome \<times> 'z pst_scheme) res" where
  "sem_wait sem count s =
     (if sem < 0 \<or> 32 \<le> sem then Ok (Done (- 1), s)
      else if sem_active (sema s ! nat sem) = 0 then Ok (Done (- 1), s)
      else sem_wait_loop sem count s)"

definition sem_wait_resume :: "int \<Rightarrow> int \<Rightarrow> 'z pst_scheme \<Rightarrow> (int outcome \<times> 'z pst_scheme) res" where
  "sem_wait_resume sem count s =
     bindR (awake s) (\<lambda>s.
       if sem_active (sema s ! nat sem) = 0 then Ok (Done (- 1), s)
       else sem_wait_loop sem count s)"

definition sem_signal :: "int \<Rightarrow> int \<Rightarrow> 'z pst_scheme \<Rightarrow> int \<times> 'z pst_scheme" where
  "sem_signal sem count s =
     (if sem < 0 \<or> 32 \<le> sem then (- 1, s)
      else if sem_active (sema s ! nat sem) = 0 then (- 1, s)
      else (0, wakeup (ChSema (nat sem))
                 (upd_sema (nat sem) (\<lambda>x. x\<lparr>sem_value := sem_value x + count\<rparr>) s)))"

subsection \<open>Scheduling\<close>

text \<open>
  \<open>random\<close> on 32-bit words: the left shifts and the masks keep the low 32 bits, the right shifts
  are arithmetic, and \<open>crem\<close> is the remainder of C, which takes the sign of the dividend.
\<close>

definition crem :: "int \<Rightarrow> int \<Rightarrow> int" where
  "crem a b = (if a < 0 then - ((- a) mod \<bar>b\<bar>) else a mod \<bar>b\<bar>)"

definition random :: "int \<Rightarrow> 'z pst_scheme \<Rightarrow> int \<times> 'z pst_scheme" where
  "random mx s =
     (if mx \<le> 0 then (1, s)
      else
        let (z1, z2, z3, z4) = rng s;
            b = signed_drop_bit 13 (push_bit 6 z1 XOR z1);
            z1 = push_bit 18 (z1 AND 4294967294) XOR b;
            b = signed_drop_bit 27 (push_bit 2 z2 XOR z2);
            z2 = push_bit 2 (z2 AND 4294967288) XOR b;
            b = signed_drop_bit 21 (push_bit 13 z3 XOR z3);
            z3 = push_bit 7 (z3 AND 4294967280) XOR b;
            b = signed_drop_bit 12 (push_bit 3 z4 XOR z4);
            z4 = push_bit 13 (z4 AND 4294967168) XOR b;
            rand = crem (sint (z1 XOR z2 XOR z3 XOR z4)) mx
        in (if rand < 0 then rand * - 1 else rand, s\<lparr>rng := (z1, z2, z3, z4)\<rparr>))"

text \<open>The loop of \<open>defaultScheduler\<close>: \<open>n\<close> slots left to look at, the next one \<open>rnd + i\<close>.\<close>

fun pick :: "nat \<Rightarrow> nat \<Rightarrow> proc list \<Rightarrow> nat option" where
  "pick 0 k ps = None"
| "pick (Suc n) k ps = (if p_state (ps ! (k mod NPROC)) = RUNNABLE then Some (k mod NPROC)
     else pick n (Suc k) ps)"

definition defaultScheduler :: "'z pst_scheme \<Rightarrow> nat option \<times> 'z pst_scheme" where
  "defaultScheduler s =
     (let (rnd, s) = random (int NPROC) s in (pick NPROC (nat rnd) (procs s), s))"

text \<open>
  The other four policies have empty bodies: the value \<open>scheduler\<close> reads from them is undefined.
\<close>

definition run_policy :: "'z pst_scheme \<Rightarrow> (nat option \<times> 'z pst_scheme) res" where
  "run_policy s =
     (case ready_process s of
        DefaultScheduler \<Rightarrow> Ok (defaultScheduler s)
      | PriorityScheduler \<Rightarrow> Fault
      | FcfsScheduler \<Rightarrow> Fault
      | RrScheduler \<Rightarrow> Fault
      | SmlScheduler \<Rightarrow> Fault)"

text \<open>One iteration of \<open>scheduler\<close>, up to the switch to the process chosen.\<close>

definition scheduler :: "'z pst_scheme \<Rightarrow> 'z pst_scheme res" where
  "scheduler s =
     bindR (run_policy s) (\<lambda>(p, s).
       case p of
         None \<Rightarrow> Ok s
       | Some i \<Rightarrow>
           let s = s\<lparr>cpu_proc := Some i\<rparr> in
           bindR (switchuvm (Some (p_kstack (procs s ! i), p_pgdir (procs s ! i))) s) (\<lambda>s.
             Ok (upd_proc i (\<lambda>p. p\<lparr>p_state := RUNNING\<rparr>) s)))"

definition getscheduler :: "'z pst_scheme \<Rightarrow> int" where
  "getscheduler s = schedSelected s"

text \<open>The tables of \<^verbatim>\<open>sdh.h\<close> have five entries; reading the sixth is undefined.\<close>

definition schedulerFunction :: "policy list" where
  "schedulerFunction =
     [DefaultScheduler, PriorityScheduler, FcfsScheduler, RrScheduler, SmlScheduler]"

definition setscheduler :: "int \<Rightarrow> 'z pst_scheme \<Rightarrow> (int \<times> 'z pst_scheme) res" where
  "setscheduler sid s =
     (let mx = 5 in
      if sid < 0 \<or> mx < sid then Ok (- 1, s)
      else if length schedulerFunction \<le> nat sid then Fault
      else Ok (sid, s\<lparr>ready_process := schedulerFunction ! nat sid, schedSelected := sid\<rparr>))"

subsection \<open>Statistics and the table for users\<close>

definition update_statistics :: "'z pst_scheme \<Rightarrow> 'z pst_scheme" where
  "update_statistics s = s\<lparr>procs := map (\<lambda>p.
     case p_state p of
       SLEEPING \<Rightarrow> p\<lparr>p_stime := p_stime p + 1\<rparr>
     | RUNNABLE \<Rightarrow> p\<lparr>p_retime := p_retime p + 1\<rparr>
     | RUNNING \<Rightarrow> p\<lparr>p_rutime := p_rutime p + 1\<rparr>
     | _ \<Rightarrow> p) (procs s)\<rparr>"

fun state_num :: "procstate \<Rightarrow> uint" where
  "state_num UNUSED = 0"
| "state_num EMBRYO = 1"
| "state_num SLEEPING = 2"
| "state_num RUNNABLE = 3"
| "state_num RUNNING = 4"
| "state_num ZOMBIE = 5"

text \<open>The 36 bytes of a \<^verbatim>\<open>struct proc_info\<close>.\<close>

definition proc_info :: "proc list \<Rightarrow> proc \<Rightarrow> uchar list" where
  "proc_info ps p =
     (if p_state p = UNUSED then replicate 36 0
      else le32 (of_int (p_pid p))
         @ le32 (of_int (case p_parent p of None \<Rightarrow> - 1 | Some q \<Rightarrow> p_pid (ps ! q)))
         @ le32 (of_int (p_priority p)) @ le32 (p_sz p) @ le32 (state_num (p_state p))
         @ safestrcpy (replicate 16 0) (p_name p) 16)"

fun getptable_loop :: "proc list \<Rightarrow> proc list \<Rightarrow> uint \<Rightarrow> uint \<Rightarrow> 'z pst_scheme \<Rightarrow> (int \<times> 'z pst_scheme) res" where
  "getptable_loop ps [] pgdir uptr s = Ok (0, s)"
| "getptable_loop ps (p # qs) pgdir uptr s =
     bindR (copyout pgdir uptr (proc_info ps p) s) (\<lambda>(r, s).
       if r < 0 then Ok (- 1, s) else getptable_loop ps qs pgdir (uptr + 36) s)"

text \<open>The comparison with \<open>sizeof\<close> is unsigned, so that a negative size passes it.\<close>

definition getptable :: "uint \<Rightarrow> int \<Rightarrow> 'z pst_scheme \<Rightarrow> (int \<times> 'z pst_scheme) res" where
  "getptable ubuf sz s =
     (if (of_int sz :: uint) < 64 * 36 then Ok (- 1, s)
      else myproc (\<lambda>c s. getptable_loop (procs s) (procs s) (p_pgdir (procs s ! c)) ubuf s) s)"

subsection \<open>The tables at boot\<close>

text \<open>Static storage is zero when the kernel starts, apart from the initialised variables.\<close>

definition proc_boot :: proc where
  "proc_boot = \<lparr>p_sz = 0, p_pgdir = 0, p_kstack = 0, p_state = UNUSED, p_pid = 0, p_priority = 0,
     p_parent = None, p_tf = 0, p_context = 0, p_chan = None, p_killed = 0,
     p_ofile = replicate NOFILE None, p_cwd = None, p_name = replicate 16 0, p_isthread = 0,
     p_stack = 0, p_ctime = 0, p_stime = 0, p_retime = 0, p_rutime = 0, p_sem_held = replicate 32 0\<rparr>"

definition vmst_boot :: vmst where
  "vmst_boot = km.extend km_boot (vmst.fields 0 0 [] 0 0 0 0 0)"

definition pst_boot :: pst where
  "pst_boot = vmst.extend vmst_boot
     (pst.fields (replicate NPROC proc_boot) None None 1
       (replicate 32 \<lparr>sem_value = 0, sem_active = 0\<rparr>) DefaultScheduler 0
       (12345, 12345, 12345, 12345) 0 0x80105000 0x80104000)"

lemma pst_boot_simps [simp]:
  "procs pst_boot = replicate NPROC proc_boot" "cpu_proc pst_boot = None" "initproc pst_boot = None"
  "nextpid pst_boot = 1" "sema pst_boot = replicate 32 \<lparr>sem_value = 0, sem_active = 0\<rparr>"
  "ready_process pst_boot = DefaultScheduler" "rng pst_boot = (12345, 12345, 12345, 12345)"
  "ticks pst_boot = 0"
  by (simp_all add: pst_boot_def vmst.extend_def pst.fields_def)

end
