(* ===== verification/Bio.thy ===== *)
theory Bio
  imports ProcTable
begin

section \<open>Sleep locks, the memory disk and the buffer cache: sleeplock.c, memide.c, bio.c\<close>

text \<open>
  The buffers are a list of 31 records: 30 buffers and, at index 30, the head of the list that
  runs through \<^verbatim>\<open>prev\<close> and \<^verbatim>\<open>next\<close>; pointers are indices. Walking the list takes at most
  31 steps on a list that is well-formed, which is the fuel of \<open>walk\<close>; a walk that runs out of it
  is an endless loop of the source, \<open>Diverge\<close>.

  From here up to the system calls a process that would go to sleep on a lock ends the run with
  \<open>Block\<close>: the file system is modelled for one process at a time inside it.

  The disk is that of \<^verbatim>\<open>memide.c\<close>, an array of blocks. \<open>dwrites\<close> records the block writes in the
  order they reach the disk, newest first; no code reads it, the crash theorem of the log does.
\<close>

record sleeplock =
  sl_locked :: uint
  sl_pid :: int

definition initsleeplock :: sleeplock where
  "initsleeplock = \<lparr>sl_locked = 0, sl_pid = 0\<rparr>"

text \<open>A lock inside a larger state is reached by a reading and a writing function.\<close>

definition acquiresleep :: "('z pst_scheme \<Rightarrow> sleeplock) \<Rightarrow> (sleeplock \<Rightarrow> 'z pst_scheme \<Rightarrow> 'z pst_scheme)
    \<Rightarrow> 'z pst_scheme \<Rightarrow> 'z pst_scheme res" where
  "acquiresleep get put s =
     (if sl_locked (get s) \<noteq> 0 then Block
      else myproc (\<lambda>c s. Ok (put \<lparr>sl_locked = 1, sl_pid = p_pid (procs s ! c)\<rparr> s)) s)"

definition releasesleep :: "(sleeplock \<Rightarrow> 'z pst_scheme \<Rightarrow> 'z pst_scheme) \<Rightarrow> chan
    \<Rightarrow> 'z pst_scheme \<Rightarrow> 'z pst_scheme" where
  "releasesleep put ch s = wakeup ch (put \<lparr>sl_locked = 0, sl_pid = 0\<rparr> s)"

definition holdingsleep :: "sleeplock \<Rightarrow> bool" where
  "holdingsleep lk \<longleftrightarrow> sl_locked lk \<noteq> 0"

subsection \<open>Buffers\<close>

abbreviation (input) B_VALID :: uint where "B_VALID \<equiv> 2"
abbreviation (input) B_DIRTY :: uint where "B_DIRTY \<equiv> 4"
abbreviation (input) BSIZE :: nat where "BSIZE \<equiv> 512"

record buf =
  b_flags :: uint
  b_dev :: uint
  b_blockno :: uint
  b_lock :: sleeplock
  b_refcnt :: uint
  b_prev :: nat
  b_next :: nat
  b_data :: "uchar list"

record bst = pst +
  bcache :: "buf list"
  disk :: "uint \<Rightarrow> uchar list"
  disksize :: uint
  dwrites :: "(uint \<times> uchar list) list"

definition upd_buf :: "nat \<Rightarrow> (buf \<Rightarrow> buf) \<Rightarrow> 'z bst_scheme \<Rightarrow> 'z bst_scheme" where
  "upd_buf i f s = s\<lparr>bcache := (bcache s)[i := f (bcache s ! i)]\<rparr>"

text \<open>The loop of \<open>binit\<close>, from buffer \<open>i\<close> with \<open>n\<close> to go.\<close>

fun binit_loop :: "nat \<Rightarrow> nat \<Rightarrow> buf list \<Rightarrow> buf list" where
  "binit_loop 0 i bs = bs"
| "binit_loop (Suc n) i bs =
     (let first = b_next (bs ! NBUF);
          bs = bs[i := (bs ! i)\<lparr>b_next := first, b_prev := NBUF, b_lock := initsleeplock\<rparr>];
          bs = bs[first := (bs ! first)\<lparr>b_prev := i\<rparr>];
          bs = bs[NBUF := (bs ! NBUF)\<lparr>b_next := i\<rparr>]
      in binit_loop n (Suc i) bs)"

definition binit :: "'z bst_scheme \<Rightarrow> 'z bst_scheme" where
  "binit s =
     (let bs = bcache s; bs = bs[NBUF := (bs ! NBUF)\<lparr>b_prev := NBUF, b_next := NBUF\<rparr>]
      in s\<lparr>bcache := binit_loop NBUF 0 bs\<rparr>)"

fun walk :: "nat \<Rightarrow> (buf \<Rightarrow> nat) \<Rightarrow> (buf \<Rightarrow> bool) \<Rightarrow> buf list \<Rightarrow> nat \<Rightarrow> nat option res" where
  "walk 0 nx P bs b = Diverge"
| "walk (Suc n) nx P bs b =
     (if b = NBUF then Ok None else if P (bs ! b) then Ok (Some b)
      else walk n nx P bs (nx (bs ! b)))"

definition get_lock :: "nat \<Rightarrow> 'z bst_scheme \<Rightarrow> sleeplock" where
  "get_lock b s = b_lock (bcache s ! b)"

definition put_lock :: "nat \<Rightarrow> sleeplock \<Rightarrow> 'z bst_scheme \<Rightarrow> 'z bst_scheme" where
  "put_lock b lk = upd_buf b (\<lambda>x. x\<lparr>b_lock := lk\<rparr>)"

definition bget :: "uint \<Rightarrow> uint \<Rightarrow> 'z bst_scheme \<Rightarrow> (nat \<times> 'z bst_scheme) res" where
  "bget dev blockno s =
     bindR (walk (NBUF + 1) b_next (\<lambda>b. b_dev b = dev \<and> b_blockno b = blockno) (bcache s)
              (b_next (bcache s ! NBUF))) (\<lambda>r.
       case r of
         Some b \<Rightarrow>
           bindR (acquiresleep (get_lock b) (put_lock b)
                    (upd_buf b (\<lambda>x. x\<lparr>b_refcnt := b_refcnt x + 1\<rparr>) s)) (\<lambda>s. Ok (b, s))
       | None \<Rightarrow>
           bindR (walk (NBUF + 1) b_prev (\<lambda>b. b_refcnt b = 0 \<and> b_flags b AND B_DIRTY = 0) (bcache s)
                    (b_prev (bcache s ! NBUF))) (\<lambda>r.
             case r of
               Some b \<Rightarrow>
                 bindR (acquiresleep (get_lock b) (put_lock b)
                          (upd_buf b (\<lambda>x. x\<lparr>b_dev := dev, b_blockno := blockno, b_flags := 0,
                             b_refcnt := 1\<rparr>) s)) (\<lambda>s. Ok (b, s))
             | None \<Rightarrow> Panic ''bget: no buffers''))"

definition iderw :: "nat \<Rightarrow> 'z bst_scheme \<Rightarrow> 'z bst_scheme res" where
  "iderw b s =
     (let x = bcache s ! b in
      if \<not> holdingsleep (b_lock x) then Panic ''iderw: buf not locked''
      else if b_flags x AND (B_VALID OR B_DIRTY) = B_VALID then Panic ''iderw: nothing to do''
      else if b_dev x \<noteq> 1 then Panic ''iderw: request not for disk 1''
      else if disksize s \<le> b_blockno x then Panic ''iderw: block out of range''
      else if b_flags x AND B_DIRTY \<noteq> 0 then
        Ok (upd_buf b (\<lambda>x. x\<lparr>b_flags := (b_flags x AND NOT B_DIRTY) OR B_VALID\<rparr>)
             (s\<lparr>disk := (disk s)(b_blockno x := b_data x),
                dwrites := (b_blockno x, b_data x) # dwrites s\<rparr>))
      else
        Ok (upd_buf b (\<lambda>x. x\<lparr>b_data := disk s (b_blockno x), b_flags := b_flags x OR B_VALID\<rparr>) s))"

definition bread :: "uint \<Rightarrow> uint \<Rightarrow> 'z bst_scheme \<Rightarrow> (nat \<times> 'z bst_scheme) res" where
  "bread dev blockno s =
     bindR (bget dev blockno s) (\<lambda>(b, s).
       if b_flags (bcache s ! b) AND B_VALID = 0
       then bindR (iderw b s) (\<lambda>s. Ok (b, s)) else Ok (b, s))"

definition bwrite :: "nat \<Rightarrow> 'z bst_scheme \<Rightarrow> 'z bst_scheme res" where
  "bwrite b s =
     (if \<not> holdingsleep (b_lock (bcache s ! b)) then Panic ''bwrite''
      else iderw b (upd_buf b (\<lambda>x. x\<lparr>b_flags := b_flags x OR B_DIRTY\<rparr>) s))"

definition brelse :: "nat \<Rightarrow> 'z bst_scheme \<Rightarrow> 'z bst_scheme res" where
  "brelse b s =
     (if \<not> holdingsleep (b_lock (bcache s ! b)) then Panic ''brelse''
      else
        let s = releasesleep (put_lock b) (ChBuf b) s;
            s = upd_buf b (\<lambda>x. x\<lparr>b_refcnt := b_refcnt x - 1\<rparr>) s
        in if b_refcnt (bcache s ! b) = 0 then
             let s = upd_buf (b_next (bcache s ! b)) (\<lambda>x. x\<lparr>b_prev := b_prev (bcache s ! b)\<rparr>) s;
                 s = upd_buf (b_prev (bcache s ! b)) (\<lambda>x. x\<lparr>b_next := b_next (bcache s ! b)\<rparr>) s;
                 s = upd_buf b (\<lambda>x. x\<lparr>b_next := b_next (bcache s ! NBUF), b_prev := NBUF\<rparr>) s;
                 s = upd_buf (b_next (bcache s ! NBUF)) (\<lambda>x. x\<lparr>b_prev := b\<rparr>) s;
                 s = upd_buf NBUF (\<lambda>x. x\<lparr>b_next := b\<rparr>) s
             in Ok s
           else Ok s)"

subsection \<open>The cache and a disk at boot\<close>

definition buf_boot :: buf where
  "buf_boot = \<lparr>b_flags = 0, b_dev = 0, b_blockno = 0, b_lock = \<lparr>sl_locked = 0, sl_pid = 0\<rparr>,
     b_refcnt = 0, b_prev = 0, b_next = 0, b_data = replicate BSIZE 0\<rparr>"

definition bst_boot :: bst where
  "bst_boot = pst.extend pst_boot
     (bst.fields (replicate (Suc NBUF) buf_boot) (\<lambda>_. replicate BSIZE 0) (of_nat FSSIZE) [])"

end
