(* ===== verification/Log.thy ===== *)
theory Log
  imports Bio
begin

section \<open>The write-ahead log: log.c\<close>

text \<open>
  \<open>lh_n\<close> and \<open>lh_block\<close> are the header kept in memory. The on-disk header is the first 124
  bytes of block \<^verbatim>\<open>log.start\<close>: the count, then 30 block numbers. A count beyond 30 read from the
  disk would be copied outside the array: the model faults.
\<close>

record lst = bst +
  log_start :: uint
  log_size :: int
  log_outstanding :: int
  log_committing :: bool
  log_dev :: uint
  lh_n :: int
  lh_block :: "uint list"

definition slice :: "nat \<Rightarrow> nat \<Rightarrow> 'a list \<Rightarrow> 'a list" where
  "slice off n xs = take n (drop off xs)"

definition splice :: "nat \<Rightarrow> 'a list \<Rightarrow> 'a list \<Rightarrow> 'a list" where
  "splice off ys xs = take off xs @ ys @ drop (off + length ys) xs"

definition word_at :: "uchar list \<Rightarrow> nat \<Rightarrow> uint" where
  "word_at d i = of_le32 (slice (4 * i) 4 d)"

definition set_data :: "nat \<Rightarrow> uchar list \<Rightarrow> 'z bst_scheme \<Rightarrow> 'z bst_scheme" where
  "set_data b d = upd_buf b (\<lambda>x. x\<lparr>b_data := d\<rparr>)"

text \<open>\<open>copy_block from to\<close> is \<^verbatim>\<open>memmove(to->data, from->data, BSIZE)\<close>.\<close>

definition copy_block :: "nat \<Rightarrow> nat \<Rightarrow> 'z bst_scheme \<Rightarrow> 'z bst_scheme" where
  "copy_block from to s = set_data to (b_data (bcache s ! from)) s"

text \<open>The loops run over \<open>tail\<close>, with \<open>n\<close> blocks to go.\<close>

fun install_loop :: "nat \<Rightarrow> nat \<Rightarrow> 'z lst_scheme \<Rightarrow> 'z lst_scheme res" where
  "install_loop 0 tail s = Ok s"
| "install_loop (Suc n) tail s =
     bindR (bread (log_dev s) (log_start s + of_nat tail + 1) s) (\<lambda>(lbuf, s).
     bindR (bread (log_dev s) (lh_block s ! tail) s) (\<lambda>(dbuf, s).
     bindR (bwrite dbuf (copy_block lbuf dbuf s)) (\<lambda>s.
     bindR (brelse lbuf s) (\<lambda>s.
     bindR (brelse dbuf s) (\<lambda>s.
       install_loop n (Suc tail) s)))))"

definition install_trans :: "'z lst_scheme \<Rightarrow> 'z lst_scheme res" where
  "install_trans s = install_loop (nat (lh_n s)) 0 s"

definition read_head :: "'z lst_scheme \<Rightarrow> 'z lst_scheme res" where
  "read_head s =
     bindR (bread (log_dev s) (log_start s) s) (\<lambda>(b, s).
       let d = b_data (bcache s ! b); n = sint (word_at d 0) in
       if 30 < n then Fault
       else brelse b (s\<lparr>lh_n := n,
              lh_block := map (\<lambda>i. word_at d (Suc i)) [0..<nat n] @ drop (nat n) (lh_block s)\<rparr>))"

definition header_bytes :: "'z lst_scheme \<Rightarrow> uchar list" where
  "header_bytes s = le32 (of_int (lh_n s)) @ concat (map le32 (take (nat (lh_n s)) (lh_block s)))"

definition write_head :: "'z lst_scheme \<Rightarrow> 'z lst_scheme res" where
  "write_head s =
     bindR (bread (log_dev s) (log_start s) s) (\<lambda>(b, s).
     bindR (bwrite b (set_data b (splice 0 (header_bytes s) (b_data (bcache s ! b))) s)) (\<lambda>s.
       brelse b s))"

definition recover_from_log :: "'z lst_scheme \<Rightarrow> 'z lst_scheme res" where
  "recover_from_log s =
     bindR (read_head s) (\<lambda>s.
     bindR (install_trans s) (\<lambda>s.
       write_head (s\<lparr>lh_n := 0\<rparr>)))"

text \<open>A \<open>begin_op\<close> that has to wait for a commit, or for space in the log, goes to sleep.\<close>

definition begin_op :: "'z lst_scheme \<Rightarrow> 'z lst_scheme res" where
  "begin_op s =
     (if log_committing s then Block
      else if int LOGSIZE < lh_n s + (log_outstanding s + 1) * int MAXOPBLOCKS then Block
      else Ok (s\<lparr>log_outstanding := log_outstanding s + 1\<rparr>))"

fun write_log_loop :: "nat \<Rightarrow> nat \<Rightarrow> 'z lst_scheme \<Rightarrow> 'z lst_scheme res" where
  "write_log_loop 0 tail s = Ok s"
| "write_log_loop (Suc n) tail s =
     bindR (bread (log_dev s) (log_start s + of_nat tail + 1) s) (\<lambda>(to, s).
     bindR (bread (log_dev s) (lh_block s ! tail) s) (\<lambda>(from, s).
     bindR (bwrite to (copy_block from to s)) (\<lambda>s.
     bindR (brelse from s) (\<lambda>s.
     bindR (brelse to s) (\<lambda>s.
       write_log_loop n (Suc tail) s)))))"

definition write_log :: "'z lst_scheme \<Rightarrow> 'z lst_scheme res" where
  "write_log s = write_log_loop (nat (lh_n s)) 0 s"

definition commit :: "'z lst_scheme \<Rightarrow> 'z lst_scheme res" where
  "commit s =
     (if 0 < lh_n s then
        bindR (write_log s) (\<lambda>s.
        bindR (write_head s) (\<lambda>s.
        bindR (install_trans s) (\<lambda>s.
          write_head (s\<lparr>lh_n := 0\<rparr>))))
      else Ok s)"

definition end_op :: "'z lst_scheme \<Rightarrow> 'z lst_scheme res" where
  "end_op s =
     (let s = s\<lparr>log_outstanding := log_outstanding s - 1\<rparr> in
      if log_committing s then Panic ''log.committing''
      else if log_outstanding s = 0 then
        bindR (commit (s\<lparr>log_committing := True\<rparr>)) (\<lambda>s.
          Ok (wakeup ChLog (s\<lparr>log_committing := False\<rparr>)))
      else Ok (wakeup ChLog s))"

definition log_write :: "nat \<Rightarrow> 'z lst_scheme \<Rightarrow> 'z lst_scheme res" where
  "log_write b s =
     (if int LOGSIZE \<le> lh_n s \<or> log_size s - 1 \<le> lh_n s then Panic ''too big a transaction''
      else if log_outstanding s < 1 then Panic ''log_write outside of trans''
      else
        let blockno = b_blockno (bcache s ! b);
            i = (case scan (\<lambda>x. x = blockno) (take (nat (lh_n s)) (lh_block s)) of
                   Some i \<Rightarrow> i | None \<Rightarrow> nat (lh_n s));
            s = s\<lparr>lh_block := (lh_block s)[i := blockno]\<rparr>;
            s = (if int i = lh_n s then s\<lparr>lh_n := lh_n s + 1\<rparr> else s)
        in Ok (upd_buf b (\<lambda>x. x\<lparr>b_flags := b_flags x OR B_DIRTY\<rparr>) s))"

definition lst_boot :: lst where
  "lst_boot = bst.extend bst_boot (lst.fields 0 0 0 False 0 0 (replicate LOGSIZE 0))"

end
