(* ===== verification/Inode.thy ===== *)
theory Inode
  imports Log
begin

section \<open>Disk blocks and inodes: the lower half of fs.c\<close>

text \<open>
  On-disk structures are bytes of a block: a superblock is seven words, an inode 64 bytes, eight to
  a block. Fields of type \<^verbatim>\<open>short\<close> are 16-bit words. The inode cache is a list of 50 records and a
  pointer into it an index. The message \<open>iinit\<close> prints is left out.
\<close>

record superblock =
  sb_size :: uint
  sb_nblocks :: uint
  sb_ninodes :: uint
  sb_nlog :: uint
  sb_logstart :: uint
  sb_inodestart :: uint
  sb_bmapstart :: uint

record dinode =
  d_type :: ushort
  d_major :: ushort
  d_minor :: ushort
  d_nlink :: ushort
  d_size :: uint
  d_addrs :: "uint list"

record inode =
  i_dev :: uint
  i_inum :: uint
  i_ref :: int
  i_lock :: sleeplock
  i_valid :: bool
  i_type :: ushort
  i_major :: ushort
  i_minor :: ushort
  i_nlink :: ushort
  i_size :: uint
  i_addrs :: "uint list"

record fsst = lst +
  sb :: superblock
  icache :: "inode list"

abbreviation (input) NDIRECT :: nat where "NDIRECT \<equiv> 12"
abbreviation (input) NINDIRECT :: nat where "NINDIRECT \<equiv> 128"
abbreviation (input) MAXFILE :: nat where "MAXFILE \<equiv> 140"
abbreviation (input) BPB :: nat where "BPB \<equiv> 4096"
abbreviation (input) T_DIR :: ushort where "T_DIR \<equiv> 1"
abbreviation (input) T_FILE :: ushort where "T_FILE \<equiv> 2"
abbreviation (input) T_DEV :: ushort where "T_DEV \<equiv> 3"
abbreviation (input) ROOTINO :: uint where "ROOTINO \<equiv> 1"

definition IBLOCK :: "uint \<Rightarrow> superblock \<Rightarrow> uint" where
  "IBLOCK i b = i div 8 + sb_inodestart b"

definition BBLOCK :: "uint \<Rightarrow> superblock \<Rightarrow> uint" where
  "BBLOCK b sp = b div of_nat BPB + sb_bmapstart sp"

subsection \<open>Encodings\<close>

definition le16 :: "ushort \<Rightarrow> uchar list" where
  "le16 v = [ucast v, ucast (drop_bit 8 v)]"

definition of_le16 :: "uchar list \<Rightarrow> ushort" where
  "of_le16 b = ucast (b ! 0) OR push_bit 8 (ucast (b ! 1))"

definition dec_sb :: "uchar list \<Rightarrow> superblock" where
  "dec_sb d = \<lparr>sb_size = word_at d 0, sb_nblocks = word_at d 1, sb_ninodes = word_at d 2,
     sb_nlog = word_at d 3, sb_logstart = word_at d 4, sb_inodestart = word_at d 5,
     sb_bmapstart = word_at d 6\<rparr>"

definition enc_dinode :: "dinode \<Rightarrow> uchar list" where
  "enc_dinode d = le16 (d_type d) @ le16 (d_major d) @ le16 (d_minor d) @ le16 (d_nlink d)
     @ le32 (d_size d) @ concat (map le32 (d_addrs d))"

definition dec_dinode :: "uchar list \<Rightarrow> dinode" where
  "dec_dinode b = \<lparr>d_type = of_le16 (slice 0 2 b), d_major = of_le16 (slice 2 2 b),
     d_minor = of_le16 (slice 4 2 b), d_nlink = of_le16 (slice 6 2 b), d_size = word_at b 2,
     d_addrs = map (\<lambda>i. word_at b (3 + i)) [0..<13]\<rparr>"

text \<open>The inode numbered \<open>inum\<close> in the bytes of its block, and the block with it replaced.\<close>

definition dinode_of :: "uint \<Rightarrow> uchar list \<Rightarrow> dinode" where
  "dinode_of inum d = dec_dinode (slice (64 * unat (inum mod 8)) 64 d)"

definition put_dinode :: "uint \<Rightarrow> dinode \<Rightarrow> uchar list \<Rightarrow> uchar list" where
  "put_dinode inum di d = splice (64 * unat (inum mod 8)) (enc_dinode di) d"

subsection \<open>Blocks\<close>

definition readsb :: "uint \<Rightarrow> 'z lst_scheme \<Rightarrow> (superblock \<times> 'z lst_scheme) res" where
  "readsb dev s =
     bindR (bread dev 1 s) (\<lambda>(bp, s).
       let x = dec_sb (b_data (bcache s ! bp)) in bindR (brelse bp s) (\<lambda>s. Ok (x, s)))"

text \<open>\<^verbatim>\<open>sizeof(struct logheader)\<close> is 124, less than a block, so that \<open>initlog\<close> never panics.\<close>

definition initlog :: "uint \<Rightarrow> 'z lst_scheme \<Rightarrow> 'z lst_scheme res" where
  "initlog dev s =
     bindR (readsb dev s) (\<lambda>(x, s).
       recover_from_log (s\<lparr>log_start := sb_logstart x, log_size := sint (sb_nlog x), log_dev := dev\<rparr>))"

definition bzero :: "uint \<Rightarrow> uint \<Rightarrow> 'z lst_scheme \<Rightarrow> 'z lst_scheme res" where
  "bzero dev bno s =
     bindR (bread dev bno s) (\<lambda>(bp, s).
     bindR (log_write bp (set_data bp (replicate BSIZE 0) s)) (\<lambda>s.
       brelse bp s))"

definition bit_free :: "uchar list \<Rightarrow> nat \<Rightarrow> bool" where
  "bit_free d bi \<longleftrightarrow> d ! (bi div 8) AND push_bit (bi mod 8) 1 = 0"

text \<open>The inner loop of \<open>balloc\<close>: the first free bit from \<open>bi\<close>, with \<open>n\<close> bits to look at.\<close>

fun find_free :: "nat \<Rightarrow> nat \<Rightarrow> uchar list \<Rightarrow> nat option" where
  "find_free 0 bi d = None"
| "find_free (Suc n) bi d = (if bit_free d bi then Some bi else find_free n (Suc bi) d)"

function balloc_loop :: "uint \<Rightarrow> nat \<Rightarrow> nat \<Rightarrow> 'z fsst_scheme \<Rightarrow> (uint \<times> 'z fsst_scheme) res" where
  "balloc_loop dev b sz s =
     (if b < sz then
        bindR (bread dev (BBLOCK (of_nat b) (sb s)) s) (\<lambda>(bp, s).
          let d = b_data (bcache s ! bp) in
          case find_free (min BPB (sz - b)) 0 d of
            Some bi \<Rightarrow>
              bindR (log_write bp (set_data bp
                       (d[bi div 8 := d ! (bi div 8) OR push_bit (bi mod 8) 1]) s)) (\<lambda>s.
              bindR (brelse bp s) (\<lambda>s.
              bindR (bzero dev (of_nat (b + bi)) s) (\<lambda>s.
                Ok (of_nat (b + bi), s))))
          | None \<Rightarrow> bindR (brelse bp s) (balloc_loop dev (b + BPB) sz))
      else Panic ''balloc: out of blocks'')"
  by pat_completeness auto
termination
  by (relation "measure (\<lambda>(dev, b, sz, s). sz - b)") auto

declare balloc_loop.simps [simp del]

definition balloc :: "uint \<Rightarrow> 'z fsst_scheme \<Rightarrow> (uint \<times> 'z fsst_scheme) res" where
  "balloc dev s = balloc_loop dev 0 (unat (sb_size (sb s))) s"

definition bfree :: "uint \<Rightarrow> uint \<Rightarrow> 'z fsst_scheme \<Rightarrow> 'z fsst_scheme res" where
  "bfree dev b s =
     bindR (readsb dev s) (\<lambda>(x, s).
       let s = s\<lparr>sb := x\<rparr> in
       bindR (bread dev (BBLOCK b (sb s)) s) (\<lambda>(bp, s).
         let d = b_data (bcache s ! bp); bi = unat (b mod of_nat BPB) in
         if bit_free d bi then Panic ''freeing free block''
         else
           bindR (log_write bp (set_data bp
                    (d[bi div 8 := d ! (bi div 8) AND NOT (push_bit (bi mod 8) 1)]) s)) (\<lambda>s.
             brelse bp s)))"

subsection \<open>Inodes\<close>

definition upd_inode :: "nat \<Rightarrow> (inode \<Rightarrow> inode) \<Rightarrow> 'z fsst_scheme \<Rightarrow> 'z fsst_scheme" where
  "upd_inode i f s = s\<lparr>icache := (icache s)[i := f (icache s ! i)]\<rparr>"

definition get_ilock :: "nat \<Rightarrow> 'z fsst_scheme \<Rightarrow> sleeplock" where
  "get_ilock i s = i_lock (icache s ! i)"

definition put_ilock :: "nat \<Rightarrow> sleeplock \<Rightarrow> 'z fsst_scheme \<Rightarrow> 'z fsst_scheme" where
  "put_ilock i lk = upd_inode i (\<lambda>x. x\<lparr>i_lock := lk\<rparr>)"

definition iinit :: "uint \<Rightarrow> 'z fsst_scheme \<Rightarrow> 'z fsst_scheme res" where
  "iinit dev s =
     bindR (readsb dev (s\<lparr>icache := map (\<lambda>x. x\<lparr>i_lock := initsleeplock\<rparr>) (icache s)\<rparr>))
       (\<lambda>(x, s). Ok (s\<lparr>sb := x\<rparr>))"

definition iget :: "uint \<Rightarrow> uint \<Rightarrow> 'z fsst_scheme \<Rightarrow> (nat \<times> 'z fsst_scheme) res" where
  "iget dev inum s =
     (case scan (\<lambda>x. 0 < i_ref x \<and> i_dev x = dev \<and> i_inum x = inum) (icache s) of
        Some i \<Rightarrow> Ok (i, upd_inode i (\<lambda>x. x\<lparr>i_ref := i_ref x + 1\<rparr>) s)
      | None \<Rightarrow>
          case scan (\<lambda>x. i_ref x = 0) (icache s) of
            None \<Rightarrow> Panic ''iget: no inodes''
          | Some i \<Rightarrow>
              Ok (i, upd_inode i (\<lambda>x. x\<lparr>i_dev := dev, i_inum := inum, i_ref := 1,
                       i_valid := False\<rparr>) s))"

definition idup :: "nat \<Rightarrow> 'z fsst_scheme \<Rightarrow> 'z fsst_scheme" where
  "idup i = upd_inode i (\<lambda>x. x\<lparr>i_ref := i_ref x + 1\<rparr>)"

text \<open>The loop of \<open>ialloc\<close>, from \<open>inum\<close> with \<open>n\<close> inodes to look at.\<close>

fun ialloc_loop :: "nat \<Rightarrow> uint \<Rightarrow> uint \<Rightarrow> ushort \<Rightarrow> 'z fsst_scheme \<Rightarrow> (nat \<times> 'z fsst_scheme) res" where
  "ialloc_loop 0 inum dev type s = Panic ''ialloc: no inodes''"
| "ialloc_loop (Suc n) inum dev type s =
     bindR (bread dev (IBLOCK inum (sb s)) s) (\<lambda>(bp, s).
       let d = b_data (bcache s ! bp) in
       if d_type (dinode_of inum d) = 0 then
         bindR (log_write bp (set_data bp (put_dinode inum
                  \<lparr>d_type = type, d_major = 0, d_minor = 0, d_nlink = 0, d_size = 0,
                   d_addrs = replicate 13 0\<rparr> d) s)) (\<lambda>s.
         bindR (brelse bp s) (\<lambda>s. iget dev inum s))
       else bindR (brelse bp s) (\<lambda>s. ialloc_loop n (inum + 1) dev type s))"

definition ialloc :: "uint \<Rightarrow> ushort \<Rightarrow> 'z fsst_scheme \<Rightarrow> (nat \<times> 'z fsst_scheme) res" where
  "ialloc dev type s = ialloc_loop (unat (sb_ninodes (sb s)) - 1) 1 dev type s"

definition iupdate :: "nat \<Rightarrow> 'z fsst_scheme \<Rightarrow> 'z fsst_scheme res" where
  "iupdate i s =
     (let ip = icache s ! i in
      bindR (bread (i_dev ip) (IBLOCK (i_inum ip) (sb s)) s) (\<lambda>(bp, s).
      bindR (log_write bp (set_data bp (put_dinode (i_inum ip)
               \<lparr>d_type = i_type ip, d_major = i_major ip, d_minor = i_minor ip,
                d_nlink = i_nlink ip, d_size = i_size ip, d_addrs = i_addrs ip\<rparr>
               (b_data (bcache s ! bp))) s)) (\<lambda>s.
        brelse bp s)))"

definition ilock :: "nat \<Rightarrow> 'z fsst_scheme \<Rightarrow> 'z fsst_scheme res" where
  "ilock i s =
     (if i_ref (icache s ! i) < 1 then Panic ''ilock''
      else
        bindR (acquiresleep (get_ilock i) (put_ilock i) s) (\<lambda>s.
          if i_valid (icache s ! i) then Ok s
          else
            let ip = icache s ! i in
            bindR (bread (i_dev ip) (IBLOCK (i_inum ip) (sb s)) s) (\<lambda>(bp, s).
              let di = dinode_of (i_inum ip) (b_data (bcache s ! bp));
                  s = upd_inode i (\<lambda>x. x\<lparr>i_type := d_type di, i_major := d_major di,
                        i_minor := d_minor di, i_nlink := d_nlink di, i_size := d_size di,
                        i_addrs := d_addrs di\<rparr>) s
              in bindR (brelse bp s) (\<lambda>s.
                   let s = upd_inode i (\<lambda>x. x\<lparr>i_valid := True\<rparr>) s in
                   if i_type (icache s ! i) = 0 then Panic ''ilock: no type'' else Ok s))))"

definition iunlock :: "nat \<Rightarrow> 'z fsst_scheme \<Rightarrow> 'z fsst_scheme res" where
  "iunlock i s =
     (if \<not> holdingsleep (i_lock (icache s ! i)) \<or> i_ref (icache s ! i) < 1 then Panic ''iunlock''
      else Ok (releasesleep (put_ilock i) (ChInode i) s))"

fun free_direct :: "nat \<Rightarrow> nat \<Rightarrow> nat \<Rightarrow> 'z fsst_scheme \<Rightarrow> 'z fsst_scheme res" where
  "free_direct 0 k i s = Ok s"
| "free_direct (Suc n) k i s =
     (let ip = icache s ! i in
      bindR (if i_addrs ip ! k \<noteq> 0 then
               bindR (bfree (i_dev ip) (i_addrs ip ! k) s) (\<lambda>s.
                 Ok (upd_inode i (\<lambda>x. x\<lparr>i_addrs := (i_addrs x)[k := 0]\<rparr>) s))
             else Ok s)
        (free_direct n (Suc k) i))"

text \<open>The loop over the entries of the indirect block held in buffer \<open>bp\<close>, from entry \<open>j\<close>.\<close>

fun free_indirect :: "nat \<Rightarrow> nat \<Rightarrow> nat \<Rightarrow> uint \<Rightarrow> 'z fsst_scheme \<Rightarrow> 'z fsst_scheme res" where
  "free_indirect 0 j bp dev s = Ok s"
| "free_indirect (Suc n) j bp dev s =
     (let a = word_at (b_data (bcache s ! bp)) j in
      bindR (if a \<noteq> 0 then bfree dev a s else Ok s) (free_indirect n (Suc j) bp dev))"

definition itrunc :: "nat \<Rightarrow> 'z fsst_scheme \<Rightarrow> 'z fsst_scheme res" where
  "itrunc i s =
     bindR (free_direct NDIRECT 0 i s) (\<lambda>s.
       let ip = icache s ! i; ind = i_addrs ip ! NDIRECT in
       bindR (if ind \<noteq> 0 then
                bindR (bread (i_dev ip) ind s) (\<lambda>(bp, s).
                  bindR (free_indirect NINDIRECT 0 bp (i_dev ip) s) (\<lambda>s.
                  bindR (brelse bp s) (\<lambda>s.
                  bindR (bfree (i_dev ip) ind s) (\<lambda>s.
                    Ok (upd_inode i (\<lambda>x. x\<lparr>i_addrs := (i_addrs x)[NDIRECT := 0]\<rparr>) s)))))
              else Ok s) (\<lambda>s.
         iupdate i (upd_inode i (\<lambda>x. x\<lparr>i_size := 0\<rparr>) s)))"

definition iput :: "nat \<Rightarrow> 'z fsst_scheme \<Rightarrow> 'z fsst_scheme res" where
  "iput i s =
     bindR (acquiresleep (get_ilock i) (put_ilock i) s) (\<lambda>s.
     bindR (if i_valid (icache s ! i) \<and> i_nlink (icache s ! i) = 0 \<and> i_ref (icache s ! i) = 1 then
              bindR (itrunc i s) (\<lambda>s.
              bindR (iupdate i (upd_inode i (\<lambda>x. x\<lparr>i_type := 0\<rparr>) s)) (\<lambda>s.
                Ok (upd_inode i (\<lambda>x. x\<lparr>i_valid := False\<rparr>) s)))
            else Ok s) (\<lambda>s.
       Ok (upd_inode i (\<lambda>x. x\<lparr>i_ref := i_ref x - 1\<rparr>) (releasesleep (put_ilock i) (ChInode i) s))))"

definition iunlockput :: "nat \<Rightarrow> 'z fsst_scheme \<Rightarrow> 'z fsst_scheme res" where
  "iunlockput i s = bindR (iunlock i s) (iput i)"

subsection \<open>The inode cache at boot\<close>

definition inode_boot :: inode where
  "inode_boot = \<lparr>i_dev = 0, i_inum = 0, i_ref = 0, i_lock = \<lparr>sl_locked = 0, sl_pid = 0\<rparr>,
     i_valid = False, i_type = 0, i_major = 0, i_minor = 0, i_nlink = 0, i_size = 0,
     i_addrs = replicate 13 0\<rparr>"

definition fsst_boot :: fsst where
  "fsst_boot = lst.extend lst_boot (fsst.fields
     \<lparr>sb_size = 0, sb_nblocks = 0, sb_ninodes = 0, sb_nlog = 0, sb_logstart = 0, sb_inodestart = 0,
      sb_bmapstart = 0\<rparr> (replicate NINODE inode_boot))"

end
