(* ===== verification/Printf.thy ===== *)
theory Printf
  imports CString
begin

section \<open>Formatted output: console.c and printf.c\<close>

text \<open>
  \<open>cprintf\<close> of the kernel and \<open>printf\<close> of the users produce a sequence of bytes, handed one by
  one to \<open>consputc\<close> or \<open>putc\<close>; the models return it. An argument is a word or a pointer to a
  string, \<open>None\<close> the null pointer; a format that asks for an argument of the other kind, or for
  one that was not passed, reads memory the caller did not supply: \<open>Fault\<close>.
\<close>

datatype carg = AInt uint | AStr "uchar list option"

definition digits_lower :: "uchar list" where
  "digits_lower = [48, 49, 50, 51, 52, 53, 54, 55, 56, 57, 97, 98, 99, 100, 101, 102]"

definition digits_upper :: "uchar list" where
  "digits_upper = [48, 49, 50, 51, 52, 53, 54, 55, 56, 57, 65, 66, 67, 68, 69, 70]"

text \<open>The loop that fills \<^verbatim>\<open>buf\<close>, lowest digit first; every caller passes base 10 or 16.\<close>

function digit_loop :: "uchar list \<Rightarrow> nat \<Rightarrow> nat \<Rightarrow> uchar list" where
  "digit_loop digits base x =
     digits ! (x mod base) #
       (if x div base = 0 \<or> base \<le> 1 then [] else digit_loop digits base (x div base))"
  by pat_completeness auto
termination
  by (relation "measure (\<lambda>(digits, base, x). x)") (auto simp: div_eq_0_iff)

declare digit_loop.simps [simp del]

definition printint :: "uint \<Rightarrow> nat \<Rightarrow> bool \<Rightarrow> uchar list" where
  "printint xx base sign =
     (let neg = (sign \<and> sint xx < 0);
          x = (if neg then - xx else xx);
          buf = digit_loop digits_lower base (unat x) @ (if neg then [45] else [])
      in rev buf)"

text \<open>The null pointer prints as \<^verbatim>\<open>(null)\<close>.\<close>

definition string_of :: "uchar list option \<Rightarrow> uchar list" where
  "string_of s = (case s of None \<Rightarrow> [40, 110, 117, 108, 108, 41] | Some t \<Rightarrow> cstr t)"

text \<open>What a directive prints, and the arguments after it.\<close>

definition directive :: "uchar \<Rightarrow> carg list \<Rightarrow> (uchar list \<times> carg list) res" where
  "directive d args =
     (if d = 100 then
        (case args of AInt v # args \<Rightarrow> Ok (printint v 10 True, args) | _ \<Rightarrow> Fault)
      else if d = 120 \<or> d = 112 then
        (case args of AInt v # args \<Rightarrow> Ok (printint v 16 False, args) | _ \<Rightarrow> Fault)
      else if d = 115 then
        (case args of AStr t # args \<Rightarrow> Ok (string_of t, args) | _ \<Rightarrow> Fault)
      else if d = 37 then Ok ([37], args)
      else Ok ([37, d], args))"

fun cprintf :: "uchar list \<Rightarrow> carg list \<Rightarrow> uchar list res" where
  "cprintf [] args = Ok []"
| "cprintf (c # fmt) args =
     (if c = 0 then Ok []
      else if c \<noteq> 37 then bindR (cprintf fmt args) (\<lambda>r. Ok (c # r))
      else case fmt of
        [] \<Rightarrow> Ok []
      | d # fmt \<Rightarrow>
          if d = 0 then Ok []
          else bindR (directive d args) (\<lambda>(b, args).
               bindR (cprintf fmt args) (\<lambda>r. Ok (b @ r))))"

definition uprintint :: "uint \<Rightarrow> nat \<Rightarrow> bool \<Rightarrow> uchar list" where
  "uprintint xx base sg =
     (let neg = (sg \<and> sint xx < 0);
          x = (if neg then - xx else xx);
          buf = digit_loop digits_upper base (unat x) @ (if neg then [45] else [])
      in rev buf)"

definition udirective :: "uchar \<Rightarrow> carg list \<Rightarrow> (uchar list \<times> carg list) res" where
  "udirective c args =
     (if c = 100 then
        (case args of AInt v # args \<Rightarrow> Ok (uprintint v 10 True, args) | _ \<Rightarrow> Fault)
      else if c = 120 \<or> c = 112 then
        (case args of AInt v # args \<Rightarrow> Ok (uprintint v 16 False, args) | _ \<Rightarrow> Fault)
      else if c = 115 then
        (case args of AStr t # args \<Rightarrow> Ok (string_of t, args) | _ \<Rightarrow> Fault)
      else if c = 99 then
        (case args of AInt v # args \<Rightarrow> Ok ([ucast v], args) | _ \<Rightarrow> Fault)
      else if c = 37 then Ok ([c], args)
      else Ok ([37, c], args))"

text \<open>The flag is the variable \<^verbatim>\<open>state\<close>: true after a percent sign.\<close>

fun printf :: "bool \<Rightarrow> uchar list \<Rightarrow> carg list \<Rightarrow> uchar list res" where
  "printf st [] args = Ok []"
| "printf st (c # fmt) args =
     (if c = 0 then Ok []
      else if \<not> st then
        (if c = 37 then printf True fmt args
         else bindR (printf False fmt args) (\<lambda>r. Ok (c # r)))
      else bindR (udirective c args) (\<lambda>(b, args).
           bindR (printf False fmt args) (\<lambda>r. Ok (b @ r))))"

subsection \<open>Numbers read back\<close>

text \<open>The bytes of a decimal number, lowest digit first, are digits and have its value.\<close>

definition is_digit :: "uchar \<Rightarrow> bool" where
  "is_digit c \<longleftrightarrow> 48 \<le> c \<and> c \<le> 57"

fun value_of :: "uchar list \<Rightarrow> int" where
  "value_of [] = 0"
| "value_of (c # cs) = uint c - 48 + 10 * value_of cs"

lemma digit_table:
  "\<forall>d \<in> set [0..<10]. is_digit (digits_lower ! d) \<and> uint (digits_lower ! d) = int d + 48"
  "take 10 digits_upper = take 10 digits_lower"
  by code_simp+

lemma digit_of:
  assumes "d < 10" "digits = digits_lower \<or> digits = digits_upper"
  shows "is_digit (digits ! d)" "uint (digits ! d) = int d + 48"
proof -
  have "digits ! d = digits_lower ! d"
    using assms digit_table(2) nth_take [of d 10] by metis
  moreover have "d \<in> set [0..<10]" using assms(1) by simp
  ultimately show "is_digit (digits ! d)" "uint (digits ! d) = int d + 48"
    using digit_table(1) by metis+
qed

lemma digit_loop_value:
  assumes "digits = digits_lower \<or> digits = digits_upper"
  shows "list_all is_digit (digit_loop digits 10 x) \<and> value_of (digit_loop digits 10 x) = int x"
proof (induction x rule: less_induct)
  case (less x)
  have d: "is_digit (digits ! (x mod 10))" "uint (digits ! (x mod 10)) = int (x mod 10) + 48"
    using digit_of [OF _ assms, of "x mod 10"] by simp_all
  show ?case
  proof (cases "x div 10 = 0")
    case True
    then show ?thesis using d by (subst (1 2) digit_loop.simps) (simp add: div_eq_0_iff)
  next
    case False
    then have "x div 10 < x" by (simp add: div_eq_0_iff)
    from less [OF this] have "list_all is_digit (digit_loop digits 10 (x div 10))"
      "value_of (digit_loop digits 10 (x div 10)) = int (x div 10)" by simp_all
    then show ?thesis
      using d False by (subst (1 2) digit_loop.simps) (simp add: zdiv_int zmod_int)
  qed
qed

lemma atoi_loop_append:
  "list_all is_digit cs \<Longrightarrow> atoi_loop n (cs @ rest) = atoi_loop (atoi_loop n cs) rest"
  by (induction cs arbitrary: n) (auto simp: is_digit_def)

lemma atoi_loop_value:
  "list_all is_digit cs \<Longrightarrow> atoi_loop n (rev cs) = n * 10 ^ length cs + of_int (value_of cs)"
proof (induction cs arbitrary: n)
  case (Cons c cs)
  then have "atoi_loop n (rev cs @ [c]) = atoi_loop (atoi_loop n (rev cs)) [c]"
    by (intro atoi_loop_append) simp
  moreover have "(ucast c :: uint) = of_int (uint c)" by (simp add: unsigned_ucast_eq)
  ultimately show ?case using Cons by (simp add: is_digit_def algebra_simps)
qed simp

lemma atoi_digits:
  assumes "digits = digits_lower \<or> digits = digits_upper"
  shows "atoi (rev (digit_loop digits 10 (unat x))) = x"
  using digit_loop_value [OF assms, of "unat x"] by (simp add: atoi_def atoi_loop_value)

lemma unat_abs_sint: "unat (if sint v < 0 then - v else v) = nat \<bar>sint v\<bar>" for v :: uint
proof -
  have r: "- 2147483648 \<le> sint v" "sint v < 2147483648"
    using sint_greater_eq [of v] sint_lt [of v] by simp_all
  have u: "uint v = sint v mod 4294967296" by (simp add: uint_sint take_bit_eq_mod)
  have "uint (if sint v < 0 then - v else v) = \<bar>sint v\<bar>"
  proof (cases "sint v < 0")
    case True
    then have "(sint v + 4294967296) mod 4294967296 = sint v + 4294967296"
      using r by (intro mod_pos_pos_trivial) simp_all
    then have "uint v = sint v + 4294967296" unfolding u by (simp only: mod_add_self2)
    moreover have "uint (- v) = (- uint v) mod 4294967296" by (simp add: uint_word_ariths)
    moreover have "- (sint v + 4294967296) = - sint v - 4294967296" by linarith
    ultimately have "uint (- v) = (- sint v) mod 4294967296" by (simp only: minus_mod_self2)
    also have "\<dots> = - sint v" using True r by (intro mod_pos_pos_trivial) linarith+
    finally show ?thesis using True by simp
  next
    case False
    then have "uint v = sint v" unfolding u using r by (intro mod_pos_pos_trivial) linarith+
    with False show ?thesis by simp
  qed
  then show ?thesis by (simp add: unat_eq_nat_uint)
qed

text \<open>
  C6. Printing a number and reading it back: for every machine integer, what \<^verbatim>\<open>\%d\<close> prints, in the
  kernel and in user programs, is a minus sign exactly if it is negative and then the decimal
  numeral of its absolute value; \<open>atoi\<close> of the numeral, negated after a minus sign, is the integer
  again, \<^verbatim>\<open>INT_MIN\<close> included, whose negation overflows.
\<close>

theorem printint_atoi:
  "printint v 10 True = (if sint v < 0 then [45] else []) @ rev (digit_loop digits_lower 10 (nat \<bar>sint v\<bar>)) \<and>
   v = (if sint v < 0 then - atoi (tl (printint v 10 True)) else atoi (printint v 10 True)) \<and>
   v = (if sint v < 0 then - atoi (tl (uprintint v 10 True)) else atoi (uprintint v 10 True))"
proof -
  let ?x = "if sint v < 0 then - v else v"
  have "printint v 10 True = (if sint v < 0 then [45] else []) @ rev (digit_loop digits_lower 10 (unat ?x))"
    "uprintint v 10 True = (if sint v < 0 then [45] else []) @ rev (digit_loop digits_upper 10 (unat ?x))"
    by (auto simp: printint_def uprintint_def Let_def)
  moreover have "atoi (rev (digit_loop digits_lower 10 (unat ?x))) = ?x"
    "atoi (rev (digit_loop digits_upper 10 (unat ?x))) = ?x"
    by (simp_all only: atoi_digits simp_thms)
  ultimately show ?thesis by (auto simp: unat_abs_sint [symmetric])
qed

end
