(* ===== verification/Console.thy ===== *)
theory Console
  imports Inode Printf
begin

section \<open>The console: console.c, uart.c and kbd.c\<close>

text \<open>
  \<open>crt\<close> is the text memory of the display and \<open>crt_pos\<close> the cursor kept in its registers;
  \<open>uart_out\<close> are the bytes sent to the serial port, latest last, if there is one. The input ring
  has the three counters of the source, which grow without bound and wrap at 32 bits.

  An interrupt delivers the characters its \<^verbatim>\<open>getc\<close> returns until it has none; they are a list.
\<close>

record cst = fsst +
  crt :: "nat \<Rightarrow> ushort"
  crt_pos :: int
  uart_on :: bool
  uart_out :: "uchar list"
  input_buf :: "uchar list"
  input_r :: uint
  input_w :: uint
  input_e :: uint
  cons_devsw :: bool
  kbd_shift :: uint

abbreviation (input) INPUT_BUF :: nat where "INPUT_BUF \<equiv> 128"

text \<open>The character \<^verbatim>\<open>BACKSPACE\<close> is outside the range of a byte.\<close>

datatype outch = Ch uchar | BackSpace

text \<open>At the last line everything moves up by one.\<close>

definition crt_scroll :: "int \<Rightarrow> (nat \<Rightarrow> ushort) \<Rightarrow> int \<times> (nat \<Rightarrow> ushort)" where
  "crt_scroll pos m =
     (if 24 \<le> pos div 80
      then let m = (\<lambda>i. if i < 23 * 80 then m (i + 80) else m i); pos = pos - 80
           in (pos, \<lambda>i. if nat pos \<le> i \<and> i < 24 * 80 then 0 else m i)
      else (pos, m))"

definition cgaputc :: "outch \<Rightarrow> 'z cst_scheme \<Rightarrow> 'z cst_scheme res" where
  "cgaputc c s =
     (let pos = crt_pos s;
          (pos, m) = (case c of
             BackSpace \<Rightarrow> (if 0 < pos then pos - 1 else pos, crt s)
           | Ch b \<Rightarrow> if b = 10 then (pos + (80 - pos mod 80), crt s)
                    else (pos + 1, (crt s)(nat pos := ucast b OR 0x0700)))
      in if pos < 0 \<or> 25 * 80 < pos then Panic ''pos under/overflow''
         else let (pos, m) = crt_scroll pos m
              in Ok (s\<lparr>crt_pos := pos, crt := m(nat pos := 0x20 OR 0x0700)\<rparr>))"

definition uartputc :: "uchar \<Rightarrow> 'z cst_scheme \<Rightarrow> 'z cst_scheme" where
  "uartputc c s = (if uart_on s then s\<lparr>uart_out := uart_out s @ [c]\<rparr> else s)"

definition consputc :: "outch \<Rightarrow> 'z cst_scheme \<Rightarrow> 'z cst_scheme res" where
  "consputc c s =
     cgaputc c (case c of BackSpace \<Rightarrow> uartputc 8 (uartputc 32 (uartputc 8 s)) | Ch b \<Rightarrow> uartputc b s)"

fun consputs :: "uchar list \<Rightarrow> 'z cst_scheme \<Rightarrow> 'z cst_scheme res" where
  "consputs [] s = Ok s"
| "consputs (c # cs) s = bindR (consputc (Ch c) s) (consputs cs)"

definition kprintf :: "string \<Rightarrow> carg list \<Rightarrow> 'z cst_scheme \<Rightarrow> 'z cst_scheme res" where
  "kprintf fmt args s = bindR (cprintf (str fmt) args) (\<lambda>out. consputs out s)"

subsection \<open>The process listing\<close>

text \<open>At most \<open>n\<close> return addresses of the stack whose frame pointer is \<open>ebp\<close>.\<close>

fun callerpcs :: "nat \<Rightarrow> uint \<Rightarrow> (uint \<Rightarrow> uchar) \<Rightarrow> uint list" where
  "callerpcs 0 ebp m = []"
| "callerpcs (Suc n) ebp m =
     (if ebp = 0 \<or> ebp < KERNBASE \<or> ebp = 0xFFFFFFFF then []
      else load32 m (ebp + 4) # callerpcs n (load32 m ebp) m)"

definition getcallerpcs :: "uint \<Rightarrow> (uint \<Rightarrow> uchar) \<Rightarrow> uint list" where
  "getcallerpcs v m = (let pcs = callerpcs 10 (v - 8) m in pcs @ replicate (10 - length pcs) 0)"

fun state_name :: "procstate \<Rightarrow> uchar list" where
  "state_name UNUSED = str ''unused''"
| "state_name EMBRYO = str ''embryo''"
| "state_name SLEEPING = str ''sleep ''"
| "state_name RUNNABLE = str ''runble''"
| "state_name RUNNING = str ''run   ''"
| "state_name ZOMBIE = str ''zombie''"

fun print_pcs :: "uint list \<Rightarrow> 'z cst_scheme \<Rightarrow> 'z cst_scheme res" where
  "print_pcs [] s = Ok s"
| "print_pcs (pc # pcs) s =
     (if pc = 0 then Ok s else bindR (kprintf '' %p'' [AInt pc] s) (print_pcs pcs))"

fun procdump_loop :: "proc list \<Rightarrow> 'z cst_scheme \<Rightarrow> 'z cst_scheme res" where
  "procdump_loop [] s = Ok s"
| "procdump_loop (p # ps) s =
     bindR (if p_state p = UNUSED then Ok s
            else
              bindR (kprintf ''%d %s %s''
                [AInt (of_int (p_pid p)), AStr (Some (state_name (p_state p))), AStr (Some (p_name p))] s) (\<lambda>s.
              bindR (if p_state p = SLEEPING
                     then print_pcs (getcallerpcs (load32 (k_mem s) (p_context p + 12) + 8) (k_mem s)) s
                     else Ok s)
                (consputs [10])))
       (procdump_loop ps)"

definition procdump :: "'z cst_scheme \<Rightarrow> 'z cst_scheme res" where
  "procdump s = procdump_loop (procs s) s"

subsection \<open>Input\<close>

definition ring :: "uint \<Rightarrow> nat" where
  "ring i = unat (i mod of_nat INPUT_BUF)"

text \<open>The loop that erases a line; \<open>n\<close> is \<^verbatim>\<open>input.e - input.w\<close>, zero when the two meet.\<close>

fun kill_line :: "nat \<Rightarrow> 'z cst_scheme \<Rightarrow> 'z cst_scheme res" where
  "kill_line 0 s = Ok s"
| "kill_line (Suc n) s =
     (if input_buf s ! ring (input_e s - 1) \<noteq> 10
      then bindR (consputc BackSpace (s\<lparr>input_e := input_e s - 1\<rparr>)) (kill_line n)
      else Ok s)"

text \<open>One character; \<open>c\<close> is never negative here, and only its low byte is stored.\<close>

definition cons_char :: "uint \<Rightarrow> 'z cst_scheme \<Rightarrow> 'z cst_scheme res" where
  "cons_char c s =
     (if c = 16 then Ok s
      else if c = 21 then kill_line (unat (input_e s - input_w s)) s
      else if c = 8 \<or> c = 127 then
        (if input_e s \<noteq> input_w s then consputc BackSpace (s\<lparr>input_e := input_e s - 1\<rparr>) else Ok s)
      else if c \<noteq> 0 \<and> input_e s - input_r s < of_nat INPUT_BUF then
        let c = (if c = 13 then 10 else c);
            s = s\<lparr>input_buf := (input_buf s)[ring (input_e s) := ucast c], input_e := input_e s + 1\<rparr>
        in bindR (consputc (Ch (ucast c)) s) (\<lambda>s.
             if c = 10 \<or> c = 4 \<or> input_e s = input_r s + of_nat INPUT_BUF
             then Ok (wakeup ChInput (s\<lparr>input_w := input_e s\<rparr>)) else Ok s)
      else Ok s)"

fun cons_chars :: "uint list \<Rightarrow> 'z cst_scheme \<Rightarrow> 'z cst_scheme res" where
  "cons_chars [] s = Ok s"
| "cons_chars (c # cs) s = bindR (cons_char c s) (cons_chars cs)"

definition consoleintr :: "uint list \<Rightarrow> 'z cst_scheme \<Rightarrow> 'z cst_scheme res" where
  "consoleintr cs s = bindR (cons_chars cs s) (\<lambda>s. if 16 \<in> set cs then procdump s else Ok s)"

text \<open>
  The loop of \<open>consoleread\<close> with \<open>n\<close> bytes still wanted and \<open>acc\<close> stored so far: it ends,
  finds the process killed, or has to sleep for more input.
\<close>

datatype rd = RdDone "uchar list" | RdKilled "uchar list" | RdWait nat "uchar list"

fun cread_loop :: "nat \<Rightarrow> nat \<Rightarrow> uchar list \<Rightarrow> 'z cst_scheme \<Rightarrow> (rd \<times> 'z cst_scheme) res" where
  "cread_loop 0 target acc s = Ok (RdDone acc, s)"
| "cread_loop (Suc n) target acc s =
     (if input_r s = input_w s then
        myproc (\<lambda>p s. Ok (if p_killed (procs s ! p) \<noteq> 0 then RdKilled acc else RdWait (Suc n) acc, s)) s
      else
        let c = input_buf s ! ring (input_r s); s = s\<lparr>input_r := input_r s + 1\<rparr> in
        if c = 4 then
          Ok (RdDone acc, if Suc n < target then s\<lparr>input_r := input_r s - 1\<rparr> else s)
        else if c = 10 then Ok (RdDone (acc @ [c]), s)
        else cread_loop n target (acc @ [c]) s)"

definition cread_finish :: "nat \<Rightarrow> (rd \<times> 'z cst_scheme) \<Rightarrow> ((int \<times> uchar list) outcome \<times> nat \<times> uchar list \<times> 'z cst_scheme) res" where
  "cread_finish ip r =
     (case r of
        (RdDone acc, s) \<Rightarrow>
          bindR (ilock ip s) (\<lambda>s. Ok (Done (int (length acc), acc), 0, [], s))
      | (RdKilled acc, s) \<Rightarrow> bindR (ilock ip s) (\<lambda>s. Ok (Done (- 1, acc), 0, [], s))
      | (RdWait n acc, s) \<Rightarrow> bindR (sleep ChInput s) (\<lambda>s. Ok (Asleep, n, acc, s)))"

definition consoleread :: "nat \<Rightarrow> int \<Rightarrow> 'z cst_scheme \<Rightarrow>
    ((int \<times> uchar list) outcome \<times> nat \<times> uchar list \<times> 'z cst_scheme) res" where
  "consoleread ip n s =
     bindR (iunlock ip s) (\<lambda>s.
     bindR (cread_loop (nat n) (nat n) [] s) (cread_finish ip))"

text \<open>Woken with \<open>n\<close> bytes still wanted, out of \<open>target\<close>.\<close>

definition consoleread_resume :: "nat \<Rightarrow> nat \<Rightarrow> nat \<Rightarrow> uchar list \<Rightarrow> 'z cst_scheme \<Rightarrow>
    ((int \<times> uchar list) outcome \<times> nat \<times> uchar list \<times> 'z cst_scheme) res" where
  "consoleread_resume ip n target acc s =
     bindR (awake s) (\<lambda>s. bindR (cread_loop n target acc s) (cread_finish ip))"

definition consolewrite :: "nat \<Rightarrow> uchar list \<Rightarrow> 'z cst_scheme \<Rightarrow> (int \<times> 'z cst_scheme) res" where
  "consolewrite ip buf s =
     bindR (iunlock ip s) (\<lambda>s.
     bindR (consputs buf s) (\<lambda>s.
     bindR (ilock ip s) (\<lambda>s. Ok (int (length buf), s))))"

definition consoleinit :: "'z cst_scheme \<Rightarrow> 'z cst_scheme" where
  "consoleinit s = s\<lparr>cons_devsw := True\<rparr>"

subsection \<open>The serial port\<close>

text \<open>\<open>status\<close> is what the line status register reads; the other registers only configure.\<close>

definition uartinit :: "uchar \<Rightarrow> 'z cst_scheme \<Rightarrow> 'z cst_scheme" where
  "uartinit status s =
     (if status = 0xFF then s else fold uartputc (str ''xv6...'' @ [10]) (s\<lparr>uart_on := True\<rparr>))"

text \<open>\<open>rx\<close> are the bytes the port has received.\<close>

definition uartintr :: "uchar list \<Rightarrow> 'z cst_scheme \<Rightarrow> 'z cst_scheme res" where
  "uartintr rx s = consoleintr (if uart_on s then map ucast rx else []) s"

subsection \<open>The keyboard\<close>

text \<open>An array of 256 bytes, given by its first entries and by designated ones.\<close>

definition table :: "uchar list \<Rightarrow> (nat \<times> uchar) list \<Rightarrow> nat \<Rightarrow> uchar" where
  "table xs ds i =
     (case map_of ds i of Some v \<Rightarrow> v | None \<Rightarrow> if i < length xs then xs ! i else 0)"

abbreviation (input) SHIFT :: uchar where "SHIFT \<equiv> 1"
abbreviation (input) CTL :: uchar where "CTL \<equiv> 2"
abbreviation (input) ALT :: uchar where "ALT \<equiv> 4"
abbreviation (input) CAPSLOCK :: uchar where "CAPSLOCK \<equiv> 8"
abbreviation (input) NUMLOCK :: uchar where "NUMLOCK \<equiv> 16"
abbreviation (input) SCROLLLOCK :: uchar where "SCROLLLOCK \<equiv> 32"
abbreviation (input) E0ESC :: uint where "E0ESC \<equiv> 64"

definition shiftcode :: "nat \<Rightarrow> uchar" where
  "shiftcode = table [] [(0x1D, CTL), (0x2A, SHIFT), (0x36, SHIFT), (0x38, ALT), (0x9D, CTL), (0xB8, ALT)]"

definition togglecode :: "nat \<Rightarrow> uchar" where
  "togglecode = table [] [(0x3A, CAPSLOCK), (0x45, NUMLOCK), (0x46, SCROLLLOCK)]"

definition special_keys :: "(nat \<times> uchar) list" where
  "special_keys =
     [(0xC8, 0xE2), (0xD0, 0xE3), (0xC9, 0xE6), (0xD1, 0xE7), (0xCB, 0xE4), (0xCD, 0xE5),
      (0x97, 0xE0), (0xCF, 0xE1), (0xD2, 0xE8), (0xD3, 0xE9)]"

definition normalmap :: "nat \<Rightarrow> uchar" where
  "normalmap = table
     ([0, 0x1B] @ str ''1234567890-='' @ [8, 9] @ str ''qwertyuiop[]'' @ [10, 0] @
      str ''asdfghjkl;'' @ [39, 96, 0, 92] @ str ''zxcvbnm,./'' @ [0] @ str ''*'' @
      [0] @ str '' '' @ replicate 13 0 @ str ''789-456+1230.'')
     ((0x9C, 10) # (0xB5, 47) # special_keys)"

definition shiftmap :: "nat \<Rightarrow> uchar" where
  "shiftmap = table
     ([0, 0x1B] @ str ''!@#$%^&*()_+'' @ [8, 9] @ str ''QWERTYUIOP{}'' @ [10, 0] @
      str ''ASDFGHJKL:'' @ [34, 126, 0, 124] @ str ''ZXCVBNM<>?'' @ [0] @ str ''*'' @
      [0] @ str '' '' @ replicate 13 0 @ str ''789-456+1230.'')
     ((0x9C, 10) # (0xB5, 47) # special_keys)"

text \<open>\<^verbatim>\<open>C(x)\<close> is \<^verbatim>\<open>x - '@'\<close>, stored in a byte.\<close>

definition ctl :: "string \<Rightarrow> uchar list" where
  "ctl cs = map (\<lambda>c. c - 64) (str cs)"

definition ctlmap :: "nat \<Rightarrow> uchar" where
  "ctlmap = table
     (replicate 16 0 @ ctl ''QWERTYUIOP'' @ [0, 0, 13, 0] @ ctl ''ASDFGHJKL'' @ [0, 0, 0, 0, 92 - 64] @
      ctl ''ZXCVBNM'' @ [0, 0] @ ctl ''/'')
     ((0x9C, 13) # (0xB5, 47 - 64) # special_keys)"

text \<open>\<open>data\<close> is the byte in the controller, if it has one; \<open>None\<close> is the result \<open>-1\<close>.\<close>

definition kbdgetc :: "uchar option \<Rightarrow> uint \<Rightarrow> uint option \<times> uint" where
  "kbdgetc data shift =
     (case data of
        None \<Rightarrow> (None, shift)
      | Some b \<Rightarrow>
          let d = (ucast b :: uint) in
          if d = 0xE0 then (Some 0, shift OR E0ESC)
          else if d AND 0x80 \<noteq> 0 then
            let d = (if shift AND E0ESC \<noteq> 0 then d else d AND 0x7F)
            in (Some 0, shift AND NOT (ucast (shiftcode (unat d)) OR E0ESC))
          else
            let (d, shift) = (if shift AND E0ESC \<noteq> 0 then (d OR 0x80, shift AND NOT E0ESC) else (d, shift));
                shift = shift OR ucast (shiftcode (unat d));
                shift = shift XOR ucast (togglecode (unat d));
                m = (if shift AND 3 = 0 then normalmap else if shift AND 3 = 1 then shiftmap else ctlmap);
                c = (ucast (m (unat d)) :: uint);
                c = (if shift AND ucast CAPSLOCK \<noteq> 0
                     then if 97 \<le> c \<and> c \<le> 122 then c + 65 - 97
                          else if 65 \<le> c \<and> c \<le> 90 then c + 97 - 65 else c
                     else c)
            in (Some c, shift))"

text \<open>The bytes the controller holds, read until it is empty.\<close>

fun kbd_chars :: "uchar list \<Rightarrow> uint \<Rightarrow> uint list \<times> uint" where
  "kbd_chars [] shift = ([], snd (kbdgetc None shift))"
| "kbd_chars (b # bs) shift =
     (case kbdgetc (Some b) shift of
        (None, shift) \<Rightarrow> ([], shift)
      | (Some c, shift) \<Rightarrow> let (cs, shift) = kbd_chars bs shift in (c # cs, shift))"

definition kbdintr :: "uchar list \<Rightarrow> 'z cst_scheme \<Rightarrow> 'z cst_scheme res" where
  "kbdintr data s =
     (let (cs, shift) = kbd_chars data (kbd_shift s) in consoleintr cs (s\<lparr>kbd_shift := shift\<rparr>))"

subsection \<open>The console at boot\<close>

definition cst_boot :: cst where
  "cst_boot = fsst.extend fsst_boot
     (cst.fields (\<lambda>_. 0) 0 False [] (replicate INPUT_BUF 0) 0 0 0 False 0)"

end
