(* ===== verification/Fs.thy ===== *)
theory Fs
  imports Console
begin

section \<open>File contents, directories and path names: the upper half of fs.c\<close>

text \<open>
  \<open>readi\<close> returns the bytes it stores through its destination pointer, \<open>writei\<close> takes the
  bytes of its source. On a device they call the console's functions; a read that has to wait for
  input ends the run with \<open>Block\<close>. \<open>poff\<close> of \<open>dirlookup\<close> is part of its result.
\<close>

definition bmap :: "nat \<Rightarrow> uint \<Rightarrow> 'z fsst_scheme \<Rightarrow> (uint \<times> 'z fsst_scheme) res" where
  "bmap i bn s =
     (if bn < of_nat NDIRECT then
        (let addr = i_addrs (icache s ! i) ! unat bn in
         if addr = 0 then
           bindR (balloc (i_dev (icache s ! i)) s) (\<lambda>(addr, s).
             Ok (addr, upd_inode i (\<lambda>x. x\<lparr>i_addrs := (i_addrs x)[unat bn := addr]\<rparr>) s))
         else Ok (addr, s))
      else
        let bn = bn - of_nat NDIRECT in
        if bn < of_nat NINDIRECT then
          bindR (let addr = i_addrs (icache s ! i) ! NDIRECT in
                 if addr = 0 then
                   bindR (balloc (i_dev (icache s ! i)) s) (\<lambda>(addr, s).
                     Ok (addr, upd_inode i (\<lambda>x. x\<lparr>i_addrs := (i_addrs x)[NDIRECT := addr]\<rparr>) s))
                 else Ok (addr, s)) (\<lambda>(addr, s).
          bindR (bread (i_dev (icache s ! i)) addr s) (\<lambda>(bp, s).
            let addr = word_at (b_data (bcache s ! bp)) (unat bn) in
            if addr = 0 then
              bindR (balloc (i_dev (icache s ! i)) s) (\<lambda>(addr, s).
              bindR (log_write bp (set_data bp
                       (splice (4 * unat bn) (le32 addr) (b_data (bcache s ! bp))) s)) (\<lambda>s.
              bindR (brelse bp s) (\<lambda>s. Ok (addr, s))))
            else bindR (brelse bp s) (\<lambda>s. Ok (addr, s))))
        else Panic ''bmap: out of range'')"

text \<open>The bytes of a \<^verbatim>\<open>struct stat\<close>, with the padding the compiler inserts after a \<^verbatim>\<open>short\<close>.\<close>

definition stati :: "nat \<Rightarrow> 'z fsst_scheme \<Rightarrow> uchar list" where
  "stati i s =
     (let ip = icache s ! i in
      le16 (i_type ip) @ [0, 0] @ le32 (i_dev ip) @ le32 (i_inum ip) @ le16 (i_nlink ip) @ [0, 0]
        @ le32 (i_size ip))"

text \<open>The bytes of a block a transfer of at most \<open>n\<close> from offset \<open>off\<close> touches.\<close>

definition chunk :: "uint \<Rightarrow> uint \<Rightarrow> uint" where
  "chunk n off = min n (of_nat BSIZE - off mod of_nat BSIZE)"

lemma chunk_pos: "n \<noteq> 0 \<Longrightarrow> 0 < unat (chunk n off) \<and> chunk n off \<le> n"
proof -
  assume n: "n \<noteq> 0"
  have "unat (off mod 512) < 512" by (simp add: unat_mod)
  then have "off mod 512 \<le> 512" "unat (512 - off mod 512) = 512 - unat (off mod 512)"
    by (simp_all add: word_le_nat_alt unat_sub)
  then have "0 < unat (512 - off mod 512)" using \<open>unat (off mod 512) < 512\<close> by simp
  with n show ?thesis by (auto simp: chunk_def min_def unat_gt_0)
qed

function readi_loop :: "nat \<Rightarrow> uint \<Rightarrow> uint \<Rightarrow> 'z fsst_scheme \<Rightarrow> (uchar list \<times> 'z fsst_scheme) res" where
  "readi_loop i off n s =
     (if n = 0 then Ok ([], s)
      else
        bindR (bmap i (off div of_nat BSIZE) s) (\<lambda>(addr, s).
        bindR (bread (i_dev (icache s ! i)) addr s) (\<lambda>(bp, s).
          let m = chunk n off;
              bytes = slice (unat (off mod of_nat BSIZE)) (unat m) (b_data (bcache s ! bp))
          in bindR (brelse bp s) (\<lambda>s.
             bindR (readi_loop i (off + m) (n - m) s) (\<lambda>(rest, s). Ok (bytes @ rest, s))))))"
  by pat_completeness auto
termination
proof (relation "measure (\<lambda>(i, off, n, s). unat n)")
  fix i :: nat and off n m :: uint and s s' :: "'z fsst_scheme"
  assume "n \<noteq> 0" "m = chunk n off"
  with chunk_pos [of n off] show "((i, off + m, n - m, s'), i, off, n, s)
      \<in> measure (\<lambda>(i, off, n, s). unat n)"
    by (simp add: unat_sub word_le_nat_alt)
qed simp

declare readi_loop.simps [simp del]

definition is_dev :: "nat \<Rightarrow> 'z fsst_scheme \<Rightarrow> bool" where
  "is_dev i s \<longleftrightarrow> i_type (icache s ! i) = T_DEV"

text \<open>The console is the only device that registers functions, under major number 1.\<close>

definition has_devsw :: "nat \<Rightarrow> 'z cst_scheme \<Rightarrow> bool" where
  "has_devsw i s \<longleftrightarrow> i_major (icache s ! i) = 1 \<and> cons_devsw s"

definition readi :: "nat \<Rightarrow> uint \<Rightarrow> uint \<Rightarrow> 'z cst_scheme \<Rightarrow> (int \<times> uchar list \<times> 'z cst_scheme) res" where
  "readi i off n s =
     (if is_dev i s then
        (if \<not> has_devsw i s then Ok (- 1, [], s)
         else bindR (consoleread i (sint n) s) (\<lambda>(r, _, _, s).
           case r of Done (k, bytes) \<Rightarrow> Ok (k, bytes, s) | Asleep \<Rightarrow> Block))
      else if i_size (icache s ! i) < off \<or> off + n < off then Ok (- 1, [], s)
      else
        let n = (if i_size (icache s ! i) < off + n then i_size (icache s ! i) - off else n)
        in bindR (readi_loop i off n s) (\<lambda>(bytes, s). Ok (sint n, bytes, s)))"

function writei_loop :: "nat \<Rightarrow> uint \<Rightarrow> uchar list \<Rightarrow> 'z fsst_scheme \<Rightarrow> (uint \<times> 'z fsst_scheme) res" where
  "writei_loop i off src s =
     (if src = [] then Ok (off, s)
      else
        bindR (bmap i (off div of_nat BSIZE) s) (\<lambda>(addr, s).
        bindR (bread (i_dev (icache s ! i)) addr s) (\<lambda>(bp, s).
          let m = min (length src) (BSIZE - unat (off mod of_nat BSIZE)) in
          bindR (log_write bp (set_data bp
                   (splice (unat (off mod of_nat BSIZE)) (take m src) (b_data (bcache s ! bp))) s)) (\<lambda>s.
          bindR (brelse bp s) (\<lambda>s.
            writei_loop i (off + of_nat m) (drop m src) s)))))"
  by pat_completeness auto
termination
proof (relation "measure (\<lambda>(i, off, src, s). length src)")
  fix i m :: nat and off :: uint and src :: "uchar list" and s s' :: "'z fsst_scheme"
  assume "src \<noteq> []" "m = min (length src) (BSIZE - unat (off mod of_nat BSIZE))"
  moreover have "unat (off mod of_nat BSIZE) < 512" by (simp add: unat_mod)
  ultimately show "((i, off + of_nat m, drop m src, s'), i, off, src, s)
      \<in> measure (\<lambda>(i, off, src, s). length src)"
    by (auto simp: min_def)
qed simp

declare writei_loop.simps [simp del]

definition writei :: "nat \<Rightarrow> uchar list \<Rightarrow> uint \<Rightarrow> 'z cst_scheme \<Rightarrow> (int \<times> 'z cst_scheme) res" where
  "writei i src off s =
     (if is_dev i s then
        (if \<not> has_devsw i s then Ok (- 1, s) else consolewrite i src s)
      else
        let n = of_nat (length src) in
        if i_size (icache s ! i) < off \<or> off + n < off then Ok (- 1, s)
        else if of_nat (MAXFILE * BSIZE) < off + n then Ok (- 1, s)
        else
          bindR (writei_loop i off src s) (\<lambda>(off, s).
          bindR (if 0 < n \<and> i_size (icache s ! i) < off
                 then iupdate i (upd_inode i (\<lambda>x. x\<lparr>i_size := off\<rparr>) s) else Ok s) (\<lambda>s.
            Ok (sint n, s))))"

subsection \<open>Directories\<close>

abbreviation (input) DIRSIZ :: nat where "DIRSIZ \<equiv> 14"

definition namecmp :: "uchar list \<Rightarrow> uchar list \<Rightarrow> int" where
  "namecmp a b = strncmp a b DIRSIZ"

text \<open>
  The scans run over the offsets below the size in steps of 16, a \<^verbatim>\<open>struct dirent\<close>: a number of
  two bytes and a name of 14. An offset that wraps would make them endless.
\<close>

function dirlookup_loop :: "nat \<Rightarrow> uchar list \<Rightarrow> uint \<Rightarrow> 'z cst_scheme \<Rightarrow>
    ((nat \<times> uint) option \<times> 'z cst_scheme) res" where
  "dirlookup_loop dp name off s =
     (if off < i_size (icache s ! dp) then
        bindR (readi dp off 16 s) (\<lambda>(r, de, s).
          if r \<noteq> 16 then Panic ''dirlookup read''
          else
            let inum = of_le16 (slice 0 2 de) in
            if inum \<noteq> 0 \<and> namecmp name (slice 2 DIRSIZ de) = 0 then
              bindR (iget (i_dev (icache s ! dp)) (ucast inum) s) (\<lambda>(i, s). Ok (Some (i, off), s))
            else if off < off + 16 then dirlookup_loop dp name (off + 16) s
            else Diverge)
      else Ok (None, s))"
  by pat_completeness auto
termination
proof (relation "measure (\<lambda>(dp, name, off, s). 4294967296 - unat off)")
  fix dp :: nat and name :: "uchar list" and off :: uint and s s' :: "'z cst_scheme"
  assume "off < off + 16"
  then show "((dp, name, off + 16, s'), dp, name, off, s)
      \<in> measure (\<lambda>(dp, name, off, s). 4294967296 - unat off)"
    using unat_lt32 [of off] by (simp add: word_less_nat_alt)
qed simp

declare dirlookup_loop.simps [simp del]

definition dirlookup :: "nat \<Rightarrow> uchar list \<Rightarrow> 'z cst_scheme \<Rightarrow>
    ((nat \<times> uint) option \<times> 'z cst_scheme) res" where
  "dirlookup dp name s =
     (if i_type (icache s ! dp) \<noteq> T_DIR then Panic ''dirlookup not DIR''
      else dirlookup_loop dp name 0 s)"

function empty_dirent :: "nat \<Rightarrow> uint \<Rightarrow> 'z cst_scheme \<Rightarrow> (uint \<times> 'z cst_scheme) res" where
  "empty_dirent dp off s =
     (if off < i_size (icache s ! dp) then
        bindR (readi dp off 16 s) (\<lambda>(r, de, s).
          if r \<noteq> 16 then Panic ''dirlink read''
          else if of_le16 (slice 0 2 de) = 0 then Ok (off, s)
          else if off < off + 16 then empty_dirent dp (off + 16) s
          else Diverge)
      else Ok (off, s))"
  by pat_completeness auto
termination
proof (relation "measure (\<lambda>(dp, off, s). 4294967296 - unat off)")
  fix dp :: nat and off :: uint and s s' :: "'z cst_scheme"
  assume "off < off + 16"
  then show "((dp, off + 16, s'), dp, off, s)
      \<in> measure (\<lambda>(dp, off, s). 4294967296 - unat off)"
    using unat_lt32 [of off] by (simp add: word_less_nat_alt)
qed simp

declare empty_dirent.simps [simp del]

definition dirlink :: "nat \<Rightarrow> uchar list \<Rightarrow> uint \<Rightarrow> 'z cst_scheme \<Rightarrow> (int \<times> 'z cst_scheme) res" where
  "dirlink dp name inum s =
     bindR (dirlookup dp name s) (\<lambda>(r, s).
       case r of
         Some (i, _) \<Rightarrow> bindR (iput i s) (\<lambda>s. Ok (- 1, s))
       | None \<Rightarrow>
           bindR (empty_dirent dp 0 s) (\<lambda>(off, s).
           bindR (writei dp (le16 (ucast inum) @ strncpy_w name DIRSIZ) off s) (\<lambda>(k, s).
             if k \<noteq> 16 then Panic ''dirlink'' else Ok (0, s))))"

subsection \<open>Path names\<close>

text \<open>\<open>skipelem\<close> returns the rest of the path and the new contents of the name buffer.\<close>

definition skipelem :: "uchar list \<Rightarrow> uchar list \<Rightarrow> (uchar list \<times> uchar list) option" where
  "skipelem path name =
     (let path = dropWhile (\<lambda>c. c = 47) path in
      if hd0 path = 0 then None
      else
        let elem = takeWhile (\<lambda>c. c \<noteq> 47 \<and> c \<noteq> 0) path;
            path = dropWhile (\<lambda>c. c \<noteq> 47 \<and> c \<noteq> 0) path;
            name = (if DIRSIZ \<le> length elem then take DIRSIZ elem
                    else elem @ [0] @ drop (length elem + 1) name)
        in Some (dropWhile (\<lambda>c. c = 47) path, name))"

lemma skipelem_shorter:
  assumes "skipelem path name = Some (path', name')"
  shows "length path' < length path"
proof -
  let ?p = "dropWhile (\<lambda>c. c = 47) path"
  have h: "hd0 ?p \<noteq> 0" and e: "path' = dropWhile (\<lambda>c. c = 47) (dropWhile (\<lambda>c. c \<noteq> 47 \<and> c \<noteq> 0) ?p)"
    using assms by (auto simp: skipelem_def Let_def split: if_splits)
  obtain c q where cq: "?p = c # q" using h by (cases ?p) auto
  have "c \<noteq> 47" using cq hd_dropWhile [of "\<lambda>c. c = 47" path] by (metis list.distinct(1) list.sel(1))
  moreover have "c \<noteq> 0" using h cq by simp
  ultimately have "length (dropWhile (\<lambda>c. c \<noteq> 47 \<and> c \<noteq> 0) ?p) < length ?p"
    using length_dropWhile_le [of _ q] by (simp add: cq le_imp_less_Suc)
  moreover have "length path' \<le> length (dropWhile (\<lambda>c. c \<noteq> 47 \<and> c \<noteq> 0) ?p)"
    unfolding e by (rule length_dropWhile_le)
  moreover have "length ?p \<le> length path" by (rule length_dropWhile_le)
  ultimately show ?thesis by linarith
qed

function namex_loop :: "nat \<Rightarrow> uchar list \<Rightarrow> bool \<Rightarrow> uchar list \<Rightarrow> 'z cst_scheme \<Rightarrow>
    (nat option \<times> uchar list \<times> 'z cst_scheme) res" where
  "namex_loop ip path parent name s =
     (case skipelem path name of
        None \<Rightarrow>
          if parent then bindR (iput ip s) (\<lambda>s. Ok (None, name, s)) else Ok (Some ip, name, s)
      | Some (path, name) \<Rightarrow>
          bindR (ilock ip s) (\<lambda>s.
            if i_type (icache s ! ip) \<noteq> T_DIR then
              bindR (iunlockput ip s) (\<lambda>s. Ok (None, name, s))
            else if parent \<and> hd0 path = 0 then
              bindR (iunlock ip s) (\<lambda>s. Ok (Some ip, name, s))
            else
              bindR (dirlookup ip name s) (\<lambda>(next, s).
                case next of
                  None \<Rightarrow> bindR (iunlockput ip s) (\<lambda>s. Ok (None, name, s))
                | Some (i, _) \<Rightarrow>
                    bindR (iunlockput ip s) (\<lambda>s. namex_loop i path parent name s))))"
  by pat_completeness auto
termination
  by (relation "measure (\<lambda>(ip, path, parent, name, s). length path)") (auto dest: skipelem_shorter)

declare namex_loop.simps [simp del]

definition namex :: "uchar list \<Rightarrow> bool \<Rightarrow> uchar list \<Rightarrow> 'z cst_scheme \<Rightarrow>
    (nat option \<times> uchar list \<times> 'z cst_scheme) res" where
  "namex path parent name s =
     bindR (if hd0 path = 47 then iget ROOTDEV ROOTINO s
            else myproc (\<lambda>c s. case p_cwd (procs s ! c) of
                   None \<Rightarrow> Fault | Some i \<Rightarrow> Ok (i, idup i s)) s)
       (\<lambda>(ip, s). namex_loop ip path parent name s)"

definition namei :: "uchar list \<Rightarrow> 'z cst_scheme \<Rightarrow> (nat option \<times> 'z cst_scheme) res" where
  "namei path s = bindR (namex path False (replicate DIRSIZ 0) s) (\<lambda>(r, _, s). Ok (r, s))"

definition nameiparent :: "uchar list \<Rightarrow> 'z cst_scheme \<Rightarrow> (nat option \<times> uchar list \<times> 'z cst_scheme) res" where
  "nameiparent path s = namex path True (replicate DIRSIZ 0) s"

end
