(* ===== verification/Pipe.thy ===== *)
theory Pipe
  imports Fs
begin

section \<open>Pipes: pipe.c\<close>

text \<open>
  A pipe lives in a page of its own; the structures are kept in a table indexed by the page's
  address. The counters are 32-bit words that wrap. \<open>pipewrite\<close> and \<open>piperead\<close> may sleep: the
  first returns the bytes still to be written with \<open>Asleep\<close>.
\<close>

record pipe =
  pp_data :: "uchar list"
  pp_nread :: uint
  pp_nwrite :: uint
  pp_readopen :: bool
  pp_writeopen :: bool

record pipest = cst +
  pipes :: "uint \<Rightarrow> pipe"

abbreviation (input) PIPESIZE :: nat where "PIPESIZE \<equiv> 512"

definition upd_pipe :: "uint \<Rightarrow> (pipe \<Rightarrow> pipe) \<Rightarrow> 'z pipest_scheme \<Rightarrow> 'z pipest_scheme" where
  "upd_pipe p f s = s\<lparr>pipes := (pipes s)(p := f (pipes s p))\<rparr>"

definition slot :: "uint \<Rightarrow> nat" where
  "slot i = unat (i mod of_nat PIPESIZE)"

definition pipeclose :: "uint \<Rightarrow> bool \<Rightarrow> 'z pipest_scheme \<Rightarrow> 'z pipest_scheme res" where
  "pipeclose p writable s =
     (let s = (if writable then wakeup (ChPipeR p) (upd_pipe p (\<lambda>x. x\<lparr>pp_writeopen := False\<rparr>) s)
               else wakeup (ChPipeW p) (upd_pipe p (\<lambda>x. x\<lparr>pp_readopen := False\<rparr>) s))
      in if \<not> pp_readopen (pipes s p) \<and> \<not> pp_writeopen (pipes s p) then kfree p s else Ok s)"

text \<open>\<^verbatim>\<open>p->data[p->nwrite++ \% PIPESIZE] = b\<close>, and the corresponding read.\<close>

definition pipe_put :: "uchar \<Rightarrow> pipe \<Rightarrow> pipe" where
  "pipe_put b x = x\<lparr>pp_data := (pp_data x)[slot (pp_nwrite x) := b], pp_nwrite := pp_nwrite x + 1\<rparr>"

definition pipe_get :: "pipe \<Rightarrow> uchar \<times> pipe" where
  "pipe_get x = (pp_data x ! slot (pp_nread x), x\<lparr>pp_nread := pp_nread x + 1\<rparr>)"

definition pipe_full :: "pipe \<Rightarrow> bool" where
  "pipe_full x \<longleftrightarrow> pp_nwrite x = pp_nread x + of_nat PIPESIZE"

definition pipe_empty :: "pipe \<Rightarrow> bool" where
  "pipe_empty x \<longleftrightarrow> pp_nread x = pp_nwrite x"

fun pipewrite_loop :: "uint \<Rightarrow> int \<Rightarrow> uchar list \<Rightarrow> 'z pipest_scheme \<Rightarrow>
    (int outcome \<times> uchar list \<times> 'z pipest_scheme) res" where
  "pipewrite_loop p n [] s = Ok (Done n, [], wakeup (ChPipeR p) s)"
| "pipewrite_loop p n (b # bs) s =
     (if pipe_full (pipes s p) then
        myproc (\<lambda>c s.
          if \<not> pp_readopen (pipes s p) \<or> p_killed (procs s ! c) \<noteq> 0 then Ok (Done (- 1), b # bs, s)
          else bindR (sleep (ChPipeW p) (wakeup (ChPipeR p) s)) (\<lambda>s. Ok (Asleep, b # bs, s))) s
      else pipewrite_loop p n bs (upd_pipe p (pipe_put b) s))"

definition pipewrite :: "uint \<Rightarrow> uchar list \<Rightarrow> 'z pipest_scheme \<Rightarrow>
    (int outcome \<times> uchar list \<times> 'z pipest_scheme) res" where
  "pipewrite p addr s = pipewrite_loop p (int (length addr)) addr s"

definition pipewrite_resume :: "uint \<Rightarrow> int \<Rightarrow> uchar list \<Rightarrow> 'z pipest_scheme \<Rightarrow>
    (int outcome \<times> uchar list \<times> 'z pipest_scheme) res" where
  "pipewrite_resume p n bs s = bindR (awake s) (pipewrite_loop p n bs)"

fun piperead_copy :: "nat \<Rightarrow> uint \<Rightarrow> 'z pipest_scheme \<Rightarrow> uchar list \<times> 'z pipest_scheme" where
  "piperead_copy 0 p s = ([], s)"
| "piperead_copy (Suc n) p s =
     (if pipe_empty (pipes s p) then ([], s)
      else
        let (b, x) = pipe_get (pipes s p);
            (bs, s) = piperead_copy n p (upd_pipe p (\<lambda>_. x) s)
        in (b # bs, s))"

definition piperead :: "uint \<Rightarrow> int \<Rightarrow> 'z pipest_scheme \<Rightarrow>
    ((int \<times> uchar list) outcome \<times> 'z pipest_scheme) res" where
  "piperead p n s =
     (if pipe_empty (pipes s p) \<and> pp_writeopen (pipes s p) then
        myproc (\<lambda>c s.
          if p_killed (procs s ! c) \<noteq> 0 then Ok (Done (- 1, []), s)
          else bindR (sleep (ChPipeR p) s) (\<lambda>s. Ok (Asleep, s))) s
      else
        let (bs, s) = piperead_copy (nat n) p s
        in Ok (Done (int (length bs), bs), wakeup (ChPipeW p) s))"

definition piperead_resume :: "uint \<Rightarrow> int \<Rightarrow> 'z pipest_scheme \<Rightarrow>
    ((int \<times> uchar list) outcome \<times> 'z pipest_scheme) res" where
  "piperead_resume p n s = bindR (awake s) (piperead p n)"

definition pipest_boot :: pipest where
  "pipest_boot = cst.extend cst_boot (pipest.fields
     (\<lambda>_. \<lparr>pp_data = replicate PIPESIZE 0, pp_nread = 0, pp_nwrite = 0, pp_readopen = False,
       pp_writeopen = False\<rparr>))"

end
