(* ===== verification/Ring.thy ===== *)
theory Ring
  imports Prelude
begin

section \<open>Ring buffers with wrapping counters\<close>

text \<open>
  Pipes and the console keep bytes in an array of \<open>N\<close> entries with a counter for each end; a
  counter is a 32-bit word that is only ever incremented and wraps. \<open>contents\<close> is the queue such a
  buffer stands for. The laws need \<open>N\<close> to divide \<open>2 ^ 32\<close>: otherwise the slot would jump when a
  counter wraps.
\<close>

definition rslot :: "nat \<Rightarrow> uint \<Rightarrow> nat" where
  "rslot N i = unat (i mod of_nat N)"

definition contents :: "nat \<Rightarrow> 'a list \<Rightarrow> uint \<Rightarrow> uint \<Rightarrow> 'a list" where
  "contents N buf r w = map (\<lambda>i. buf ! rslot N (r + of_nat i)) [0..<unat (w - r)]"

lemma length_contents [simp]: "length (contents N buf r w) = unat (w - r)"
  by (simp add: contents_def)

lemma contents_empty [simp]: "contents N buf r r = []"
  by (simp add: contents_def)

lemma contents_Nil_iff: "contents N buf r w = [] \<longleftrightarrow> r = w"
  by (simp add: contents_def unat_eq_0) (metis)

lemma contents_get:
  assumes "r \<noteq> w"
  shows "contents N buf r w = buf ! rslot N r # contents N buf (r + 1) w"
proof -
  have nz: "w - r \<noteq> 0" using assms by simp
  have "unat (w - (r + 1)) = unat (w - r) - 1"
    using unat_dec [OF nz] by (simp add: diff_diff_eq)
  moreover have "0 < unat (w - r)" using nz by (simp add: unat_gt_0)
  ultimately have e: "[0..<unat (w - r)] = 0 # map Suc [0..<unat (w - (r + 1))]"
    by (simp add: upt_conv_Cons map_Suc_upt)
  show ?thesis unfolding contents_def e by (simp add: ac_simps)
qed

lemma contents_unput:
  assumes "r \<noteq> w"
  shows "contents N buf r w = contents N buf r (w - 1) @ [buf ! rslot N (w - 1)]"
proof -
  have nz: "w - r \<noteq> 0" using assms by simp
  then have u: "unat (w - 1 - r) = unat (w - r) - 1"
    using unat_dec [OF nz] by (simp add: algebra_simps)
  moreover have "0 < unat (w - r)" using nz by (simp add: unat_gt_0)
  ultimately have e: "[0..<unat (w - r)] = [0..<unat (w - 1 - r)] @ [unat (w - 1 - r)]"
    using upt_Suc_append [of 0 "unat (w - 1 - r)"] by simp
  show ?thesis unfolding contents_def e by (simp add: algebra_simps)
qed

lemma contents_append:
  assumes "unat (w - r) + unat (e - w) < 4294967296"
  shows "contents N buf r e = contents N buf r w @ contents N buf w e"
proof -
  have "e - r = (w - r) + (e - w)" by simp
  then have u: "unat (e - r) = unat (w - r) + unat (e - w)"
    using assms by (simp only: unat_word_ariths) simp
  have "map (\<lambda>i. buf ! rslot N (r + of_nat i)) [unat (w - r)..<unat (w - r) + unat (e - w)] =
      map ((\<lambda>i. buf ! rslot N (r + of_nat i)) \<circ> (\<lambda>i. i + unat (w - r))) [0..<unat (e - w)]"
    using map_add_upt [of "unat (w - r)" "unat (e - w)"]
    by (simp add: list.map_comp [symmetric] ac_simps)
  also have "\<dots> = contents N buf w e" by (simp add: contents_def add.commute)
  finally show ?thesis unfolding contents_def u upt_add_eq_append [OF le0] by simp
qed

locale ringbuf =
  fixes N :: nat
  assumes pos: "0 < N" and small: "N < 4294967296" and dvd: "N dvd 4294967296"
begin

lemma rslot_eq: "rslot N i = unat i mod N"
proof -
  have "unat (of_nat N :: uint) = N" using small by (simp add: unat_of_nat take_bit_nat_eq_self)
  then show ?thesis by (simp add: rslot_def unat_mod_distrib)
qed

lemma rslot_less: "rslot N i < N"
  using pos by (simp add: rslot_eq)

lemma rslot_add: "rslot N (r + of_nat k) = (unat r + k) mod N"
proof -
  have "unat (r + of_nat k) = (unat r + k) mod 4294967296"
    by (simp add: unat_word_ariths unat_of_nat take_bit_nat_def mod_add_right_eq)
  then show ?thesis by (simp add: rslot_eq mod_mod_cancel [OF dvd])
qed

lemma rslot_inj:
  assumes "rslot N (r + of_nat i) = rslot N (r + of_nat j)" and "i < N" and "j < N"
  shows "i = j"
proof -
  have "(unat r + i) mod N = (unat r + j) mod N" using assms(1) by (simp only: rslot_add)
  then have "i mod N = j mod N" by (simp add: mod_add_left_eq nat_mod_eq_iff mod_eq_iff_dvd_symdiff_nat)
  with assms(2,3) show ?thesis by simp
qed

text \<open>A byte stored at the writer's slot does not touch the others while there is room.\<close>

lemma contents_put:
  assumes "length buf = N" and room: "unat (w - r) < N"
  shows "contents N (buf[rslot N w := b]) r (w + 1) = contents N buf r w @ [b]"
proof -
  let ?n = "unat (w - r)"
  have w: "w = r + of_nat ?n" by simp
  have u: "unat (w + 1 - r) = Suc ?n"
  proof -
    have "w + 1 - r = (w - r) + 1" by simp
    then show ?thesis using room small by (simp only:) (simp add: unat_word_ariths)
  qed
  have "buf[rslot N w := b] ! rslot N (r + of_nat i) = buf ! rslot N (r + of_nat i)" if "i < ?n" for i
    using rslot_inj [of r i ?n] that room w by (metis less_irrefl less_trans nth_list_update_neq)
  then have "map (\<lambda>i. buf[rslot N w := b] ! rslot N (r + of_nat i)) [0..<?n] = contents N buf r w"
    by (simp add: contents_def)
  moreover have "buf[rslot N w := b] ! rslot N (r + of_nat ?n) = b"
    using assms(1) rslot_less [of w] by simp
  ultimately show ?thesis by (simp add: contents_def u)
qed

end

end
