(* ===== verification/PipeStream.thy ===== *)
theory PipeStream
  imports Pipe Ring
begin

section \<open>Pipes as byte streams\<close>

text \<open>
  A pipe's ring buffer implements a bounded queue, \<open>fifo\<close> below. Whatever processes do with a
  pipe, the bytes read from it are those written to it, in order.
\<close>

locale fifo =
  fixes ok :: "'q \<Rightarrow> bool" and items :: "'q \<Rightarrow> 'a list" and put :: "'a \<Rightarrow> 'q \<Rightarrow> 'q"
    and get :: "'q \<Rightarrow> 'a \<times> 'q" and full :: "'q \<Rightarrow> bool" and isempty :: "'q \<Rightarrow> bool"
  assumes put: "ok q \<Longrightarrow> \<not> full q \<Longrightarrow> ok (put b q) \<and> items (put b q) = items q @ [b]"
    and get: "ok q \<Longrightarrow> \<not> isempty q \<Longrightarrow> ok (snd (get q)) \<and> items q = fst (get q) # items (snd (get q))"
    and isempty: "ok q \<Longrightarrow> isempty q \<longleftrightarrow> items q = []"
begin

lemma put_get:
  assumes "ok q" and "\<not> full q" and "items q = []"
  shows "fst (get (put b q)) = b \<and> isempty (snd (get (put b q)))"
  using put [OF assms(1,2), of b] get [of "put b q"] isempty assms(3) by fastforce

end

definition pipe_ok :: "pipe \<Rightarrow> bool" where
  "pipe_ok x \<longleftrightarrow> length (pp_data x) = PIPESIZE \<and> unat (pp_nwrite x - pp_nread x) \<le> PIPESIZE"

definition pipe_items :: "pipe \<Rightarrow> uchar list" where
  "pipe_items x = contents PIPESIZE (pp_data x) (pp_nread x) (pp_nwrite x)"

interpretation pr: ringbuf PIPESIZE
  by unfold_locales simp_all

lemma slot_rslot: "slot i = rslot PIPESIZE i"
  by (simp add: slot_def rslot_def)

lemma pipe_full_iff: "pipe_full x \<longleftrightarrow> unat (pp_nwrite x - pp_nread x) = PIPESIZE"
proof -
  have "pipe_full x \<longleftrightarrow> pp_nwrite x - pp_nread x = 512"
    by (simp add: pipe_full_def algebra_simps)
  also have "\<dots> \<longleftrightarrow> unat (pp_nwrite x - pp_nread x) = unat (512 :: uint)"
    by (simp only: word_unat_eq_iff)
  finally show ?thesis by simp
qed

interpretation pq: fifo pipe_ok pipe_items pipe_put pipe_get pipe_full pipe_empty
proof
  fix x b
  assume ok: "pipe_ok x" and room: "\<not> pipe_full x"
  then have less: "unat (pp_nwrite x - pp_nread x) < PIPESIZE"
    by (simp add: pipe_ok_def pipe_full_iff)
  have "pipe_items (pipe_put b x) = pipe_items x @ [b]"
    using ok less by (simp add: pipe_items_def pipe_put_def slot_rslot pipe_ok_def pr.contents_put)
  moreover from this have "unat (pp_nwrite (pipe_put b x) - pp_nread (pipe_put b x)) = Suc (unat (pp_nwrite x - pp_nread x))"
    by (metis pipe_items_def length_contents length_append_singleton)
  ultimately show "pipe_ok (pipe_put b x) \<and> pipe_items (pipe_put b x) = pipe_items x @ [b]"
    using ok less by (simp add: pipe_ok_def) (simp add: pipe_put_def)
next
  fix x
  assume ok: "pipe_ok x" and ne: "\<not> pipe_empty x"
  then have i: "pipe_items x = fst (pipe_get x) # pipe_items (snd (pipe_get x))"
    by (simp add: pipe_items_def pipe_get_def pipe_empty_def slot_rslot contents_get)
  have "unat (pp_nwrite x - pp_nread x) = Suc (unat (pp_nwrite x - (pp_nread x + 1)))"
    using arg_cong [OF i, of length] by (simp add: pipe_items_def pipe_get_def)
  with ok i show "pipe_ok (snd (pipe_get x)) \<and> pipe_items x = fst (pipe_get x) # pipe_items (snd (pipe_get x))"
    by (simp add: pipe_ok_def pipe_items_def pipe_get_def)
next
  fix x
  show "pipe_empty x \<longleftrightarrow> pipe_items x = []"
    by (simp add: pipe_empty_def pipe_items_def contents_Nil_iff)
qed

subsection \<open>Frames\<close>

lemma pipes_wakeup [simp]: "pipes (wakeup ch s) = pipes s"
  by (simp add: wakeup_def wakeup1_def)

lemma pipes_upd_pipe [simp]: "pipes (upd_pipe p f s) = (pipes s)(p := f (pipes s p))"
  by (simp add: upd_pipe_def)

lemma pipes_sleep: "sleep ch s = Ok s' \<Longrightarrow> pipes s' = pipes s"
  by (auto simp: sleep_def sched_def myproc_def sched_return_def upd_proc_def switchkvm_def
      split: option.splits if_splits)

lemma pipes_awake: "awake s = Ok s' \<Longrightarrow> pipes s' = pipes s"
  by (auto simp: awake_def myproc_def upd_proc_def split: option.splits)

subsection \<open>Writing and reading\<close>

text \<open>The bytes taken from the writer are a prefix of what it passed, and are appended.\<close>

lemma pipewrite_loop_items:
  assumes "pipewrite_loop p n bs s = Ok (r, rest, s')" and "pipe_ok (pipes s p)"
  shows "\<exists>taken. bs = taken @ rest \<and> pipe_ok (pipes s' p) \<and>
    pipe_items (pipes s' p) = pipe_items (pipes s p) @ taken \<and>
    (\<forall>q. q \<noteq> p \<longrightarrow> pipes s' q = pipes s q) \<and>
    (if rest = [] then r = Done n else pipe_full (pipes s' p) \<and> r \<in> {Done (- 1), Asleep})"
  using assms
proof (induction bs arbitrary: s)
  case Nil
  then show ?case by auto
next
  case (Cons b bs)
  show ?case
  proof (cases "pipe_full (pipes s p)")
    case True
    then show ?thesis
      using Cons.prems
      by (auto simp: myproc_def res_simps dest!: pipes_sleep split: option.splits if_splits)
  next
    case False
    let ?s = "upd_pipe p (pipe_put b) s"
    have run: "pipewrite_loop p n bs ?s = Ok (r, rest, s')" using Cons.prems(1) False by simp
    have put: "pipe_ok (pipes ?s p)" "pipe_items (pipes ?s p) = pipe_items (pipes s p) @ [b]"
      using pq.put [OF Cons.prems(2) False, of b] by simp_all
    from Cons.IH [OF run put(1)] obtain taken where t: "bs = taken @ rest" "pipe_ok (pipes s' p)"
      "pipe_items (pipes s' p) = pipe_items (pipes ?s p) @ taken"
      "\<forall>q. q \<noteq> p \<longrightarrow> pipes s' q = pipes ?s q"
      "if rest = [] then r = Done n else pipe_full (pipes s' p) \<and> r \<in> {Done (- 1), Asleep}"
      by blast
    with put(2) show ?thesis by (intro exI [of _ "b # taken"]) auto
  qed
qed

lemma piperead_copy_items:
  assumes "piperead_copy n p s = (bs, s')" and "pipe_ok (pipes s p)"
  shows "pipe_ok (pipes s' p) \<and> bs = take n (pipe_items (pipes s p)) \<and>
    pipe_items (pipes s' p) = drop n (pipe_items (pipes s p)) \<and>
    (\<forall>q. q \<noteq> p \<longrightarrow> pipes s' q = pipes s q)"
  using assms
proof (induction n arbitrary: s bs)
  case 0
  then show ?case by auto
next
  case (Suc n)
  show ?case
  proof (cases "pipe_empty (pipes s p)")
    case True
    then show ?thesis using Suc.prems pq.isempty [OF Suc.prems(2)] by auto
  next
    case False
    obtain b x where bx: "pipe_get (pipes s p) = (b, x)" by fastforce
    have x: "pipe_ok x" "pipe_items (pipes s p) = b # pipe_items x"
      using pq.get [OF Suc.prems(2) False] bx by simp_all
    let ?s = "upd_pipe p (\<lambda>_. x) s"
    obtain cs where cs: "piperead_copy n p ?s = (cs, s')" "bs = b # cs"
      using Suc.prems(1) False bx by (auto split: prod.splits)
    have "pipe_ok (pipes ?s p)" using x by simp
    from Suc.IH [OF cs(1) this] cs(2) x show ?thesis by simp
  qed
qed

text \<open>What a call of \<open>piperead\<close> handed to its caller.\<close>

fun bytes_read :: "(int \<times> uchar list) outcome \<Rightarrow> uchar list" where
  "bytes_read (Done (k, bs)) = bs"
| "bytes_read Asleep = []"

lemma piperead_items:
  assumes "piperead p n s = Ok (r, s')" and "pipe_ok (pipes s p)"
  shows "pipe_ok (pipes s' p) \<and> pipe_items (pipes s p) = bytes_read r @ pipe_items (pipes s' p) \<and>
    (\<forall>q. q \<noteq> p \<longrightarrow> pipes s' q = pipes s q)"
proof (cases "pipe_empty (pipes s p) \<and> pp_writeopen (pipes s p)")
  case True
  then show ?thesis
    using assms
    by (auto simp: piperead_def myproc_def res_simps dest!: pipes_sleep split: option.splits if_splits)
next
  case False
  obtain bs t where "piperead_copy (nat n) p s = (bs, t)" by fastforce
  with piperead_copy_items [OF this assms(2)] False assms show ?thesis
    by (auto simp: piperead_def)
qed

text \<open>
  What happens to one pipe: any process writes to it or goes on with a write that slept, reads or
  goes on with a read, and anything else that does not touch it. The lists are the bytes the writers
  have handed over and those the readers have received.
\<close>

inductive pipe_history :: "uint \<Rightarrow> 'z pipest_scheme \<Rightarrow> uchar list \<Rightarrow> uchar list \<Rightarrow> 'z pipest_scheme \<Rightarrow> bool"
  for p s\<^sub>0 where
  start: "pipe_history p s\<^sub>0 [] [] s\<^sub>0"
| pwrite: "pipe_history p s\<^sub>0 ws rs s \<Longrightarrow> pipewrite p bs s = Ok (r, rest, s') \<Longrightarrow>
    pipe_history p s\<^sub>0 (ws @ take (length bs - length rest) bs) rs s'"
| pwrite_on: "pipe_history p s\<^sub>0 ws rs s \<Longrightarrow> pipewrite_resume p n bs s = Ok (r, rest, s') \<Longrightarrow>
    pipe_history p s\<^sub>0 (ws @ take (length bs - length rest) bs) rs s'"
| pread: "pipe_history p s\<^sub>0 ws rs s \<Longrightarrow> piperead p n s = Ok (r, s') \<Longrightarrow>
    pipe_history p s\<^sub>0 ws (rs @ bytes_read r) s'"
| pread_on: "pipe_history p s\<^sub>0 ws rs s \<Longrightarrow> piperead_resume p n s = Ok (r, s') \<Longrightarrow>
    pipe_history p s\<^sub>0 ws (rs @ bytes_read r) s'"
| other: "pipe_history p s\<^sub>0 ws rs s \<Longrightarrow> pipes s' p = pipes s p \<Longrightarrow> pipe_history p s\<^sub>0 ws rs s'"

text \<open>
  C7. A pipe is a first-in first-out byte stream: after any history of writes and reads of it,
  interrupted by sleep or not, interleaved with anything else, and with counters that may wrap, the
  bytes that were in the pipe followed by those written are exactly the bytes read followed by those
  still in the pipe, which are at most 512.
\<close>

theorem pipe_stream:
  assumes "pipe_history p s ws rs s'" and "pipe_ok (pipes s p)"
  shows "pipe_items (pipes s p) @ ws = rs @ pipe_items (pipes s' p) \<and>
    length (pipe_items (pipes s' p)) \<le> PIPESIZE"
proof -
  have "pipe_ok (pipes s' p) \<and> pipe_items (pipes s p) @ ws = rs @ pipe_items (pipes s' p)"
    using assms
  proof (induction rule: pipe_history.induct)
    case (pwrite ws rs s bs r rest s')
    then show ?case
      using pipewrite_loop_items [of p "int (length bs)" bs s r rest s'] by (auto simp: pipewrite_def)
  next
    case (pwrite_on ws rs s n bs r rest s')
    then obtain t where "awake s = Ok t" "pipewrite_loop p n bs t = Ok (r, rest, s')"
      by (auto simp: pipewrite_resume_def res_simps)
    moreover from this have "pipes t = pipes s" by (intro pipes_awake)
    ultimately show ?case
      using pwrite_on pipewrite_loop_items [of p n bs t r rest s'] by auto
  next
    case (pread ws rs s n r s')
    then show ?case using piperead_items [of p n s r s'] by auto
  next
    case (pread_on ws rs s n r s')
    then obtain t where "awake s = Ok t" "piperead p n t = Ok (r, s')"
      by (auto simp: piperead_resume_def res_simps)
    moreover from this have "pipes t = pipes s" by (intro pipes_awake)
    ultimately show ?case using pread_on piperead_items [of p n t r s'] by auto
  qed auto
  then show ?thesis by (simp add: pipe_ok_def pipe_items_def)
qed

theorem pipe_stream_witness:
  "\<exists>s'. pipe_history 0 pipest_boot [1, 2, 3] [1, 2] s' \<and> pipe_ok (pipes pipest_boot 0) \<and>
     pipe_items (pipes s' 0) = [3]"
proof -
  let ?s1 = "wakeup (ChPipeR 0) (upd_pipe 0 (pipe_put 3) (upd_pipe 0 (pipe_put 2) (upd_pipe 0 (pipe_put 1) pipest_boot)))"
  have b: "pipes pipest_boot = (\<lambda>_. \<lparr>pp_data = replicate 512 0, pp_nread = 0, pp_nwrite = 0,
      pp_readopen = False, pp_writeopen = False\<rparr>)"
    by (simp add: pipest_boot_def cst.extend_def pipest.fields_def)
  have ok: "pipe_ok (pipes pipest_boot 0)" and i0: "pipe_items (pipes pipest_boot 0) = []"
    by (simp_all add: b pipe_ok_def pipe_items_def)
  have w: "pipewrite 0 [1, 2, 3] pipest_boot = Ok (Done 3, [], ?s1)"
    by (simp add: pipewrite_def pipe_full_def pipe_put_def b)
  have h1: "pipe_history 0 pipest_boot [1, 2, 3] [] ?s1"
    using pipe_history.pwrite [OF pipe_history.start w] by simp
  have i1: "pipe_items (pipes ?s1 0) = [1, 2, 3]" using pipe_stream [OF h1 ok] i0 by simp
  have ok1: "pipe_ok (pipes ?s1 0)"
    using pipewrite_loop_items [OF w [unfolded pipewrite_def] ok] by blast
  obtain bs s2 where c: "piperead_copy 2 0 ?s1 = (bs, s2)" by fastforce
  have "bs = [1, 2]" using piperead_copy_items [OF c ok1] i1 by simp
  moreover have "\<not> pipe_empty (pipes ?s1 0)" using pq.isempty [OF ok1] i1 by simp
  ultimately have r: "piperead 0 2 ?s1 = Ok (Done (2, [1, 2]), wakeup (ChPipeW 0) s2)"
    using c by (simp add: piperead_def)
  have h: "pipe_history 0 pipest_boot [1, 2, 3] [1, 2] (wakeup (ChPipeW 0) s2)"
    using pipe_history.pread [OF h1 r] by simp
  from pipe_stream [OF h ok] i0 have "pipe_items (pipes (wakeup (ChPipeW 0) s2) 0) = [3]" by simp
  with h ok show ?thesis by blast
qed

end
