(* ===== verification/ConsoleLine.thy ===== *)
theory ConsoleLine
  imports Console Ring
begin

section \<open>The line discipline of the console\<close>

text \<open>
  What the three counters of the input ring stand for: the bytes a reader may take, and the line
  that is being edited. \<open>tty_char\<close> says what a typed character does to the two, without the ring;
  \<open>consoleintr\<close> refines it. The display never makes it panic.
\<close>

type_synonym tty = "uchar list \<times> uchar list"

definition tty_char :: "uint \<Rightarrow> tty \<Rightarrow> tty" where
  "tty_char c t =
     (let (ready, line) = t in
      if c = 16 then (ready, line)
      else if c = 21 then (ready, [])
      else if c = 8 \<or> c = 127 then (ready, butlast line)
      else if c \<noteq> 0 \<and> length ready + length line < INPUT_BUF then
        let b = (if c = 13 then 10 else ucast c); line = line @ [b]
        in if b = 10 \<or> b = 4 \<or> length ready + length line = INPUT_BUF
           then (ready @ line, []) else (ready, line)
      else (ready, line))"

definition tty_of :: "'z cst_scheme \<Rightarrow> tty" where
  "tty_of s = (contents INPUT_BUF (input_buf s) (input_r s) (input_w s),
     contents INPUT_BUF (input_buf s) (input_w s) (input_e s))"

definition cons_ok :: "'z cst_scheme \<Rightarrow> bool" where
  "cons_ok s \<longleftrightarrow> length (input_buf s) = INPUT_BUF \<and>
     length (fst (tty_of s)) + length (snd (tty_of s)) \<le> INPUT_BUF \<and>
     10 \<notin> set (snd (tty_of s)) \<and> 0 \<le> crt_pos s \<and> crt_pos s < 24 * 80"

interpretation cr: ringbuf INPUT_BUF
  by unfold_locales simp_all

lemma ring_rslot: "ring i = rslot INPUT_BUF i"
  by (simp add: ring_def rslot_def)

subsection \<open>Output\<close>

definition screen_only :: "'z cst_scheme \<Rightarrow> 'z cst_scheme \<Rightarrow> bool" where
  "screen_only s s' \<longleftrightarrow> (\<exists>u pos m. s' = s\<lparr>uart_out := u, crt_pos := pos, crt := m\<rparr> \<and>
     0 \<le> pos \<and> pos < 24 * 80)"

lemma crt_scroll_range:
  assumes "0 \<le> pos" and "pos \<le> 24 * 80"
  shows "0 \<le> fst (crt_scroll pos m)" and "fst (crt_scroll pos m) < 24 * 80"
  using assms by (auto simp: crt_scroll_def Let_def)

lemma cgaputc_ok:
  assumes "0 \<le> crt_pos s" and "crt_pos s < 24 * 80"
  shows "\<exists>pos m. cgaputc c s = Ok (s\<lparr>crt_pos := pos, crt := m\<rparr>) \<and> 0 \<le> pos \<and> pos < 24 * 80"
proof -
  define q where "q = crt_pos s div 80"
  have "crt_pos s = 80 * q + crt_pos s mod 80" by (simp add: q_def)
  then have nl: "crt_pos s + (80 - crt_pos s mod 80) = 80 * q + 80" by linarith
  have q: "0 \<le> q" "q \<le> 23" unfolding q_def using assms by linarith+
  obtain pos m where pm: "(case c of
         BackSpace \<Rightarrow> (if 0 < crt_pos s then crt_pos s - 1 else crt_pos s, crt s)
       | Ch b \<Rightarrow> if b = 10 then (crt_pos s + (80 - crt_pos s mod 80), crt s)
                else (crt_pos s + 1, (crt s)(nat (crt_pos s) := ucast b OR 0x0700))) = (pos, m)"
    by fastforce
  then have pos: "0 \<le> pos" "pos \<le> 24 * 80"
    using assms q nl by (auto split: outch.splits if_splits)
  then have "cgaputc c s = Ok (s\<lparr>crt_pos := fst (crt_scroll pos m),
      crt := (snd (crt_scroll pos m))(nat (fst (crt_scroll pos m)) := 0x20 OR 0x0700)\<rparr>)"
    unfolding cgaputc_def Let_def pm by (simp add: case_prod_beta)
  then show ?thesis using crt_scroll_range [OF pos, of m] by blast
qed

lemma uartputc_eq: "\<exists>u'. uartputc b (s\<lparr>uart_out := u\<rparr>) = s\<lparr>uart_out := u'\<rparr>"
  by (auto simp: uartputc_def)

lemma consputc_ok:
  assumes "0 \<le> crt_pos s" and "crt_pos s < 24 * 80"
  shows "\<exists>s'. consputc c s = Ok s' \<and> screen_only s s'"
proof -
  obtain u where u: "(case c of BackSpace \<Rightarrow> uartputc 8 (uartputc 32 (uartputc 8 s)) | Ch b \<Rightarrow> uartputc b s)
      = s\<lparr>uart_out := u\<rparr>"
  proof (cases c)
    case (Ch b)
    then show ?thesis using uartputc_eq [where b = b and s = s and u = "uart_out s"] that by auto
  next
    case BackSpace
    obtain u1 where "uartputc 8 s = s\<lparr>uart_out := u1\<rparr>"
      using uartputc_eq [where b = 8 and s = s and u = "uart_out s"] by auto
    moreover obtain u2 where "uartputc 32 (s\<lparr>uart_out := u1\<rparr>) = s\<lparr>uart_out := u2\<rparr>"
      using uartputc_eq by blast
    moreover obtain u3 where "uartputc 8 (s\<lparr>uart_out := u2\<rparr>) = s\<lparr>uart_out := u3\<rparr>"
      using uartputc_eq by blast
    ultimately have "uartputc 8 (uartputc 32 (uartputc 8 s)) = s\<lparr>uart_out := u3\<rparr>" by simp
    with BackSpace show ?thesis using that by auto
  qed
  obtain pos m where g: "cgaputc c (s\<lparr>uart_out := u\<rparr>) = Ok (s\<lparr>uart_out := u, crt_pos := pos, crt := m\<rparr>)"
    "0 \<le> pos" "pos < 24 * 80"
    using cgaputc_ok [of "s\<lparr>uart_out := u\<rparr>" c] assms by auto
  have "consputc c s = Ok (s\<lparr>uart_out := u, crt_pos := pos, crt := m\<rparr>)"
    unfolding consputc_def u by (rule g(1))
  moreover have "screen_only s (s\<lparr>uart_out := u, crt_pos := pos, crt := m\<rparr>)"
    unfolding screen_only_def
    by (intro exI [of _ u] exI [of _ pos] exI [of _ m] conjI g(2,3) refl)
  ultimately show ?thesis by (intro exI conjI)
qed

lemma screen_only_simps:
  assumes "screen_only s s'"
  shows "input_buf s' = input_buf s" "input_r s' = input_r s" "input_w s' = input_w s"
    "input_e s' = input_e s" "tty_of s' = tty_of s" "0 \<le> crt_pos s'" "crt_pos s' < 24 * 80"
    "procs s' = procs s"
  using assms by (auto simp: screen_only_def tty_of_def)

lemma screen_only_trans: "screen_only s t \<Longrightarrow> screen_only t u \<Longrightarrow> screen_only s u"
  unfolding screen_only_def by (elim exE conjE) (intro exI conjI, auto)

subsection \<open>Input\<close>

text \<open>Taking the last character of the line back.\<close>

lemma cons_back:
  assumes ok: "cons_ok s" and ne: "input_e s \<noteq> input_w s"
  shows "\<exists>s'. consputc BackSpace (s\<lparr>input_e := input_e s - 1\<rparr>) = Ok s' \<and> cons_ok s' \<and>
    tty_of s' = (fst (tty_of s), butlast (snd (tty_of s))) \<and>
    input_e s' = input_e s - 1 \<and> input_w s' = input_w s \<and> input_buf s' = input_buf s"
proof -
  let ?s1 = "s\<lparr>input_e := input_e s - 1\<rparr>"
  have t1: "tty_of ?s1 = (fst (tty_of s), butlast (snd (tty_of s)))"
    using contents_unput [of "input_w s" "input_e s" INPUT_BUF "input_buf s"] ne by (simp add: tty_of_def)
  obtain s' where s': "consputc BackSpace ?s1 = Ok s'" "screen_only ?s1 s'"
    using consputc_ok [of ?s1 BackSpace] ok by (auto simp: cons_ok_def)
  have "cons_ok s'"
    using ok t1 screen_only_simps [OF s'(2)] by (auto simp: cons_ok_def dest: in_set_butlastD)
  with s' t1 screen_only_simps [OF s'(2)] show ?thesis by auto
qed

lemma kill_line_ok:
  "n = unat (input_e s - input_w s) \<Longrightarrow> cons_ok s \<Longrightarrow>
   \<exists>s'. kill_line n s = Ok s' \<and> cons_ok s' \<and> tty_of s' = (fst (tty_of s), [])"
proof (induction n arbitrary: s)
  case 0
  then have "input_e s = input_w s" by (simp add: unat_eq_0)
  with 0 show ?case by (simp add: tty_of_def)
next
  case (Suc n)
  then have ne: "input_e s \<noteq> input_w s" by auto
  have "input_buf s ! ring (input_e s - 1) \<in> set (snd (tty_of s))"
    using contents_unput [of "input_w s" "input_e s" INPUT_BUF "input_buf s"] ne
    by (simp add: tty_of_def ring_rslot)
  then have no: "input_buf s ! ring (input_e s - 1) \<noteq> 10" using Suc.prems(2) by (auto simp: cons_ok_def)
  obtain s1 where s1: "consputc BackSpace (s\<lparr>input_e := input_e s - 1\<rparr>) = Ok s1" "cons_ok s1"
    "fst (tty_of s1) = fst (tty_of s)" "input_e s1 = input_e s - 1" "input_w s1 = input_w s"
    using cons_back [OF Suc.prems(2) ne] by auto
  have "input_e s1 - input_w s1 = input_e s - input_w s - 1" by (simp add: s1(4,5))
  then have "n = unat (input_e s1 - input_w s1)"
    using Suc.prems(1) unat_dec [of "input_e s - input_w s"] ne by simp
  from Suc.IH [OF this s1(2)] s1 no show ?case by auto
qed

text \<open>A character is appended to the line; the bytes in front of it stay.\<close>

lemma tty_of_put:
  assumes ok: "cons_ok s" and room: "length (fst (tty_of s)) + length (snd (tty_of s)) < INPUT_BUF"
  shows "tty_of (s\<lparr>input_buf := (input_buf s)[ring (input_e s) := b], input_e := input_e s + 1\<rparr>) =
    (fst (tty_of s), snd (tty_of s) @ [b])"
proof -
  let ?c = "contents INPUT_BUF" and ?b = "(input_buf s)[ring (input_e s) := b]"
  have len: "length (input_buf s) = INPUT_BUF" using ok by (simp add: cons_ok_def)
  have r: "unat (input_w s - input_r s) + unat (input_e s - input_w s) < INPUT_BUF"
    using room by (simp add: tty_of_def)
  have w1: "?c ?b (input_w s) (input_e s + 1) = ?c (input_buf s) (input_w s) (input_e s) @ [b]"
    unfolding ring_rslot using r by (intro cr.contents_put len) simp
  have all: "?c (input_buf s) (input_r s) (input_e s) =
      ?c (input_buf s) (input_r s) (input_w s) @ ?c (input_buf s) (input_w s) (input_e s)"
    using r by (intro contents_append) simp
  have "unat (input_e s - input_r s) < INPUT_BUF" using arg_cong [OF all, of length] r by simp
  then have "?c ?b (input_r s) (input_e s + 1) = ?c (input_buf s) (input_r s) (input_e s) @ [b]"
    unfolding ring_rslot by (intro cr.contents_put len)
  moreover have "?c ?b (input_r s) (input_e s + 1) =
      ?c ?b (input_r s) (input_w s) @ ?c ?b (input_w s) (input_e s + 1)"
    using arg_cong [OF w1, of length] r by (intro contents_append) simp
  ultimately have "?c ?b (input_r s) (input_w s) = ?c (input_buf s) (input_r s) (input_w s)"
    using all w1 by simp
  with w1 show ?thesis by (simp add: tty_of_def)
qed

lemma unat_e_r:
  assumes "length (fst (tty_of s)) + length (snd (tty_of s)) \<le> INPUT_BUF"
  shows "unat (input_e s - input_r s) = length (fst (tty_of s)) + length (snd (tty_of s))"
  using contents_append [of "input_w s" "input_r s" "input_e s" INPUT_BUF "input_buf s", THEN arg_cong, of length]
    assms by (simp add: tty_of_def)

lemma input_w_wakeup [simp]:
  "input_buf (wakeup ch s) = input_buf s" "input_r (wakeup ch s) = input_r s"
  "input_w (wakeup ch s) = input_w s" "input_e (wakeup ch s) = input_e s"
  "crt_pos (wakeup ch s) = crt_pos s" "tty_of (wakeup ch s) = tty_of s"
  by (simp_all add: wakeup_def wakeup1_def tty_of_def)

lemma tty_commit:
  assumes "length (fst (tty_of s)) + length (snd (tty_of s)) \<le> INPUT_BUF"
  shows "tty_of (s\<lparr>input_w := input_e s\<rparr>) = (fst (tty_of s) @ snd (tty_of s), [])"
  using contents_append [of "input_w s" "input_r s" "input_e s" INPUT_BUF "input_buf s"] assms
  by (simp add: tty_of_def)

lemma ucast_eq_byte: "c < 256 \<Longrightarrow> d < 256 \<Longrightarrow> (ucast c :: uchar) = ucast d \<longleftrightarrow> c = d" for c d :: uint
  by (simp add: word_unat_eq_iff word_less_nat_alt unsigned_ucast_eq take_bit_nat_eq_self)

lemma cons_store_ok:
  assumes ok: "cons_ok s" and room: "length (fst (tty_of s)) + length (snd (tty_of s)) < INPUT_BUF"
    and c: "(c :: uint) < 256"
  defines "s1 \<equiv> s\<lparr>input_buf := (input_buf s)[ring (input_e s) := ucast c], input_e := input_e s + 1\<rparr>"
  shows "\<exists>s'. bindR (consputc (Ch (ucast c)) s1) (\<lambda>s.
             if c = 10 \<or> c = 4 \<or> input_e s = input_r s + of_nat INPUT_BUF
             then Ok (wakeup ChInput (s\<lparr>input_w := input_e s\<rparr>)) else Ok s) = Ok s' \<and> cons_ok s' \<and>
    tty_of s' = (let (ready, line) = tty_of s; line = line @ [ucast c]
      in if (ucast c :: uchar) = 10 \<or> (ucast c :: uchar) = 4 \<or> length ready + length line = INPUT_BUF
         then (ready @ line, []) else (ready, line))"
proof -
  have t1: "tty_of s1 = (fst (tty_of s), snd (tty_of s) @ [ucast c])"
    unfolding s1_def by (rule tty_of_put [OF ok room])
  obtain s2 where s2: "consputc (Ch (ucast c)) s1 = Ok s2" "screen_only s1 s2"
    using consputc_ok [of s1 "Ch (ucast c)"] ok by (auto simp: cons_ok_def s1_def)
  note x = screen_only_simps [OF s2(2)]
  have t2: "tty_of s2 = (fst (tty_of s), snd (tty_of s) @ [ucast c])" by (simp add: x t1)
  have b: "length (fst (tty_of s2)) + length (snd (tty_of s2)) \<le> INPUT_BUF" using room by (simp add: t2)
  have "input_e s2 = input_r s2 + 128 \<longleftrightarrow> input_e s2 - input_r s2 = 128" by (simp add: algebra_simps)
  also have "\<dots> \<longleftrightarrow> unat (input_e s2 - input_r s2) = unat (128 :: uint)" by (simp only: word_unat_eq_iff)
  finally have full: "input_e s2 = input_r s2 + 128 \<longleftrightarrow> length (fst (tty_of s)) + Suc (length (snd (tty_of s))) = 128"
    by (simp add: unat_e_r [OF b] t2)
  have l2: "length (input_buf s2) = 128" using ok by (simp add: x s1_def cons_ok_def)
  have u: "(ucast c :: uchar) = 10 \<longleftrightarrow> c = 10" "(ucast c :: uchar) = 4 \<longleftrightarrow> c = 4"
    using ucast_eq_byte [OF c, of 10] ucast_eq_byte [OF c, of 4] by simp_all
  show ?thesis
  proof (cases "c = 10 \<or> c = 4 \<or> input_e s2 = input_r s2 + 128")
    case True
    have "tty_of (s2\<lparr>input_w := input_e s2\<rparr>) = (fst (tty_of s2) @ snd (tty_of s2), [])"
      by (rule tty_commit [OF b])
    then show ?thesis
      using True s2(1) u full t2 b l2 x(6,7) by (auto simp: cons_ok_def Let_def case_prod_beta)
  next
    case False
    then have "10 \<notin> set (snd (tty_of s2))" using ok u by (auto simp: t2 cons_ok_def)
    then show ?thesis
      using False s2(1) u full t2 b l2 x(6,7) by (auto simp: cons_ok_def Let_def case_prod_beta)
  qed
qed

lemma cons_char_ok:
  assumes ok: "cons_ok s" and c: "c < 256"
  shows "\<exists>s'. cons_char c s = Ok s' \<and> cons_ok s' \<and> tty_of s' = tty_char c (tty_of s)"
proof -
  have b: "length (fst (tty_of s)) + length (snd (tty_of s)) \<le> INPUT_BUF" using ok by (simp add: cons_ok_def)
  consider "c = 16" | "c = 21" | "c = 8 \<or> c = 127"
    | "c \<noteq> 16" "c \<noteq> 21" "c \<noteq> 8" "c \<noteq> 127" by blast
  then show ?thesis
  proof cases
    case 1
    then show ?thesis using ok by (simp add: cons_char_def tty_char_def case_prod_beta)
  next
    case 2
    then show ?thesis
      using kill_line_ok [OF refl ok] by (simp add: cons_char_def tty_char_def case_prod_beta)
  next
    case 3
    show ?thesis
    proof (cases "input_e s = input_w s")
      case True
      then have "tty_of s = (fst (tty_of s), butlast (snd (tty_of s)))" by (simp add: tty_of_def)
      with 3 True ok show ?thesis by (auto simp: cons_char_def tty_char_def case_prod_beta)
    next
      case False
      with 3 cons_back [OF ok False] show ?thesis
        by (auto simp: cons_char_def tty_char_def case_prod_beta)
    qed
  next
    case 4
    have e: "input_e s - input_r s < of_nat INPUT_BUF \<longleftrightarrow>
        length (fst (tty_of s)) + length (snd (tty_of s)) < INPUT_BUF"
      by (simp add: word_less_nat_alt unat_e_r [OF b])
    show ?thesis
    proof (cases "c \<noteq> 0 \<and> input_e s - input_r s < of_nat INPUT_BUF")
      case True
      let ?c = "if c = 13 then 10 else c"
      have "?c < 256" using c by simp
      from cons_store_ok [OF ok _ this] True e 4 show ?thesis
        unfolding cons_char_def tty_char_def
        by (simp add: case_prod_beta Let_def if_distrib [of ucast] cong: if_cong)
    next
      case False
      with 4 e ok show ?thesis by (auto simp: cons_char_def tty_char_def case_prod_beta)
    qed
  qed
qed

lemma cons_chars_ok:
  "cons_ok s \<Longrightarrow> \<forall>c \<in> set cs. c < 256 \<Longrightarrow>
   \<exists>s'. cons_chars cs s = Ok s' \<and> cons_ok s' \<and> tty_of s' = fold tty_char cs (tty_of s)"
proof (induction cs arbitrary: s)
  case (Cons c cs)
  obtain s1 where s1: "cons_char c s = Ok s1" "cons_ok s1" "tty_of s1 = tty_char c (tty_of s)"
    using cons_char_ok [OF Cons.prems(1), of c] Cons.prems(2) by auto
  with Cons.IH [OF s1(2)] Cons.prems(2) show ?case by auto
qed simp

subsection \<open>The process listing\<close>

lemma screen_only_refl: "0 \<le> crt_pos s \<Longrightarrow> crt_pos s < 24 * 80 \<Longrightarrow> screen_only s s"
  unfolding screen_only_def
  by (intro exI [of _ "uart_out s"] exI [of _ "crt_pos s"] exI [of _ "crt s"]) simp

lemma cons_ok_screen: "screen_only s s' \<Longrightarrow> cons_ok s \<Longrightarrow> cons_ok s'"
  using screen_only_simps [of s s'] by (simp add: cons_ok_def)

lemma consputs_ok:
  "0 \<le> crt_pos s \<Longrightarrow> crt_pos s < 24 * 80 \<Longrightarrow> \<exists>s'. consputs cs s = Ok s' \<and> screen_only s s'"
proof (induction cs arbitrary: s)
  case Nil
  then show ?case by (simp add: screen_only_refl)
next
  case (Cons c cs)
  obtain s1 where s1: "consputc (Ch c) s = Ok s1" "screen_only s s1"
    using consputc_ok [OF Cons.prems] by blast
  obtain s2 where "consputs cs s1 = Ok s2" "screen_only s1 s2"
    using Cons.IH [of s1] screen_only_simps(6,7) [OF s1(2)] by blast
  with s1 show ?case using screen_only_trans [OF s1(2)] by auto
qed

lemma kprintf_ok:
  assumes "cprintf (str fmt) args = Ok out" and "0 \<le> crt_pos s" and "crt_pos s < 24 * 80"
  shows "\<exists>s'. kprintf fmt args s = Ok s' \<and> screen_only s s'"
  using consputs_ok [OF assms(2,3)] assms(1) by (simp add: kprintf_def)

lemma print_pcs_ok:
  "0 \<le> crt_pos s \<Longrightarrow> crt_pos s < 24 * 80 \<Longrightarrow> \<exists>s'. print_pcs pcs s = Ok s' \<and> screen_only s s'"
proof (induction pcs arbitrary: s)
  case Nil
  then show ?case by (simp add: screen_only_refl)
next
  case (Cons pc pcs)
  have f: "cprintf (str '' %p'') [AInt pc] = Ok (32 # printint pc 16 False)"
    by (simp add: str_def directive_def)
  obtain s1 where s1: "kprintf '' %p'' [AInt pc] s = Ok s1" "screen_only s s1"
    using kprintf_ok [OF f Cons.prems] by blast
  obtain s2 where "print_pcs pcs s1 = Ok s2" "screen_only s1 s2"
    using Cons.IH [of s1] screen_only_simps(6,7) [OF s1(2)] by blast
  with s1 Cons.prems show ?case using screen_only_trans [OF s1(2)] screen_only_refl [of s] by auto
qed

lemma procdump_line_ok:
  assumes "0 \<le> crt_pos s" and "crt_pos s < 24 * 80"
  shows "\<exists>s'. bindR (kprintf ''%d %s %s'' [AInt a, AStr (Some b), AStr (Some c)] s) (\<lambda>s.
      bindR (if q then print_pcs (f s) s else Ok s) (consputs [10])) = Ok s' \<and> screen_only s s'"
proof -
  have "\<exists>out. cprintf (str ''%d %s %s'') [AInt a, AStr (Some b), AStr (Some c)] = Ok out"
    by (simp add: str_def directive_def)
  then obtain s1 where s1: "kprintf ''%d %s %s'' [AInt a, AStr (Some b), AStr (Some c)] s = Ok s1"
    "screen_only s s1"
    using kprintf_ok assms by blast
  note r1 = screen_only_simps(6,7) [OF s1(2)]
  obtain s2 where s2: "(if q then print_pcs (f s1) s1 else Ok s1) = Ok s2" "screen_only s1 s2"
    using print_pcs_ok [OF r1] screen_only_refl [OF r1] by (cases q) auto
  obtain s3 where s3: "consputs [10] s2 = Ok s3" "screen_only s2 s3"
    using consputs_ok screen_only_simps(6,7) [OF s2(2)] by blast
  have "screen_only s s3" by (rule screen_only_trans [OF screen_only_trans [OF s1(2) s2(2)] s3(2)])
  with s1(1) s2(1) s3(1) show ?thesis by (simp del: consputs.simps)
qed

lemma procdump_loop_ok:
  "0 \<le> crt_pos s \<Longrightarrow> crt_pos s < 24 * 80 \<Longrightarrow> \<exists>s'. procdump_loop ps s = Ok s' \<and> screen_only s s'"
proof (induction ps arbitrary: s)
  case Nil
  then show ?case by (simp add: screen_only_refl)
next
  case (Cons p ps)
  have "\<exists>s1. (if p_state p = UNUSED then Ok s
            else
              bindR (kprintf ''%d %s %s''
                [AInt (of_int (p_pid p)), AStr (Some (state_name (p_state p))), AStr (Some (p_name p))] s) (\<lambda>s.
              bindR (if p_state p = SLEEPING
                     then print_pcs (getcallerpcs (load32 (k_mem s) (p_context p + 12) + 8) (k_mem s)) s
                     else Ok s)
                (consputs [10]))) = Ok s1 \<and> screen_only s s1"
    using procdump_line_ok [OF Cons.prems] screen_only_refl [OF Cons.prems] by (cases "p_state p = UNUSED") simp_all
  then obtain s1 where s1: "bindR (if p_state p = UNUSED then Ok s
            else
              bindR (kprintf ''%d %s %s''
                [AInt (of_int (p_pid p)), AStr (Some (state_name (p_state p))), AStr (Some (p_name p))] s) (\<lambda>s.
              bindR (if p_state p = SLEEPING
                     then print_pcs (getcallerpcs (load32 (k_mem s) (p_context p + 12) + 8) (k_mem s)) s
                     else Ok s)
                (consputs [10]))) (procdump_loop ps) = procdump_loop ps s1" "screen_only s s1"
    by auto
  obtain s2 where "procdump_loop ps s1 = Ok s2" "screen_only s1 s2"
    using Cons.IH [of s1] screen_only_simps(6,7) [OF s1(2)] by blast
  with s1 screen_only_trans [OF s1(2)] show ?case by (simp only: procdump_loop.simps) blast
qed

text \<open>
  C8. The line discipline: for every sequence of bytes an interrupt delivers, \<open>consoleintr\<close> neither
  panics nor faults, and does to the bytes ready for readers and to the line being edited what
  \<open>tty_char\<close> says: control-U empties the line, backspace and delete remove its last character,
  return is stored as newline, any other byte is appended while the 128 bytes of the ring are not used
  up, and a newline, a control-D or a full ring hands the line to the readers. Nothing else changes
  either list, across any wrap of the counters.
\<close>

theorem console_line_discipline:
  assumes "cons_ok s" and "\<forall>c \<in> set cs. c < 256"
  shows "\<exists>s'. consoleintr cs s = Ok s' \<and> cons_ok s' \<and> tty_of s' = fold tty_char cs (tty_of s)"
proof -
  obtain s1 where s1: "cons_chars cs s = Ok s1" "cons_ok s1" "tty_of s1 = fold tty_char cs (tty_of s)"
    using cons_chars_ok [OF assms] by blast
  obtain s2 where "procdump s1 = Ok s2" "screen_only s1 s2"
    using procdump_loop_ok [of s1 "procs s1"] s1(2) by (auto simp: procdump_def cons_ok_def)
  then show ?thesis
    using s1 cons_ok_screen [of s1 s2] screen_only_simps(5) [of s1 s2] by (auto simp: consoleintr_def)
qed

lemma cst_boot_simps:
  "input_buf cst_boot = replicate 128 0" "input_r cst_boot = 0" "input_w cst_boot = 0"
  "input_e cst_boot = 0" "crt_pos cst_boot = 0"
  by (simp_all add: cst_boot_def fsst.extend_def cst.fields_def)

text \<open>Typing \<^verbatim>\<open>lx\<close>, backspace, \<^verbatim>\<open>s\<close>, return.\<close>

theorem console_line_discipline_witness:
  "cons_ok cst_boot \<and> (\<exists>s'. consoleintr [108, 120, 8, 115, 13] cst_boot = Ok s' \<and>
     tty_of s' = ([108, 115, 10], []))"
proof -
  have ok: "cons_ok cst_boot" by (simp add: cons_ok_def tty_of_def cst_boot_simps)
  have "tty_of cst_boot = ([], [])" by (simp add: tty_of_def cst_boot_simps)
  then have "fold tty_char [108, 120, 8, 115, 13] (tty_of cst_boot) = ([108, 115, 10], [])"
    by (simp add: tty_char_def)
  with console_line_discipline [OF ok, of "[108, 120, 8, 115, 13]"] ok show ?thesis by auto
qed

text \<open>What a reader takes: the loop goes through a line up to its end.\<close>

lemma cons_take:
  assumes "cons_ok s" and "fst (tty_of s) = b # bs"
  shows "input_r s \<noteq> input_w s" and "input_buf s ! ring (input_r s) = b"
    and "cons_ok (s\<lparr>input_r := input_r s + 1\<rparr>)" and "tty_of (s\<lparr>input_r := input_r s + 1\<rparr>) = (bs, snd (tty_of s))"
proof -
  show ne: "input_r s \<noteq> input_w s" using assms(2) by (auto simp: tty_of_def)
  show "input_buf s ! ring (input_r s) = b"
    using contents_get [OF ne, of 128 "input_buf s"] assms(2) by (simp add: tty_of_def ring_rslot)
  show t: "tty_of (s\<lparr>input_r := input_r s + 1\<rparr>) = (bs, snd (tty_of s))"
    using contents_get [OF ne, of 128 "input_buf s"] assms(2) by (simp add: tty_of_def)
  show "cons_ok (s\<lparr>input_r := input_r s + 1\<rparr>)"
    using assms by (simp add: cons_ok_def t)
qed

lemma cread_line:
  "cons_ok s \<Longrightarrow> fst (tty_of s) = line @ d # rest \<Longrightarrow> d = 10 \<or> d = 4 \<Longrightarrow> 10 \<notin> set line \<Longrightarrow> 4 \<notin> set line \<Longrightarrow>
   length line < n \<Longrightarrow> n + length acc = target \<Longrightarrow>
   \<exists>s'. cread_loop n target acc s = Ok (RdDone (acc @ line @ (if d = 10 then [10] else [])), s') \<and> cons_ok s' \<and>
     tty_of s' = (if d = 4 \<and> acc @ line \<noteq> [] then d # rest else rest, snd (tty_of s))"
proof (induction line arbitrary: s n acc)
  case Nil
  have f: "fst (tty_of s) = d # rest" using Nil.prems(2) by simp
  note g = cons_take [OF Nil.prems(1) f]
  obtain m where m: "n = Suc m" using Nil.prems(6) by (cases n) auto
  have less: "Suc m < target \<longleftrightarrow> acc \<noteq> []" using Nil.prems(7) m by auto
  have s: "s\<lparr>input_r := input_r s\<rparr> = s" by simp
  show ?case
  proof (cases "d = 4 \<and> acc \<noteq> []")
    case True
    then show ?thesis using Nil.prems(1) g(1,2) m less f by (simp add: Let_def s prod_eq_iff)
  next
    case False
    then show ?thesis using Nil.prems(3) g m less by (auto simp: Let_def)
  qed
next
  case (Cons b line)
  have f: "fst (tty_of s) = b # line @ d # rest" using Cons.prems(2) by simp
  note g = cons_take [OF Cons.prems(1) f]
  let ?s = "s\<lparr>input_r := input_r s + 1\<rparr>"
  obtain m where m: "n = Suc m" using Cons.prems(6) by (cases n) auto
  have "\<exists>s'. cread_loop m target (acc @ [b]) ?s =
      Ok (RdDone ((acc @ [b]) @ line @ (if d = 10 then [10] else [])), s') \<and> cons_ok s' \<and>
     tty_of s' = (if d = 4 \<and> (acc @ [b]) @ line \<noteq> [] then d # rest else rest, snd (tty_of ?s))"
    using Cons.prems m g(4) by (intro Cons.IH [OF g(3)]) auto
  with g m Cons.prems(4,5) show ?case by (auto simp: Let_def)
qed

text \<open>
  C9. Reading from the console goes by lines: if the bytes ready are \<open>line\<close>, with no newline and no
  control-D in it, then the end \<open>d\<close> of a line, then \<open>rest\<close>, a read of more bytes than \<open>line\<close> has
  does not sleep; it returns the line with its newline, and leaves \<open>rest\<close>. A control-D is not
  returned: alone it makes the read return no bytes, the end of the file, and is used up; after other
  bytes it stays, so that the next read returns no bytes.
\<close>

theorem console_read_line:
  assumes "cons_ok s" and "fst (tty_of s) = line @ d # rest" and "d = 10 \<or> d = 4"
    and "10 \<notin> set line" and "4 \<notin> set line" and "length line < n"
  shows "\<exists>s'. cread_loop n n [] s = Ok (RdDone (if d = 10 then line @ [10] else line), s') \<and> cons_ok s' \<and>
    tty_of s' = (if d = 4 \<and> line \<noteq> [] then d # rest else rest, snd (tty_of s))"
  using cread_line [OF assms, of "[]" n] by auto

theorem console_read_line_witness:
  "\<exists>s1 s2. consoleintr [104, 105, 13, 4] cst_boot = Ok s1 \<and> fst (tty_of s1) = [104, 105] @ 10 # [4] \<and>
     cread_loop 100 100 [] s1 = Ok (RdDone [104, 105, 10], s2) \<and> tty_of s2 = ([4], [])"
proof -
  have ok: "cons_ok cst_boot" by (simp add: cons_ok_def tty_of_def cst_boot_simps)
  have "tty_of cst_boot = ([], [])" by (simp add: tty_of_def cst_boot_simps)
  then have "fold tty_char [104, 105, 13, 4] (tty_of cst_boot) = ([104, 105, 10, 4], [])"
    by (simp add: tty_char_def)
  then obtain s1 where s1: "cons_chars [104, 105, 13, 4] cst_boot = Ok s1" "cons_ok s1"
    "tty_of s1 = ([104, 105, 10, 4], [])"
    using cons_chars_ok [OF ok, of "[104, 105, 13, 4]"] by auto
  then have i: "consoleintr [104, 105, 13, 4] cst_boot = Ok s1" by (simp add: consoleintr_def)
  have f: "fst (tty_of s1) = [104, 105] @ 10 # [4]" by (simp add: s1(3))
  have "\<exists>s2. cread_loop 100 100 [] s1 = Ok (RdDone [104, 105, 10], s2) \<and> tty_of s2 = ([4], [])"
    using console_read_line [OF s1(2) f, of 100] s1(3) by auto
  with i f show ?thesis by blast
qed

end
