(* ===== verification/File.thy ===== *)
theory File
  imports Pipe
begin

section \<open>Open files: file.c and pipealloc\<close>

text \<open>
  The file table is a list of 100 records, a file pointer an index. Reading returns the bytes stored
  through the caller's pointer, writing takes the bytes behind it.
\<close>

datatype fdtype = FD_NONE | FD_PIPE | FD_INODE

record kfile =
  f_type :: fdtype
  f_ref :: int
  f_readable :: bool
  f_writable :: bool
  f_pipe :: uint
  f_ip :: nat
  f_off :: uint

record ftst = pipest +
  ftable :: "kfile list"

definition upd_file :: "nat \<Rightarrow> (kfile \<Rightarrow> kfile) \<Rightarrow> 'z ftst_scheme \<Rightarrow> 'z ftst_scheme" where
  "upd_file i f s = s\<lparr>ftable := (ftable s)[i := f (ftable s ! i)]\<rparr>"

definition filealloc :: "'z ftst_scheme \<Rightarrow> nat option \<times> 'z ftst_scheme" where
  "filealloc s =
     (case scan (\<lambda>f. f_ref f = 0) (ftable s) of
        None \<Rightarrow> (None, s)
      | Some i \<Rightarrow> (Some i, upd_file i (\<lambda>f. f\<lparr>f_ref := 1\<rparr>) s))"

definition filedup :: "nat \<Rightarrow> 'z ftst_scheme \<Rightarrow> 'z ftst_scheme res" where
  "filedup i s =
     (if f_ref (ftable s ! i) < 1 then Panic ''filedup''
      else Ok (upd_file i (\<lambda>f. f\<lparr>f_ref := f_ref f + 1\<rparr>) s))"

definition fileclose :: "nat \<Rightarrow> 'z ftst_scheme \<Rightarrow> 'z ftst_scheme res" where
  "fileclose i s =
     (if f_ref (ftable s ! i) < 1 then Panic ''fileclose''
      else
        let s = upd_file i (\<lambda>f. f\<lparr>f_ref := f_ref f - 1\<rparr>) s in
        if 0 < f_ref (ftable s ! i) then Ok s
        else
          let ff = ftable s ! i; s = upd_file i (\<lambda>f. f\<lparr>f_ref := 0, f_type := FD_NONE\<rparr>) s in
          case f_type ff of
            FD_PIPE \<Rightarrow> pipeclose (f_pipe ff) (f_writable ff) s
          | FD_INODE \<Rightarrow>
              bindR (begin_op s) (\<lambda>s. bindR (iput (f_ip ff) s) (\<lambda>s. end_op s))
          | FD_NONE \<Rightarrow> Ok s)"

definition filestat :: "nat \<Rightarrow> 'z ftst_scheme \<Rightarrow> (int \<times> uchar list \<times> 'z ftst_scheme) res" where
  "filestat i s =
     (let f = ftable s ! i in
      if f_type f = FD_INODE then
        bindR (ilock (f_ip f) s) (\<lambda>s.
          let st = stati (f_ip f) s in bindR (iunlock (f_ip f) s) (\<lambda>s. Ok (0, st, s)))
      else Ok (- 1, [], s))"

definition fileread :: "nat \<Rightarrow> int \<Rightarrow> 'z ftst_scheme \<Rightarrow> ((int \<times> uchar list) outcome \<times> 'z ftst_scheme) res" where
  "fileread i n s =
     (let f = ftable s ! i in
      if \<not> f_readable f then Ok (Done (- 1, []), s)
      else case f_type f of
        FD_PIPE \<Rightarrow> piperead (f_pipe f) n s
      | FD_INODE \<Rightarrow>
          bindR (ilock (f_ip f) s) (\<lambda>s.
          bindR (readi (f_ip f) (f_off f) (of_int n) s) (\<lambda>(r, bytes, s).
            let s = (if 0 < r then upd_file i (\<lambda>f. f\<lparr>f_off := f_off f + of_int r\<rparr>) s else s) in
            bindR (iunlock (f_ip f) s) (\<lambda>s. Ok (Done (r, bytes), s))))
      | FD_NONE \<Rightarrow> Panic ''fileread'')"

text \<open>The loop over pieces of at most \<^verbatim>\<open>((LOGSIZE-1-1-2) / 2) * 512\<close> bytes.\<close>

abbreviation (input) WRITE_MAX :: nat where "WRITE_MAX \<equiv> (LOGSIZE - 1 - 1 - 2) div 2 * 512"

function filewrite_loop :: "nat \<Rightarrow> uchar list \<Rightarrow> 'z ftst_scheme \<Rightarrow> (bool \<times> 'z ftst_scheme) res" where
  "filewrite_loop i src s =
     (if src = [] then Ok (True, s)
      else
        let n1 = min (length src) WRITE_MAX; ip = f_ip (ftable s ! i) in
        bindR (begin_op s) (\<lambda>s.
        bindR (ilock ip s) (\<lambda>s.
        bindR (writei ip (take n1 src) (f_off (ftable s ! i)) s) (\<lambda>(r, s).
          let s = (if 0 < r then upd_file i (\<lambda>f. f\<lparr>f_off := f_off f + of_int r\<rparr>) s else s) in
          bindR (iunlock ip s) (\<lambda>s.
          bindR (end_op s) (\<lambda>s.
            if r < 0 then Ok (False, s)
            else if r \<noteq> int n1 then Panic ''short filewrite''
            else filewrite_loop i (drop n1 src) s))))))"
  by pat_completeness auto
termination
  by (relation "measure (\<lambda>(i, src, s). length src)") auto

declare filewrite_loop.simps [simp del]

definition filewrite :: "nat \<Rightarrow> uchar list \<Rightarrow> 'z ftst_scheme \<Rightarrow>
    (int outcome \<times> uchar list \<times> 'z ftst_scheme) res" where
  "filewrite i src s =
     (let f = ftable s ! i in
      if \<not> f_writable f then Ok (Done (- 1), [], s)
      else case f_type f of
        FD_PIPE \<Rightarrow> pipewrite (f_pipe f) src s
      | FD_INODE \<Rightarrow>
          bindR (filewrite_loop i src s) (\<lambda>(ok, s).
            Ok (Done (if ok then int (length src) else - 1), [], s))
      | FD_NONE \<Rightarrow> Panic ''filewrite'')"

text \<open>
  \<open>pipealloc\<close>; the page's structure keeps the bytes \<^verbatim>\<open>data\<close> it finds there, whose value no
  reader sees.
\<close>

definition pipealloc :: "'z ftst_scheme \<Rightarrow> ((nat \<times> nat) option \<times> 'z ftst_scheme) res" where
  "pipealloc s =
     (let (f0, s) = filealloc s in
      case f0 of
        None \<Rightarrow> Ok (None, s)
      | Some i \<Rightarrow>
          let (f1, s) = filealloc s in
          case f1 of
            None \<Rightarrow> bindR (fileclose i s) (\<lambda>s. Ok (None, s))
          | Some j \<Rightarrow>
              let (p, s) = kalloc s in
              if p = 0 then
                bindR (fileclose i s) (\<lambda>s. bindR (fileclose j s) (\<lambda>s. Ok (None, s)))
              else
                let s = upd_pipe p (\<lambda>x. x\<lparr>pp_readopen := True, pp_writeopen := True,
                          pp_nwrite := 0, pp_nread := 0\<rparr>) s;
                    s = upd_file i (\<lambda>f. f\<lparr>f_type := FD_PIPE, f_readable := True,
                          f_writable := False, f_pipe := p\<rparr>) s;
                    s = upd_file j (\<lambda>f. f\<lparr>f_type := FD_PIPE, f_readable := False,
                          f_writable := True, f_pipe := p\<rparr>) s
                in Ok (Some (i, j), s))"

definition ftst_boot :: ftst where
  "ftst_boot = pipest.extend pipest_boot (ftst.fields
     (replicate NFILE \<lparr>f_type = FD_NONE, f_ref = 0, f_readable = False, f_writable = False,
        f_pipe = 0, f_ip = 0, f_off = 0\<rparr>))"

end
