(* ===== verification/Proc.thy ===== *)
theory Proc
  imports File
begin

section \<open>Creating and ending processes: the rest of proc.c\<close>

text \<open>
  A trap frame is 76 bytes at the top of the process's kernel stack; the offsets of its fields
  follow \<^verbatim>\<open>struct trapframe\<close>. Structure assignment copies the bytes.
\<close>

record kst = ftst +
  forkret_first :: bool

abbreviation (input) TF_EBP :: uint where "TF_EBP \<equiv> 8"
abbreviation (input) TF_EAX :: uint where "TF_EAX \<equiv> 28"
abbreviation (input) TF_ES :: uint where "TF_ES \<equiv> 40"
abbreviation (input) TF_DS :: uint where "TF_DS \<equiv> 44"
abbreviation (input) TF_TRAPNO :: uint where "TF_TRAPNO \<equiv> 48"
abbreviation (input) TF_EIP :: uint where "TF_EIP \<equiv> 56"
abbreviation (input) TF_CS :: uint where "TF_CS \<equiv> 60"
abbreviation (input) TF_EFLAGS :: uint where "TF_EFLAGS \<equiv> 64"
abbreviation (input) TF_ESP :: uint where "TF_ESP \<equiv> 68"
abbreviation (input) TF_SS :: uint where "TF_SS \<equiv> 72"

definition tf_get :: "uint \<Rightarrow> uint \<Rightarrow> 'z km_scheme \<Rightarrow> uint" where
  "tf_get tf off s = load32 (k_mem s) (tf + off)"

definition tf_set :: "uint \<Rightarrow> uint \<Rightarrow> uint \<Rightarrow> 'z km_scheme \<Rightarrow> 'z km_scheme" where
  "tf_set tf off v s = s\<lparr>k_mem := store32 (k_mem s) (tf + off) v\<rparr>"

definition tf_set16 :: "uint \<Rightarrow> uint \<Rightarrow> ushort \<Rightarrow> 'z km_scheme \<Rightarrow> 'z km_scheme" where
  "tf_set16 tf off v s = s\<lparr>k_mem := store16 (k_mem s) (tf + off) v\<rparr>"

definition tf_copy :: "uint \<Rightarrow> uint \<Rightarrow> 'z km_scheme \<Rightarrow> 'z km_scheme" where
  "tf_copy dst src s = s\<lparr>k_mem := memmove (k_mem s) dst src 76\<rparr>"

text \<open>\<open>userinit\<close>, given the bytes of the first program. The null results are not tested.\<close>

definition userinit :: "uchar list \<Rightarrow> 'z kst_scheme \<Rightarrow> 'z kst_scheme res" where
  "userinit initcode s =
     (let (p, s) = allocproc s; s = s\<lparr>initproc := p\<rparr> in
      case p of
        None \<Rightarrow> Fault
      | Some i \<Rightarrow>
          bindR (setupkvm s) (\<lambda>(pgdir, s).
            let s = upd_proc i (\<lambda>p. p\<lparr>p_pgdir := pgdir\<rparr>) s in
            if pgdir = 0 then Panic ''userinit: out of memory?''
            else
              bindR (inituvm pgdir initcode s) (\<lambda>s.
                let s = upd_proc i (\<lambda>p. p\<lparr>p_sz := PGSIZE\<rparr>) s;
                    tf = p_tf (procs s ! i);
                    s = s\<lparr>k_mem := memset (k_mem s) tf 0 76\<rparr>;
                    s = tf_set16 tf TF_CS (push_bit 3 3 OR 3) s;
                    s = tf_set16 tf TF_DS (push_bit 3 4 OR 3) s;
                    s = tf_set16 tf TF_ES (push_bit 3 4 OR 3) s;
                    s = tf_set16 tf TF_SS (push_bit 3 4 OR 3) s;
                    s = tf_set tf TF_EFLAGS 0x200 s;
                    s = tf_set tf TF_ESP PGSIZE s;
                    s = tf_set tf TF_EIP 0 s;
                    s = upd_proc i (\<lambda>p. p\<lparr>p_name := safestrcpy (p_name p)
                          [105, 110, 105, 116, 99, 111, 100, 101] 16\<rparr>) s
                in bindR (namei [47] s) (\<lambda>(ip, s).
                     Ok (upd_proc i (\<lambda>p. p\<lparr>p_cwd := ip, p_state := RUNNABLE\<rparr>) s)))))"

definition forkret :: "'z kst_scheme \<Rightarrow> 'z kst_scheme res" where
  "forkret s =
     (if forkret_first s then
        bindR (iinit ROOTDEV (s\<lparr>forkret_first := False\<rparr>)) (\<lambda>s. initlog ROOTDEV s)
      else Ok s)"

text \<open>Duplicate the descriptors from \<open>k\<close> on, with \<open>n\<close> to go.\<close>

fun dup_files :: "nat \<Rightarrow> nat \<Rightarrow> nat \<Rightarrow> nat \<Rightarrow> 'z kst_scheme \<Rightarrow> 'z kst_scheme res" where
  "dup_files 0 k c np s = Ok s"
| "dup_files (Suc n) k c np s =
     bindR (case p_ofile (procs s ! c) ! k of
              None \<Rightarrow> Ok s
            | Some f \<Rightarrow>
                bindR (filedup f s) (\<lambda>s.
                  Ok (upd_proc np (\<lambda>p. p\<lparr>p_ofile := (p_ofile p)[k := Some f]\<rparr>) s)))
       (dup_files n (Suc k) c np)"

text \<open>The end of \<open>fork\<close> and \<open>clone\<close>: files, directory, name, and the new process may run.\<close>

definition inherit :: "nat \<Rightarrow> nat \<Rightarrow> 'z kst_scheme \<Rightarrow> (int \<times> 'z kst_scheme) res" where
  "inherit c np s =
     bindR (dup_files NOFILE 0 c np s) (\<lambda>s.
       case p_cwd (procs s ! c) of
         None \<Rightarrow> Fault
       | Some i \<Rightarrow>
           let s = upd_proc np (\<lambda>p. p\<lparr>p_cwd := Some i\<rparr>) (idup i s);
               s = upd_proc np (\<lambda>p. p\<lparr>p_name := safestrcpy (p_name p) (p_name (procs s ! c)) 16\<rparr>) s
           in Ok (p_pid (procs s ! np), upd_proc np (\<lambda>p. p\<lparr>p_state := RUNNABLE\<rparr>) s))"

definition fork :: "'z kst_scheme \<Rightarrow> (int \<times> 'z kst_scheme) res" where
  "fork = myproc (\<lambda>c s.
     case allocproc s of
       (None, s) \<Rightarrow> Ok (- 1, s)
     | (Some np, s) \<Rightarrow>
         bindR (copyuvm (p_pgdir (procs s ! c)) (p_sz (procs s ! c)) s) (\<lambda>(pgdir, s).
           let s = upd_proc np (\<lambda>p. p\<lparr>p_pgdir := pgdir\<rparr>) s in
           if pgdir = 0 then
             bindR (kfree (p_kstack (procs s ! np)) s) (\<lambda>s.
               Ok (- 1, upd_proc np (\<lambda>p. p\<lparr>p_kstack := 0, p_state := UNUSED\<rparr>) s))
           else
             let s = upd_proc np (\<lambda>p. p\<lparr>p_sz := p_sz (procs s ! c), p_parent := Some c\<rparr>) s;
                 s = tf_copy (p_tf (procs s ! np)) (p_tf (procs s ! c)) s;
                 s = tf_set (p_tf (procs s ! np)) TF_EAX 0 s
             in inherit c np s))"

definition clone :: "uint \<Rightarrow> uint \<Rightarrow> uint \<Rightarrow> 'z kst_scheme \<Rightarrow> (int \<times> 'z kst_scheme) res" where
  "clone func arg stack = myproc (\<lambda>c s.
     case allocproc s of
       (None, s) \<Rightarrow> Ok (- 1, s)
     | (Some np, s) \<Rightarrow>
         let s = upd_proc np (\<lambda>p. p\<lparr>p_pgdir := p_pgdir (procs s ! c), p_sz := p_sz (procs s ! c),
                   p_parent := Some c\<rparr>) s;
             tf = p_tf (procs s ! np);
             s = tf_copy tf (p_tf (procs s ! c)) s;
             s = upd_proc np (\<lambda>p. p\<lparr>p_stack := stack\<rparr>) s;
             s = tf_set tf TF_EAX 0 s;
             s = tf_set tf TF_EIP func s;
             pgdir = p_pgdir (procs s ! c)
         in bindR (uwrite pgdir (stack + 4096 - 8) (le32 0xFFFFFFFF) s) (\<lambda>s.
            bindR (uwrite pgdir (stack + 4096 - 4) (le32 arg) s) (\<lambda>s.
              let s = tf_set tf TF_ESP (stack + PGSIZE - 8) s;
                  s = tf_set tf TF_EBP (stack + PGSIZE - 8) s;
                  s = upd_proc np (\<lambda>p. p\<lparr>p_isthread := 1\<rparr>) s
              in inherit c np s)))"

text \<open>The semaphores the process still holds, from \<open>i\<close> on, are released with a warning.\<close>

fun release_sems :: "nat \<Rightarrow> nat \<Rightarrow> nat \<Rightarrow> 'z cst_scheme \<Rightarrow> 'z cst_scheme res" where
  "release_sems 0 i c s = Ok s"
| "release_sems (Suc n) i c s =
     (let count = p_sem_held (procs s ! c) ! i in
      bindR
        (if 0 < count then
           bindR (kprintf (''WARNING: pid %d exited with %d resources of sem %d held. Auto-releasing.'' @ [CHR 0x0A])
             [AInt (of_int (p_pid (procs s ! c))), AInt (of_int count), AInt (of_nat i)] s) (\<lambda>s.
             Ok (upd_proc c (\<lambda>p. p\<lparr>p_sem_held := (p_sem_held p)[i := 0]\<rparr>)
                   (snd (sem_signal (int i) count s))))
         else Ok s)
        (release_sems n (Suc i) c))"

fun close_files :: "nat \<Rightarrow> nat \<Rightarrow> nat \<Rightarrow> 'z kst_scheme \<Rightarrow> 'z kst_scheme res" where
  "close_files 0 fd c s = Ok s"
| "close_files (Suc n) fd c s =
     bindR (case p_ofile (procs s ! c) ! fd of
              None \<Rightarrow> Ok s
            | Some f \<Rightarrow>
                bindR (fileclose f s) (\<lambda>s.
                  Ok (upd_proc c (\<lambda>p. p\<lparr>p_ofile := (p_ofile p)[fd := None]\<rparr>) s)))
       (close_files n (Suc fd) c)"

fun reparent :: "nat \<Rightarrow> nat \<Rightarrow> nat \<Rightarrow> 'z pst_scheme \<Rightarrow> 'z pst_scheme" where
  "reparent 0 i c s = s"
| "reparent (Suc n) i c s =
     reparent n (Suc i) c
       (if p_parent (procs s ! i) = Some c then
          let s = upd_proc i (\<lambda>p. p\<lparr>p_parent := initproc s\<rparr>) s
          in if p_state (procs s ! i) = ZOMBIE then wakeup1 (map_option ChProc (initproc s)) s else s
        else s)"

text \<open>The critical section at the end of \<open>exit\<close>, from which the process never comes back.\<close>

definition exit_zombie :: "nat \<Rightarrow> 'z pst_scheme \<Rightarrow> 'z pst_scheme res" where
  "exit_zombie c s =
     (let s = wakeup1 (map_option ChProc (p_parent (procs s ! c))) s;
          s = reparent NPROC 0 c s
      in sched (upd_proc c (\<lambda>p. p\<lparr>p_state := ZOMBIE\<rparr>) s))"

definition exit :: "'z kst_scheme \<Rightarrow> 'z kst_scheme res" where
  "exit = myproc (\<lambda>c s.
     if initproc s = Some c then Panic ''init exiting''
     else
       bindR (release_sems 32 0 c s) (\<lambda>s.
       bindR (close_files NOFILE 0 c s) (\<lambda>s.
       bindR (begin_op s) (\<lambda>s.
         case p_cwd (procs s ! c) of
           None \<Rightarrow> Fault
         | Some i \<Rightarrow>
             bindR (iput i s) (\<lambda>s.
             bindR (end_op s) (\<lambda>s.
               exit_zombie c (upd_proc c (\<lambda>p. p\<lparr>p_cwd := None\<rparr>) s)))))))"

definition kst_boot :: kst where
  "kst_boot = ftst.extend ftst_boot (kst.fields True)"

end
