(* ===== verification/Exec.thy ===== *)
theory Exec
  imports Proc
begin

section \<open>Loading a program: loaduvm and exec.c\<close>

text \<open>
  The ELF headers are read as bytes and decoded at the offsets of \<^verbatim>\<open>elf.h\<close>. The argument strings
  are byte lists, in order; the array the source walks ends at its null pointer. A part of \<open>exec\<close>
  that can jump to \<^verbatim>\<open>bad\<close> returns \<open>None\<close> for the jump.
\<close>

text \<open>\<open>i\<close> counts up in pages; \<open>sz - i\<close> bytes are still to be loaded.\<close>

function loaduvm_loop :: "uint \<Rightarrow> uint \<Rightarrow> nat \<Rightarrow> uint \<Rightarrow> uint \<Rightarrow> uint \<Rightarrow> 'z cst_scheme \<Rightarrow> (int \<times> 'z cst_scheme) res" where
  "loaduvm_loop pgdir addr ip offset sz i s =
     (if i < sz then
        (case fst (walkpgdir pgdir (addr + i) False s) of
           None \<Rightarrow> Panic ''loaduvm: address should exist''
         | Some pte \<Rightarrow>
             let pa = PTE_ADDR (load32 (k_mem s) pte);
                 n = (if sz - i < PGSIZE then sz - i else PGSIZE)
             in bindR (readi ip (offset + i) n s) (\<lambda>(r, bytes, s).
                  let s = s\<lparr>k_mem := write_bytes (k_mem s) (P2V pa) bytes\<rparr> in
                  if of_int r \<noteq> n then Ok (- 1, s)
                  else if i < i + PGSIZE then loaduvm_loop pgdir addr ip offset sz (i + PGSIZE) s
                  else Diverge))
      else Ok (0, s))"
  by pat_completeness auto
termination
proof (relation "measure (\<lambda>(pgdir, addr, ip, offset, sz, i, s). 4294967296 - unat i)")
  fix pgdir addr offset sz i :: uint and ip :: nat and s s' :: "'z cst_scheme"
  assume "i < i + PGSIZE"
  then show "((pgdir, addr, ip, offset, sz, i + PGSIZE, s'), pgdir, addr, ip, offset, sz, i, s)
      \<in> measure (\<lambda>(pgdir, addr, ip, offset, sz, i, s). 4294967296 - unat i)"
    using unat_lt32 [of i] by (simp add: word_less_nat_alt)
qed simp

declare loaduvm_loop.simps [simp del]

definition loaduvm :: "uint \<Rightarrow> uint \<Rightarrow> nat \<Rightarrow> uint \<Rightarrow> uint \<Rightarrow> 'z cst_scheme \<Rightarrow> (int \<times> 'z cst_scheme) res" where
  "loaduvm pgdir addr ip offset sz s =
     (if addr mod PGSIZE \<noteq> 0 then Panic ''loaduvm: addr must be page aligned''
      else loaduvm_loop pgdir addr ip offset sz 0 s)"

abbreviation (input) ELF_MAGIC :: uint where "ELF_MAGIC \<equiv> 0x464C457F"

record proghdr =
  ph_type :: uint
  ph_off :: uint
  ph_vaddr :: uint
  ph_filesz :: uint
  ph_memsz :: uint

definition dec_proghdr :: "uchar list \<Rightarrow> proghdr" where
  "dec_proghdr b = \<lparr>ph_type = word_at b 0, ph_off = word_at b 1, ph_vaddr = word_at b 2,
     ph_filesz = word_at b 4, ph_memsz = word_at b 5\<rparr>"

text \<open>The loop over the program headers, \<open>n\<close> of them left, the next at offset \<open>off\<close>.\<close>

fun load_segments :: "nat \<Rightarrow> uint \<Rightarrow> uint \<Rightarrow> nat \<Rightarrow> uint \<Rightarrow> 'z cst_scheme \<Rightarrow> (uint option \<times> 'z cst_scheme) res" where
  "load_segments 0 off pgdir ip sz s = Ok (Some sz, s)"
| "load_segments (Suc n) off pgdir ip sz s =
     bindR (readi ip off 32 s) (\<lambda>(r, bytes, s).
       if r \<noteq> 32 then Ok (None, s)
       else
         let ph = dec_proghdr bytes in
         if ph_type ph \<noteq> 1 then load_segments n (off + 32) pgdir ip sz s
         else if ph_memsz ph < ph_filesz ph then Ok (None, s)
         else if ph_vaddr ph + ph_memsz ph < ph_vaddr ph then Ok (None, s)
         else
           bindR (allocuvm pgdir sz (ph_vaddr ph + ph_memsz ph) s) (\<lambda>(sz, s).
             if sz = 0 then Ok (None, s)
             else if ph_vaddr ph mod PGSIZE \<noteq> 0 then Ok (None, s)
             else
               bindR (loaduvm pgdir (ph_vaddr ph) ip (ph_off ph) (ph_filesz ph) s) (\<lambda>(r, s).
                 if r < 0 then Ok (None, s) else load_segments n (off + 32) pgdir ip sz s)))"

text \<open>Pushing the arguments: the stack pointer and the addresses of the strings, in order.\<close>

fun push_args :: "uchar list list \<Rightarrow> nat \<Rightarrow> uint \<Rightarrow> uint list \<Rightarrow> uint \<Rightarrow> 'z km_scheme \<Rightarrow>
    ((uint \<times> uint list) option \<times> 'z km_scheme) res" where
  "push_args [] argc sp ustack pgdir s = Ok (Some (sp, ustack), s)"
| "push_args (a # as) argc sp ustack pgdir s =
     (if MAXARG \<le> argc then Ok (None, s)
      else
        let sp = (sp - of_nat (strlen a + 1)) AND NOT 3 in
        bindR (copyout pgdir sp (cstr a @ [0]) s) (\<lambda>(r, s).
          if r < 0 then Ok (None, s) else push_args as (Suc argc) sp (ustack @ [sp]) pgdir s))"

text \<open>The last component of a path.\<close>

fun basename :: "uchar list \<Rightarrow> uchar list \<Rightarrow> uchar list" where
  "basename lst [] = lst"
| "basename lst (c # s) =
     (if c = 0 then lst else if c = 47 then basename s s else basename lst s)"

definition bad :: "uint \<Rightarrow> nat option \<Rightarrow> 'z kst_scheme \<Rightarrow> (int \<times> 'z kst_scheme) res" where
  "bad pgdir ip s =
     bindR (if pgdir \<noteq> 0 then freevm pgdir s else Ok s) (\<lambda>s.
     bindR (case ip of None \<Rightarrow> Ok s
            | Some i \<Rightarrow> bindR (iunlockput i s) (\<lambda>s. end_op s)) (\<lambda>s.
       Ok (- 1, s)))"

definition exec_stack :: "uchar list \<Rightarrow> uchar list list \<Rightarrow> uint \<Rightarrow> uint \<Rightarrow> uint \<Rightarrow> 'z kst_scheme \<Rightarrow> (int \<times> 'z kst_scheme) res" where
  "exec_stack path argv pgdir entry sz s =
     (let sz = PGROUNDUP sz in
      bindR (allocuvm pgdir sz (sz + 2 * PGSIZE) s) (\<lambda>(sz, s).
        if sz = 0 then bad pgdir None s
        else
          bindR (clearpteu pgdir (sz - 2 * PGSIZE) s) (\<lambda>s.
          bindR (push_args argv 0 sz [] pgdir s) (\<lambda>(r, s).
            case r of
              None \<Rightarrow> bad pgdir None s
            | Some (sp, ustack) \<Rightarrow>
                let argc = of_nat (length ustack);
                    frame = [0xFFFFFFFF, argc, sp - (argc + 1) * 4] @ ustack @ [0];
                    sp = sp - (3 + argc + 1) * 4
                in bindR (copyout pgdir sp (concat (map le32 frame)) s) (\<lambda>(r, s).
                     if r < 0 then bad pgdir None s
                     else
                       myproc (\<lambda>c s.
                         let oldpgdir = p_pgdir (procs s ! c);
                             s = upd_proc c (\<lambda>p. p\<lparr>p_name := safestrcpy (p_name p) (basename path path) 16,
                                   p_pgdir := pgdir, p_sz := sz\<rparr>) s;
                             tf = p_tf (procs s ! c);
                             s = tf_set tf TF_EIP entry s;
                             s = tf_set tf TF_ESP sp s
                         in bindR (switchuvm (Some (p_kstack (procs s ! c), pgdir)) s) (\<lambda>s.
                            bindR (freevm oldpgdir s) (\<lambda>s. Ok (0, s)))) s)))))"

definition exec :: "uchar list \<Rightarrow> uchar list list \<Rightarrow> 'z kst_scheme \<Rightarrow> (int \<times> 'z kst_scheme) res" where
  "exec path argv s =
     bindR (begin_op s) (\<lambda>s.
     bindR (namei path s) (\<lambda>(r, s).
       case r of
         None \<Rightarrow> bindR (end_op s) (\<lambda>s. Ok (- 1, s))
       | Some ip \<Rightarrow>
           bindR (ilock ip s) (\<lambda>s.
           bindR (readi ip 0 52 s) (\<lambda>(k, elf, s).
             if k \<noteq> 52 then bad 0 (Some ip) s
             else if word_at elf 0 \<noteq> ELF_MAGIC then bad 0 (Some ip) s
             else
               bindR (setupkvm s) (\<lambda>(pgdir, s).
                 if pgdir = 0 then bad 0 (Some ip) s
                 else
                   let entry = word_at elf 6; phoff = word_at elf 7;
                       phnum = unat (of_le16 (slice 44 2 elf))
                   in bindR (load_segments phnum phoff pgdir ip 0 s) (\<lambda>(r, s).
                        case r of
                          None \<Rightarrow> bad pgdir (Some ip) s
                        | Some sz \<Rightarrow>
                            bindR (iunlockput ip s) (\<lambda>s.
                            bindR (end_op s) (\<lambda>s.
                              exec_stack path argv pgdir entry sz s))))))))"

end
