(* ===== verification/Syscall.thy ===== *)
theory Syscall
  imports Exec
begin

section \<open>System calls: syscall.c, sysproc.c and sysfile.c\<close>

text \<open>
  Arguments are fetched from the user stack through the page table of the caller. A fetch that
  fails its range check is \<open>None\<close>, the \<open>-1\<close> of the source. A call that gives up the CPU
  before it is done (it sleeps, yields or exits) has the outcome \<open>Asleep\<close>; it continues in the
  resume function of what it called. The bytes behind a pointer passed to \<open>write\<close> are read in
  one piece before they are written, and those of \<open>read\<close> stored in one piece.
\<close>

subsection \<open>Arguments\<close>

definition fetchint :: "uint \<Rightarrow> 'z pst_scheme \<Rightarrow> uint option res" where
  "fetchint addr = myproc (\<lambda>c s.
     let p = procs s ! c in
     if p_sz p \<le> addr \<or> p_sz p < addr + 4 then Ok None
     else bindR (uread (p_pgdir p) addr 4 s) (\<lambda>b. Ok (Some (of_le32 b))))"

text \<open>\<open>n\<close> is the number of bytes before the end of the process's memory.\<close>

fun fetchstr_loop :: "nat \<Rightarrow> uint \<Rightarrow> uint \<Rightarrow> 'z pst_scheme \<Rightarrow> uchar list option res" where
  "fetchstr_loop 0 pgdir a s = Ok None"
| "fetchstr_loop (Suc n) pgdir a s =
     bindR (uread8 pgdir a s) (\<lambda>c.
       if c = 0 then Ok (Some [])
       else bindR (fetchstr_loop n pgdir (a + 1) s) (\<lambda>r. Ok (map_option (\<lambda>cs. c # cs) r)))"

definition fetchstr :: "uint \<Rightarrow> 'z pst_scheme \<Rightarrow> uchar list option res" where
  "fetchstr addr = myproc (\<lambda>c s.
     let p = procs s ! c in
     if p_sz p \<le> addr then Ok None
     else fetchstr_loop (unat (p_sz p - addr)) (p_pgdir p) addr s)"

definition argint :: "nat \<Rightarrow> 'z pst_scheme \<Rightarrow> uint option res" where
  "argint n = myproc (\<lambda>c s. fetchint (tf_get (p_tf (procs s ! c)) TF_ESP s + 4 + 4 * of_nat n) s)"

definition argptr :: "nat \<Rightarrow> int \<Rightarrow> 'z pst_scheme \<Rightarrow> uint option res" where
  "argptr n sz = myproc (\<lambda>c s.
     bindR (argint n s) (\<lambda>r.
       case r of
         None \<Rightarrow> Ok None
       | Some i \<Rightarrow>
           let psz = p_sz (procs s ! c) in
           if sz < 0 \<or> psz \<le> i \<or> psz < i + of_int sz then Ok None else Ok (Some i)))"

definition argstr :: "nat \<Rightarrow> 'z pst_scheme \<Rightarrow> uchar list option res" where
  "argstr n s =
     bindR (argint n s) (\<lambda>r. case r of None \<Rightarrow> Ok None | Some addr \<Rightarrow> fetchstr addr s)"

text \<open>A call whose argument is bad returns \<open>-1\<close>.\<close>

definition with_arg :: "('s \<Rightarrow> 'a option res) \<Rightarrow> ('a \<Rightarrow> 's \<Rightarrow> (int outcome \<times> 's) res) \<Rightarrow> 's \<Rightarrow> (int outcome \<times> 's) res" where
  "with_arg get f s =
     bindR (get s) (\<lambda>r. case r of None \<Rightarrow> Ok (Done (- 1), s) | Some a \<Rightarrow> f a s)"

definition finish :: "int \<times> 's \<Rightarrow> (int outcome \<times> 's) res" where
  "finish r = (case r of (k, s) \<Rightarrow> Ok (Done k, s))"

subsection \<open>sysproc.c\<close>

definition sys_fork :: "'z kst_scheme \<Rightarrow> (int outcome \<times> 'z kst_scheme) res" where
  "sys_fork s = bindR (fork s) finish"

definition sys_exit :: "'z kst_scheme \<Rightarrow> (int outcome \<times> 'z kst_scheme) res" where
  "sys_exit s = bindR (exit s) (\<lambda>s. Ok (Asleep, s))"

definition sys_wait :: "'z kst_scheme \<Rightarrow> (int outcome \<times> 'z kst_scheme) res" where
  "sys_wait s = wait s"

definition sys_kill :: "'z kst_scheme \<Rightarrow> (int outcome \<times> 'z kst_scheme) res" where
  "sys_kill = with_arg (argint 0) (\<lambda>pid s. finish (kill (sint pid) s))"

definition sys_getpid :: "'z kst_scheme \<Rightarrow> (int outcome \<times> 'z kst_scheme) res" where
  "sys_getpid = myproc (\<lambda>c s. Ok (Done (p_pid (procs s ! c)), s))"

definition sys_sbrk :: "'z kst_scheme \<Rightarrow> (int outcome \<times> 'z kst_scheme) res" where
  "sys_sbrk = with_arg (argint 0) (\<lambda>n. myproc (\<lambda>c s.
     let addr = p_sz (procs s ! c) in
     bindR (growproc (sint n) s) (\<lambda>(r, s).
       if r < 0 then Ok (Done (- 1), s) else Ok (Done (sint addr), s))))"

text \<open>The comparison of the loop is unsigned.\<close>

definition sys_sleep_loop :: "uint \<Rightarrow> uint \<Rightarrow> 'z kst_scheme \<Rightarrow> (int outcome \<times> 'z kst_scheme) res" where
  "sys_sleep_loop n ticks0 s =
     (if ticks s - ticks0 < n then
        myproc (\<lambda>c s.
          if p_killed (procs s ! c) \<noteq> 0 then Ok (Done (- 1), s)
          else bindR (sleep ChTicks s) (\<lambda>s. Ok (Asleep, s))) s
      else Ok (Done 0, s))"

definition sys_sleep :: "'z kst_scheme \<Rightarrow> (int outcome \<times> 'z kst_scheme) res" where
  "sys_sleep = with_arg (argint 0) (\<lambda>n s. sys_sleep_loop n (ticks s) s)"

definition sys_sleep_resume :: "uint \<Rightarrow> uint \<Rightarrow> 'z kst_scheme \<Rightarrow> (int outcome \<times> 'z kst_scheme) res" where
  "sys_sleep_resume n ticks0 s = bindR (awake s) (sys_sleep_loop n ticks0)"

definition sys_uptime :: "'z kst_scheme \<Rightarrow> (int outcome \<times> 'z kst_scheme) res" where
  "sys_uptime s = Ok (Done (sint (ticks s)), s)"

definition sys_getptable :: "'z kst_scheme \<Rightarrow> (int outcome \<times> 'z kst_scheme) res" where
  "sys_getptable = with_arg (argptr 0 (36 * 64)) (\<lambda>buf. with_arg (argint 1) (\<lambda>sz s.
     bindR (getptable buf (sint sz) s) finish))"

definition sys_getppid :: "'z kst_scheme \<Rightarrow> (int outcome \<times> 'z kst_scheme) res" where
  "sys_getppid = myproc (\<lambda>c s. case p_parent (procs s ! c) of
     None \<Rightarrow> Fault | Some q \<Rightarrow> Ok (Done (p_pid (procs s ! q)), s))"

definition sys_setpriority :: "'z kst_scheme \<Rightarrow> (int outcome \<times> 'z kst_scheme) res" where
  "sys_setpriority = with_arg (argint 0) (\<lambda>pid. with_arg (argint 1) (\<lambda>priority s.
     finish (setpriority (sint pid) (sint priority) s)))"

definition sys_sem_init :: "'z kst_scheme \<Rightarrow> (int outcome \<times> 'z kst_scheme) res" where
  "sys_sem_init = with_arg (argint 0) (\<lambda>sem. with_arg (argint 1) (\<lambda>val s.
     finish (sem_init (sint sem) (sint val) s)))"

definition sys_sem_destroy :: "'z kst_scheme \<Rightarrow> (int outcome \<times> 'z kst_scheme) res" where
  "sys_sem_destroy = with_arg (argint 0) (\<lambda>sem s. finish (sem_destroy (sint sem) s))"

definition sys_sem_wait :: "'z kst_scheme \<Rightarrow> (int outcome \<times> 'z kst_scheme) res" where
  "sys_sem_wait = with_arg (argint 0) (\<lambda>sem. with_arg (argint 1) (\<lambda>count s.
     sem_wait (sint sem) (sint count) s))"

definition sys_sem_signal :: "'z kst_scheme \<Rightarrow> (int outcome \<times> 'z kst_scheme) res" where
  "sys_sem_signal = with_arg (argint 0) (\<lambda>sem. with_arg (argint 1) (\<lambda>count s.
     finish (sem_signal (sint sem) (sint count) s)))"

definition sys_clone :: "'z kst_scheme \<Rightarrow> (int outcome \<times> 'z kst_scheme) res" where
  "sys_clone = with_arg (argint 0) (\<lambda>func. with_arg (argint 1) (\<lambda>arg. with_arg (argint 2) (\<lambda>stack s.
     bindR (clone func arg stack s) finish)))"

definition sys_join :: "'z kst_scheme \<Rightarrow> (int outcome \<times> 'z kst_scheme) res" where
  "sys_join = with_arg (argint 0) (\<lambda>stack s. join stack s)"

definition sys_getscheduler :: "'z kst_scheme \<Rightarrow> (int outcome \<times> 'z kst_scheme) res" where
  "sys_getscheduler s = Ok (Done (getscheduler s), s)"

definition sys_setscheduler :: "'z kst_scheme \<Rightarrow> (int outcome \<times> 'z kst_scheme) res" where
  "sys_setscheduler = with_arg (argint 0) (\<lambda>sid s. bindR (setscheduler (sint sid) s) finish)"

definition sys_yield :: "'z kst_scheme \<Rightarrow> (int outcome \<times> 'z kst_scheme) res" where
  "sys_yield s = bindR (yield s) (\<lambda>s. Ok (Asleep, s))"

definition sys_wait2 :: "'z kst_scheme \<Rightarrow> (int outcome \<times> 'z kst_scheme) res" where
  "sys_wait2 = with_arg (argptr 0 4) (\<lambda>retime. with_arg (argptr 1 4) (\<lambda>rutime.
     with_arg (argptr 2 4) (\<lambda>stime s. wait2 retime rutime stime s)))"

subsection \<open>sysfile.c\<close>

definition argfd :: "nat \<Rightarrow> 'z pst_scheme \<Rightarrow> (nat \<times> nat) option res" where
  "argfd n s =
     bindR (argint n s) (\<lambda>r.
       case r of
         None \<Rightarrow> Ok None
       | Some v \<Rightarrow>
           let fd = sint v in
           if fd < 0 \<or> int NOFILE \<le> fd then Ok None
           else myproc (\<lambda>c s. Ok (map_option (\<lambda>f. (nat fd, f)) (p_ofile (procs s ! c) ! nat fd))) s)"

definition fdalloc :: "nat \<Rightarrow> 'z pst_scheme \<Rightarrow> (int \<times> 'z pst_scheme) res" where
  "fdalloc f = myproc (\<lambda>c s.
     case scan (\<lambda>x. x = None) (p_ofile (procs s ! c)) of
       None \<Rightarrow> Ok (- 1, s)
     | Some fd \<Rightarrow> Ok (int fd, upd_proc c (\<lambda>p. p\<lparr>p_ofile := (p_ofile p)[fd := Some f]\<rparr>) s))"

definition sys_dup :: "'z kst_scheme \<Rightarrow> (int outcome \<times> 'z kst_scheme) res" where
  "sys_dup = with_arg (argfd 0) (\<lambda>(_, f) s.
     bindR (fdalloc f s) (\<lambda>(fd, s).
       if fd < 0 then Ok (Done (- 1), s)
       else bindR (filedup f s) (\<lambda>s. Ok (Done fd, s))))"

definition sys_read :: "'z kst_scheme \<Rightarrow> (int outcome \<times> 'z kst_scheme) res" where
  "sys_read = with_arg (argfd 0) (\<lambda>(_, f). with_arg (argint 2) (\<lambda>n.
     with_arg (argptr 1 (sint n)) (\<lambda>p. myproc (\<lambda>c s.
       bindR (fileread f (sint n) s) (\<lambda>(r, s).
         case r of
           Asleep \<Rightarrow> Ok (Asleep, s)
         | Done (k, bytes) \<Rightarrow>
             bindR (uwrite (p_pgdir (procs s ! c)) p bytes s) (\<lambda>s. Ok (Done k, s)))))))"

definition sys_write :: "'z kst_scheme \<Rightarrow> (int outcome \<times> 'z kst_scheme) res" where
  "sys_write = with_arg (argfd 0) (\<lambda>(_, f). with_arg (argint 2) (\<lambda>n.
     with_arg (argptr 1 (sint n)) (\<lambda>p. myproc (\<lambda>c s.
       bindR (if f_writable (ftable s ! f) then uread (p_pgdir (procs s ! c)) p (unat n) s else Ok []) (\<lambda>bytes.
       bindR (filewrite f bytes s) (\<lambda>(r, _, s). Ok (r, s)))))))"

definition sys_close :: "'z kst_scheme \<Rightarrow> (int outcome \<times> 'z kst_scheme) res" where
  "sys_close = with_arg (argfd 0) (\<lambda>(fd, f). myproc (\<lambda>c s.
     bindR (fileclose f (upd_proc c (\<lambda>p. p\<lparr>p_ofile := (p_ofile p)[fd := None]\<rparr>) s)) (\<lambda>s.
       Ok (Done 0, s))))"

definition sys_fstat :: "'z kst_scheme \<Rightarrow> (int outcome \<times> 'z kst_scheme) res" where
  "sys_fstat = with_arg (argfd 0) (\<lambda>(_, f). with_arg (argptr 1 20) (\<lambda>st. myproc (\<lambda>c s.
     bindR (filestat f s) (\<lambda>(r, bytes, s).
     bindR (uwrite (p_pgdir (procs s ! c)) st bytes s) (\<lambda>s. Ok (Done r, s))))))"

text \<open>The label \<^verbatim>\<open>bad\<close> of \<open>sys_link\<close>.\<close>

definition link_bad :: "nat \<Rightarrow> 'z kst_scheme \<Rightarrow> (int outcome \<times> 'z kst_scheme) res" where
  "link_bad ip s =
     bindR (ilock ip s) (\<lambda>s.
     bindR (iupdate ip (upd_inode ip (\<lambda>i. i\<lparr>i_nlink := i_nlink i - 1\<rparr>) s)) (\<lambda>s.
     bindR (iunlockput ip s) (\<lambda>s.
     bindR (end_op s) (\<lambda>s. Ok (Done (- 1), s)))))"

definition sys_link :: "'z kst_scheme \<Rightarrow> (int outcome \<times> 'z kst_scheme) res" where
  "sys_link = with_arg (argstr 0) (\<lambda>old. with_arg (argstr 1) (\<lambda>new s.
     bindR (begin_op s) (\<lambda>s.
     bindR (namei old s) (\<lambda>(r, s).
       case r of
         None \<Rightarrow> bindR (end_op s) (\<lambda>s. Ok (Done (- 1), s))
       | Some ip \<Rightarrow>
           bindR (ilock ip s) (\<lambda>s.
             if i_type (icache s ! ip) = T_DIR then
               bindR (iunlockput ip s) (\<lambda>s. bindR (end_op s) (\<lambda>s. Ok (Done (- 1), s)))
             else
               bindR (iupdate ip (upd_inode ip (\<lambda>i. i\<lparr>i_nlink := i_nlink i + 1\<rparr>) s)) (\<lambda>s.
               bindR (iunlock ip s) (\<lambda>s.
               bindR (nameiparent new s) (\<lambda>(r, name, s).
                 case r of
                   None \<Rightarrow> link_bad ip s
                 | Some dp \<Rightarrow>
                     bindR (ilock dp s) (\<lambda>s.
                     bindR (if i_dev (icache s ! dp) \<noteq> i_dev (icache s ! ip) then Ok (- 1, s)
                            else dirlink dp name (i_inum (icache s ! ip)) s) (\<lambda>(k, s).
                     bindR (iunlockput dp s) (\<lambda>s.
                       if k < 0 then link_bad ip s
                       else bindR (iput ip s) (\<lambda>s.
                            bindR (end_op s) (\<lambda>s. Ok (Done 0, s))))))))))))))"

text \<open>The comparison of the loop is unsigned.\<close>

function isdirempty_loop :: "nat \<Rightarrow> uint \<Rightarrow> 'z cst_scheme \<Rightarrow> (bool \<times> 'z cst_scheme) res" where
  "isdirempty_loop dp off s =
     (if off < i_size (icache s ! dp) then
        bindR (readi dp off 16 s) (\<lambda>(k, de, s).
          if k \<noteq> 16 then Panic ''isdirempty: readi''
          else if of_le16 (take 2 de) \<noteq> 0 then Ok (False, s)
          else if off < off + 16 then isdirempty_loop dp (off + 16) s
          else Diverge)
      else Ok (True, s))"
  by pat_completeness auto
termination
proof (relation "measure (\<lambda>(dp, off, s). 4294967296 - unat off)")
  fix dp :: nat and off :: uint and s s' :: "'z cst_scheme"
  assume "off < off + 16"
  then show "((dp, off + 16, s'), dp, off, s) \<in> measure (\<lambda>(dp, off, s). 4294967296 - unat off)"
    using unat_lt32 [of off] by (simp add: word_less_nat_alt)
qed simp

declare isdirempty_loop.simps [simp del]

definition isdirempty :: "nat \<Rightarrow> 'z cst_scheme \<Rightarrow> (bool \<times> 'z cst_scheme) res" where
  "isdirempty dp s = isdirempty_loop dp 32 s"

definition unlink_bad :: "nat \<Rightarrow> 'z kst_scheme \<Rightarrow> (int outcome \<times> 'z kst_scheme) res" where
  "unlink_bad dp s =
     bindR (iunlockput dp s) (\<lambda>s. bindR (end_op s) (\<lambda>s. Ok (Done (- 1), s)))"

text \<open>The entry at \<open>off\<close> is cleared and both inodes are put back.\<close>

definition unlink_entry :: "nat \<Rightarrow> nat \<Rightarrow> uint \<Rightarrow> 'z kst_scheme \<Rightarrow> (int outcome \<times> 'z kst_scheme) res" where
  "unlink_entry dp ip off s =
     bindR (writei dp (replicate 16 0) off s) (\<lambda>(k, s).
       if k \<noteq> 16 then Panic ''unlink: writei''
       else
         bindR (if i_type (icache s ! ip) = T_DIR
                then iupdate dp (upd_inode dp (\<lambda>i. i\<lparr>i_nlink := i_nlink i - 1\<rparr>) s)
                else Ok s) (\<lambda>s.
         bindR (iunlockput dp s) (\<lambda>s.
         bindR (iupdate ip (upd_inode ip (\<lambda>i. i\<lparr>i_nlink := i_nlink i - 1\<rparr>) s)) (\<lambda>s.
         bindR (iunlockput ip s) (\<lambda>s.
         bindR (end_op s) (\<lambda>s. Ok (Done 0, s)))))))"

definition sys_unlink :: "'z kst_scheme \<Rightarrow> (int outcome \<times> 'z kst_scheme) res" where
  "sys_unlink = with_arg (argstr 0) (\<lambda>path s.
     bindR (begin_op s) (\<lambda>s.
     bindR (nameiparent path s) (\<lambda>(r, name, s).
       case r of
         None \<Rightarrow> bindR (end_op s) (\<lambda>s. Ok (Done (- 1), s))
       | Some dp \<Rightarrow>
           bindR (ilock dp s) (\<lambda>s.
             if namecmp name (str ''.'') = 0 \<or> namecmp name (str ''..'') = 0 then unlink_bad dp s
             else
               bindR (dirlookup dp name s) (\<lambda>(r, s).
                 case r of
                   None \<Rightarrow> unlink_bad dp s
                 | Some (ip, off) \<Rightarrow>
                     bindR (ilock ip s) (\<lambda>s.
                       if sint (i_nlink (icache s ! ip)) < 1 then Panic ''unlink: nlink < 1''
                       else
                         bindR (if i_type (icache s ! ip) = T_DIR then isdirempty ip s else Ok (True, s))
                           (\<lambda>(e, s).
                              if e then unlink_entry dp ip off s
                              else bindR (iunlockput ip s) (unlink_bad dp))))))))"

definition create :: "uchar list \<Rightarrow> ushort \<Rightarrow> ushort \<Rightarrow> ushort \<Rightarrow> 'z kst_scheme \<Rightarrow>
    (nat option \<times> 'z kst_scheme) res" where
  "create path type major minor s =
     bindR (nameiparent path s) (\<lambda>(r, name, s).
       case r of
         None \<Rightarrow> Ok (None, s)
       | Some dp \<Rightarrow>
           bindR (ilock dp s) (\<lambda>s.
           bindR (dirlookup dp name s) (\<lambda>(r, s).
             case r of
               Some (ip, off) \<Rightarrow>
                 bindR (iunlockput dp s) (\<lambda>s.
                 bindR (ilock ip s) (\<lambda>s.
                   if type = T_FILE \<and> i_type (icache s ! ip) = T_FILE then Ok (Some ip, s)
                   else bindR (iunlockput ip s) (\<lambda>s. Ok (None, s))))
             | None \<Rightarrow>
                 bindR (ialloc (i_dev (icache s ! dp)) type s) (\<lambda>(ip, s).
                 bindR (ilock ip s) (\<lambda>s.
                 bindR (iupdate ip (upd_inode ip
                   (\<lambda>i. i\<lparr>i_major := major, i_minor := minor, i_nlink := 1\<rparr>) s)) (\<lambda>s.
                 bindR (if type = T_DIR then
                          bindR (iupdate dp (upd_inode dp (\<lambda>i. i\<lparr>i_nlink := i_nlink i + 1\<rparr>) s)) (\<lambda>s.
                          bindR (dirlink ip (str ''.'') (i_inum (icache s ! ip)) s) (\<lambda>(k, s).
                            if k < 0 then Panic ''create dots''
                            else bindR (dirlink ip (str ''..'') (i_inum (icache s ! dp)) s) (\<lambda>(k, s).
                                   if k < 0 then Panic ''create dots'' else Ok s)))
                        else Ok s) (\<lambda>s.
                 bindR (dirlink dp name (i_inum (icache s ! ip)) s) (\<lambda>(k, s).
                   if k < 0 then Panic ''create: dirlink''
                   else bindR (iunlockput dp s) (\<lambda>s. Ok (Some ip, s))))))))))"

abbreviation (input) O_WRONLY :: uint where "O_WRONLY \<equiv> 1"
abbreviation (input) O_RDWR :: uint where "O_RDWR \<equiv> 2"
abbreviation (input) O_CREATE :: uint where "O_CREATE \<equiv> 0x200"

text \<open>The inode to open, locked: created, or found and then not a directory opened for writing.\<close>

definition open_inode :: "uchar list \<Rightarrow> uint \<Rightarrow> 'z kst_scheme \<Rightarrow> (nat option \<times> 'z kst_scheme) res" where
  "open_inode path omode s =
     (if omode AND O_CREATE \<noteq> 0 then create path T_FILE 0 0 s
      else
        bindR (namei path s) (\<lambda>(r, s).
          case r of
            None \<Rightarrow> Ok (None, s)
          | Some ip \<Rightarrow>
              bindR (ilock ip s) (\<lambda>s.
                if i_type (icache s ! ip) = T_DIR \<and> omode \<noteq> 0
                then bindR (iunlockput ip s) (\<lambda>s. Ok (None, s))
                else Ok (Some ip, s))))"

definition sys_open :: "'z kst_scheme \<Rightarrow> (int outcome \<times> 'z kst_scheme) res" where
  "sys_open = with_arg (argstr 0) (\<lambda>path. with_arg (argint 1) (\<lambda>omode s.
     bindR (begin_op s) (\<lambda>s.
     bindR (open_inode path omode s) (\<lambda>(r, s).
       case r of
         None \<Rightarrow> bindR (end_op s) (\<lambda>s. Ok (Done (- 1), s))
       | Some ip \<Rightarrow>
           let (r, s) = filealloc s in
           case r of
             None \<Rightarrow>
               bindR (iunlockput ip s) (\<lambda>s. bindR (end_op s) (\<lambda>s. Ok (Done (- 1), s)))
           | Some f \<Rightarrow>
               bindR (fdalloc f s) (\<lambda>(fd, s).
                 if fd < 0 then
                   bindR (fileclose f s) (\<lambda>s.
                   bindR (iunlockput ip s) (\<lambda>s. bindR (end_op s) (\<lambda>s. Ok (Done (- 1), s))))
                 else
                   bindR (iunlock ip s) (\<lambda>s.
                   bindR (end_op s) (\<lambda>s.
                     Ok (Done fd, upd_file f (\<lambda>x. x\<lparr>f_type := FD_INODE, f_ip := ip, f_off := 0,
                       f_readable := (omode AND O_WRONLY = 0),
                       f_writable := (omode AND O_WRONLY \<noteq> 0 \<or> omode AND O_RDWR \<noteq> 0)\<rparr>) s))))))))"

text \<open>
  \<open>sys_mkdir\<close>, \<open>sys_mknod\<close> and \<open>sys_chdir\<close> fetch their arguments inside the transaction: with
  a bad one they end it and fail.
\<close>

definition in_op :: "('z kst_scheme \<Rightarrow> (nat option \<times> 'z kst_scheme) res) \<Rightarrow>
    (nat \<Rightarrow> 'z kst_scheme \<Rightarrow> (int outcome \<times> 'z kst_scheme) res) \<Rightarrow>
    'z kst_scheme \<Rightarrow> (int outcome \<times> 'z kst_scheme) res" where
  "in_op get f s =
     bindR (begin_op s) (\<lambda>s.
     bindR (get s) (\<lambda>(r, s).
       case r of
         None \<Rightarrow> bindR (end_op s) (\<lambda>s. Ok (Done (- 1), s))
       | Some ip \<Rightarrow> f ip s))"

definition put_end :: "int \<Rightarrow> nat \<Rightarrow> 'z kst_scheme \<Rightarrow> (int outcome \<times> 'z kst_scheme) res" where
  "put_end k ip s = bindR (iunlockput ip s) (\<lambda>s. bindR (end_op s) (\<lambda>s. Ok (Done k, s)))"

definition sys_mkdir :: "'z kst_scheme \<Rightarrow> (int outcome \<times> 'z kst_scheme) res" where
  "sys_mkdir = in_op
     (\<lambda>s. bindR (argstr 0 s) (\<lambda>r.
        case r of None \<Rightarrow> Ok (None, s) | Some path \<Rightarrow> create path T_DIR 0 0 s))
     (put_end 0)"

definition sys_mknod :: "'z kst_scheme \<Rightarrow> (int outcome \<times> 'z kst_scheme) res" where
  "sys_mknod = in_op
     (\<lambda>s. bindR (argstr 0 s) (\<lambda>r. case r of None \<Rightarrow> Ok (None, s) | Some path \<Rightarrow>
           bindR (argint 1 s) (\<lambda>r. case r of None \<Rightarrow> Ok (None, s) | Some major \<Rightarrow>
           bindR (argint 2 s) (\<lambda>r. case r of None \<Rightarrow> Ok (None, s) | Some minor \<Rightarrow>
             create path T_DEV (ucast major) (ucast minor) s))))
     (put_end 0)"

definition sys_chdir :: "'z kst_scheme \<Rightarrow> (int outcome \<times> 'z kst_scheme) res" where
  "sys_chdir = in_op
     (\<lambda>s. bindR (argstr 0 s) (\<lambda>r. case r of None \<Rightarrow> Ok (None, s) | Some path \<Rightarrow> namei path s))
     (\<lambda>ip s.
        bindR (ilock ip s) (\<lambda>s.
          if i_type (icache s ! ip) \<noteq> T_DIR then put_end (- 1) ip s
          else
            bindR (iunlock ip s) (myproc (\<lambda>c s.
              case p_cwd (procs s ! c) of
                None \<Rightarrow> Fault
              | Some old \<Rightarrow>
                  bindR (iput old s) (\<lambda>s.
                  bindR (end_op s) (\<lambda>s.
                    Ok (Done 0, upd_proc c (\<lambda>p. p\<lparr>p_cwd := Some ip\<rparr>) s)))))))"

text \<open>The argument strings; \<open>n\<close> entries of \<^verbatim>\<open>argv\<close> are left.\<close>

fun exec_args :: "nat \<Rightarrow> uint \<Rightarrow> 'z pst_scheme \<Rightarrow> uchar list list option res" where
  "exec_args 0 uargv s = Ok None"
| "exec_args (Suc n) uargv s =
     bindR (fetchint uargv s) (\<lambda>r.
       case r of
         None \<Rightarrow> Ok None
       | Some uarg \<Rightarrow>
           if uarg = 0 then Ok (Some [])
           else
             bindR (fetchstr uarg s) (\<lambda>r.
               case r of
                 None \<Rightarrow> Ok None
               | Some a \<Rightarrow>
                   bindR (exec_args n (uargv + 4) s) (\<lambda>r. Ok (map_option (\<lambda>as. a # as) r))))"

definition sys_exec :: "'z kst_scheme \<Rightarrow> (int outcome \<times> 'z kst_scheme) res" where
  "sys_exec = with_arg (argstr 0) (\<lambda>path. with_arg (argint 1) (\<lambda>uargv.
     with_arg (exec_args MAXARG uargv) (\<lambda>argv s. bindR (exec path argv s) finish)))"

definition sys_pipe :: "'z kst_scheme \<Rightarrow> (int outcome \<times> 'z kst_scheme) res" where
  "sys_pipe = with_arg (argptr 0 8) (\<lambda>fd s.
     bindR (pipealloc s) (\<lambda>(r, s).
       case r of
         None \<Rightarrow> Ok (Done (- 1), s)
       | Some (rf, wrf) \<Rightarrow>
           let fail = (\<lambda>s. bindR (fileclose rf s) (\<lambda>s.
                            bindR (fileclose wrf s) (\<lambda>s. Ok (Done (- 1), s))))
           in bindR (fdalloc rf s) (\<lambda>(fd0, s).
                if fd0 < 0 then fail s
                else
                  bindR (fdalloc wrf s) (\<lambda>(fd1, s).
                    myproc (\<lambda>c s.
                      if fd1 < 0 then
                        fail (upd_proc c (\<lambda>p. p\<lparr>p_ofile := (p_ofile p)[nat fd0 := None]\<rparr>) s)
                      else
                        bindR (uwrite (p_pgdir (procs s ! c)) fd
                          (le32 (of_int fd0) @ le32 (of_int fd1)) s) (\<lambda>s. Ok (Done 0, s))) s))))"

subsection \<open>Dispatch\<close>

text \<open>The table, by the numbers of syscall.h; entry 0 is empty.\<close>

definition syscalls :: "('z kst_scheme \<Rightarrow> (int outcome \<times> 'z kst_scheme) res) option list" where
  "syscalls = None # map Some
     [sys_fork, sys_exit, sys_wait, sys_pipe, sys_read, sys_kill, sys_exec, sys_fstat, sys_chdir,
      sys_dup, sys_getpid, sys_sbrk, sys_sleep, sys_uptime, sys_open, sys_write, sys_mknod,
      sys_unlink, sys_link, sys_mkdir, sys_close, sys_getptable, sys_getppid, sys_setpriority,
      sys_sem_init, sys_sem_destroy, sys_sem_wait, sys_sem_signal, sys_clone, sys_join,
      sys_getscheduler, sys_setscheduler, sys_wait2, sys_yield]"

definition syscall :: "'z kst_scheme \<Rightarrow> (unit outcome \<times> 'z kst_scheme) res" where
  "syscall = myproc (\<lambda>c s.
     let num = sint (tf_get (p_tf (procs s ! c)) TF_EAX s) in
     if 0 < num \<and> num < int (length (syscalls :: ('z kst_scheme \<Rightarrow> _) option list))
        \<and> (syscalls :: ('z kst_scheme \<Rightarrow> _) option list) ! nat num \<noteq> None then
       bindR (the (syscalls ! nat num) s) (\<lambda>(r, s).
         case r of
           Asleep \<Rightarrow> Ok (Asleep, s)
         | Done v \<Rightarrow> Ok (Done (), tf_set (p_tf (procs s ! c)) TF_EAX (of_int v) s))
     else
       bindR (kprintf (''%d %s: unknown sys call %d'' @ [CHR 0x0A])
         [AInt (of_int (p_pid (procs s ! c))), AStr (Some (p_name (procs s ! c))), AInt (of_int num)] s)
         (\<lambda>s. Ok (Done (), tf_set (p_tf (procs s ! c)) TF_EAX (- 1) s)))"

end
