(* ===== verification/Trap.thy ===== *)
theory Trap
  imports Syscall
begin

section \<open>Traps and interrupts: trap.c\<close>

text \<open>
  The interrupt descriptor table is a list of 256 gates. \<open>trap\<close> takes the number of the CPU, the
  register \<open>cr2\<close> and the bytes a device has ready; the acknowledgement of the local APIC has no
  effect on the model, nor has the disk interrupt of memide.c. A trap whose process gives up the CPU
  inside it is \<open>Asleep\<close>; it never comes back from \<open>exit\<close>, and from the \<open>yield\<close> of the timer it
  comes back in \<open>trap_resume\<close>.
\<close>

record gatedesc =
  gd_off_15_0 :: uint
  gd_cs :: uint
  gd_args :: uint
  gd_rsv1 :: uint
  gd_type :: uint
  gd_s :: uint
  gd_dpl :: uint
  gd_p :: uint
  gd_off_31_16 :: uint

abbreviation (input) T_SYSCALL :: nat where "T_SYSCALL \<equiv> 64"

definition SETGATE :: "bool \<Rightarrow> uint \<Rightarrow> uint \<Rightarrow> uint \<Rightarrow> gatedesc" where
  "SETGATE istrap sel off d =
     \<lparr>gd_off_15_0 = off AND 0xFFFF, gd_cs = sel, gd_args = 0, gd_rsv1 = 0,
      gd_type = (if istrap then 0xF else 0xE), gd_s = 0, gd_dpl = d, gd_p = 1,
      gd_off_31_16 = drop_bit 16 off\<rparr>"

fun tvinit_loop :: "nat \<Rightarrow> nat \<Rightarrow> (nat \<Rightarrow> uint) \<Rightarrow> gatedesc list \<Rightarrow> gatedesc list" where
  "tvinit_loop 0 i vectors idt = idt"
| "tvinit_loop (Suc n) i vectors idt =
     tvinit_loop n (Suc i) vectors (idt[i := SETGATE False (push_bit 3 1) (vectors i) 0])"

definition tvinit :: "(nat \<Rightarrow> uint) \<Rightarrow> gatedesc list \<Rightarrow> gatedesc list" where
  "tvinit vectors idt =
     (tvinit_loop 256 0 vectors idt)[T_SYSCALL := SETGATE True (push_bit 3 1) (vectors T_SYSCALL) 3]"

definition die :: "'z kst_scheme \<Rightarrow> (unit outcome \<times> 'z kst_scheme) res" where
  "die s = bindR (exit s) (\<lambda>s. Ok (Asleep, s))"

definition trap_syscall :: "uint \<Rightarrow> 'z kst_scheme \<Rightarrow> (unit outcome \<times> 'z kst_scheme) res" where
  "trap_syscall tf = myproc (\<lambda>c s.
     if p_killed (procs s ! c) \<noteq> 0 then die s
     else
       bindR (syscall (upd_proc c (\<lambda>p. p\<lparr>p_tf := tf\<rparr>) s)) (\<lambda>(r, s).
         case r of
           Asleep \<Rightarrow> Ok (Asleep, s)
         | Done _ \<Rightarrow>
             myproc (\<lambda>c s. if p_killed (procs s ! c) \<noteq> 0 then die s else Ok (Done (), s)) s))"

definition tick :: "nat \<Rightarrow> 'z pst_scheme \<Rightarrow> 'z pst_scheme" where
  "tick cpuid s =
     (if cpuid = 0 then wakeup ChTicks (update_statistics (s\<lparr>ticks := ticks s + 1\<rparr>)) else s)"

text \<open>The trap comes from user space.\<close>

definition from_user :: "uint \<Rightarrow> 'z km_scheme \<Rightarrow> bool" where
  "from_user tf s \<longleftrightarrow> tf_get tf TF_CS s AND 3 = 3"

definition unexpected :: "nat \<Rightarrow> uint \<Rightarrow> uint \<Rightarrow> 'z kst_scheme \<Rightarrow> 'z kst_scheme res" where
  "unexpected cpuid cr2 tf s =
     (case cpu_proc s of
        None \<Rightarrow> Panic ''trap''
      | Some c \<Rightarrow>
          if tf_get tf TF_CS s AND 3 = 0 then Panic ''trap''
          else
            bindR (kprintf (''pid %d %s: trap %d err %d on cpu %d eip 0x%x addr 0x%x--kill proc'' @ [CHR 0x0A])
              [AInt (of_int (p_pid (procs s ! c))), AStr (Some (p_name (procs s ! c))),
               AInt (tf_get tf TF_TRAPNO s), AInt (tf_get tf 52 s), AInt (of_nat cpuid),
               AInt (tf_get tf TF_EIP s), AInt cr2] s)
              (\<lambda>s. Ok (upd_proc c (\<lambda>p. p\<lparr>p_killed := 1\<rparr>) s)))"

definition dispatch :: "nat \<Rightarrow> uint \<Rightarrow> uchar list \<Rightarrow> uint \<Rightarrow> 'z kst_scheme \<Rightarrow> 'z kst_scheme res" where
  "dispatch cpuid cr2 inp tf s =
     (let no = tf_get tf TF_TRAPNO s in
      if no = 32 then Ok (tick cpuid s)
      else if no = 46 \<or> no = 47 then Ok s
      else if no = 33 then kbdintr inp s
      else if no = 36 then uartintr inp s
      else if no = 39 \<or> no = 63 then
        kprintf (''cpu%d: spurious interrupt at %x:%x'' @ [CHR 0x0A])
          [AInt (of_nat cpuid), AInt (tf_get tf TF_CS s AND 0xFFFF), AInt (tf_get tf TF_EIP s)] s
      else unexpected cpuid cr2 tf s)"

text \<open>The last test of \<open>trap\<close>, also reached after its \<open>yield\<close>.\<close>

definition trap_exit :: "uint \<Rightarrow> 'z kst_scheme \<Rightarrow> (unit outcome \<times> 'z kst_scheme) res" where
  "trap_exit tf s =
     (case cpu_proc s of
        None \<Rightarrow> Ok (Done (), s)
      | Some c \<Rightarrow> if p_killed (procs s ! c) \<noteq> 0 \<and> from_user tf s then die s else Ok (Done (), s))"

definition trap_resume :: "uint \<Rightarrow> 'z kst_scheme \<Rightarrow> (unit outcome \<times> 'z kst_scheme) res" where
  "trap_resume tf s = trap_exit tf s"

definition trap :: "nat \<Rightarrow> uint \<Rightarrow> uchar list \<Rightarrow> uint \<Rightarrow> 'z kst_scheme \<Rightarrow> (unit outcome \<times> 'z kst_scheme) res" where
  "trap cpuid cr2 inp tf s =
     (if tf_get tf TF_TRAPNO s = of_nat T_SYSCALL then trap_syscall tf s
      else
        bindR (dispatch cpuid cr2 inp tf s) (\<lambda>s.
          case cpu_proc s of
            None \<Rightarrow> Ok (Done (), s)
          | Some c \<Rightarrow>
              if p_killed (procs s ! c) \<noteq> 0 \<and> from_user tf s then die s
              else if p_state (procs s ! c) = RUNNING \<and> tf_get tf TF_TRAPNO s = 32
              then bindR (yield s) (\<lambda>s. Ok (Asleep, s))
              else trap_exit tf s))"

end
