(* ===== verification/Frames.thy ===== *)
theory Frames
  imports Trap
begin

section \<open>What the layers leave alone\<close>

text \<open>
  The memory routines change only the allocator's state and memory: \<open>km.more\<close>, everything declared
  above them, is kept. The file system changes nothing of the processes except that it wakes them:
  \<open>pv\<close>, the process table in which a sleeping process cannot be told from a runnable one, is kept.
  Each fact is a destruction rule in the collection \<open>frame\<close>; a routine's fact follows from those of
  the routines it calls.
\<close>

named_theorems frame \<open>what a routine keeps\<close>

subsection \<open>Memory\<close>

text \<open>The loops over addresses end because the address grows.\<close>

lemma count_up: "a < a' \<Longrightarrow> 4294967296 - unat a' < 4294967296 - unat a" for a a' :: uint
  using unat_lt32 [of a'] by (simp add: word_less_nat_alt)

lemma kalloc_more [frame]: "kalloc s = (p, s') \<Longrightarrow> km.more s' = km.more s"
  by (auto simp: kalloc_def Let_def split: if_splits)

lemma kfree_more [frame]: "kfree v s = Ok s' \<Longrightarrow> km.more s' = km.more s"
  by (auto simp: kfree_def split: if_splits)

lemma walkpgdir_more [frame]: "walkpgdir pgdir va a s = (p, s') \<Longrightarrow> km.more s' = km.more s"
  by (auto simp: walkpgdir_def Let_def dest!: frame split: if_splits prod.splits)

lemma mappages_loop_more [frame]:
  "mappages_loop n pgdir a pa perm s = Ok (r, s') \<Longrightarrow> km.more s' = km.more s"
proof (induction n arbitrary: a pa s)
  case 0
  then show ?case
    by (subst (asm) mappages_loop.simps)
      (auto simp: Let_def dest!: frame split: prod.splits option.splits if_splits)
next
  case (Suc n)
  from Suc.prems show ?case
    by (subst (asm) mappages_loop.simps)
      (auto simp: Let_def dest!: frame Suc.IH split: prod.splits option.splits if_splits)
qed

lemma mappages_more [frame]: "mappages pgdir va sz pa perm s = Ok (r, s') \<Longrightarrow> km.more s' = km.more s"
  by (auto simp: mappages_def Let_def dest!: frame)

lemma deallocuvm_loop_more [frame]:
  "deallocuvm_loop pgdir a oldsz s = Ok s' \<Longrightarrow> km.more s' = km.more s"
proof (induction "4294967296 - unat a" arbitrary: a s rule: less_induct)
  case less
  note IH = less.hyps [rotated, OF _ count_up]
  from less.prems show ?case
    by (subst (asm) deallocuvm_loop.simps)
      (auto simp: Let_def res_simps dest!: frame IH split: option.splits if_splits)
qed

lemma deallocuvm_more [frame]: "deallocuvm pgdir oldsz newsz s = Ok (r, s') \<Longrightarrow> km.more s' = km.more s"
  by (auto simp: deallocuvm_def res_simps dest!: frame split: if_splits)

lemma free_tables_more [frame]: "free_tables n i pgdir s = Ok s' \<Longrightarrow> km.more s' = km.more s"
proof (induction n arbitrary: i s)
  case (Suc n)
  from Suc.prems show ?case by (auto simp: Let_def res_simps dest!: frame Suc.IH split: if_splits)
qed simp

lemma freevm_more [frame]: "freevm pgdir s = Ok s' \<Longrightarrow> km.more s' = km.more s"
  by (auto simp: freevm_def res_simps dest!: frame split: if_splits)

lemma setupkvm_loop_more [frame]: "setupkvm_loop ks pgdir s = Ok (r, s') \<Longrightarrow> km.more s' = km.more s"
proof (induction ks arbitrary: s)
  case (Cons k ks)
  from Cons.prems show ?case
    by (cases k) (auto simp: res_simps dest!: frame Cons.IH split: if_splits)
qed simp

lemma setupkvm_more [frame]: "setupkvm s = Ok (r, s') \<Longrightarrow> km.more s' = km.more s"
  by (auto simp: setupkvm_def Let_def dest!: frame split: prod.splits if_splits)

lemma inituvm_more [frame]: "inituvm pgdir init s = Ok s' \<Longrightarrow> km.more s' = km.more s"
  by (auto simp: inituvm_def Let_def res_simps dest!: frame split: prod.splits if_splits)

lemma allocuvm_loop_more [frame]:
  "allocuvm_loop pgdir a oldsz newsz s = Ok (r, s') \<Longrightarrow> km.more s' = km.more s"
proof (induction "4294967296 - unat a" arbitrary: a s rule: less_induct)
  case less
  note IH = less.hyps [rotated, OF _ count_up]
  from less.prems show ?case
    by (subst (asm) allocuvm_loop.simps)
      (auto simp: Let_def res_simps dest!: frame IH split: prod.splits if_splits)
qed

lemma allocuvm_more [frame]: "allocuvm pgdir oldsz newsz s = Ok (r, s') \<Longrightarrow> km.more s' = km.more s"
  by (auto simp: allocuvm_def dest!: frame split: if_splits)

lemma clearpteu_more [frame]: "clearpteu pgdir uva s = Ok s' \<Longrightarrow> km.more s' = km.more s"
  by (auto simp: clearpteu_def split: option.splits)

lemma copyuvm_loop_more [frame]:
  "copyuvm_loop d pgdir i sz s = Ok (r, s') \<Longrightarrow> km.more s' = km.more s"
proof (induction "4294967296 - unat i" arbitrary: i s rule: less_induct)
  case less
  note IH = less.hyps [rotated, OF _ count_up]
  from less.prems show ?case
    by (subst (asm) copyuvm_loop.simps)
      (auto simp: Let_def res_simps dest!: frame IH split: prod.splits option.splits if_splits)
qed

lemma copyuvm_more [frame]: "copyuvm pgdir sz s = Ok (r, s') \<Longrightarrow> km.more s' = km.more s"
  by (auto simp: copyuvm_def res_simps dest!: frame split: if_splits)

lemma copyout_more [frame]: "copyout pgdir va bs s = Ok (r, s') \<Longrightarrow> km.more s' = km.more s"
proof (induction pgdir va bs s rule: copyout.induct)
  case (1 pgdir va bs s)
  from "1.prems" show ?case
    by (subst (asm) copyout.simps) (auto simp: Let_def res_simps dest!: "1.IH" split: if_splits)
qed

lemma uwrite_more [frame]: "uwrite pgdir va bs s = Ok s' \<Longrightarrow> km.more s' = km.more s"
  by (induction pgdir va bs s rule: uwrite.induct)
    (auto simp: uwrite8_def Let_def res_simps split: if_splits)

subsection \<open>The process table up to wake-ups\<close>

text \<open>\<open>wk\<close> makes a sleeping process runnable, so that a wake-up does not show.\<close>

definition wk :: "proc \<Rightarrow> proc" where
  "wk p = p\<lparr>p_state := if p_state p = SLEEPING then RUNNABLE else p_state p\<rparr>"

definition pv :: "'z pst_scheme \<Rightarrow> proc list \<times> nat option \<times> nat option \<times> int \<times> semaphore list" where
  "pv s = (map wk (procs s), cpu_proc s, initproc s, nextpid s, sema s)"

named_theorems pvframe \<open>routines that only wake processes\<close>

lemma km_more_pv: "km.more s' = km.more s \<Longrightarrow> pv s' = pv s"
  by (cases s; cases s') (simp add: pv_def)

lemmas [pvframe] =
  kalloc_more [THEN km_more_pv] kfree_more [THEN km_more_pv] walkpgdir_more [THEN km_more_pv]
  mappages_more [THEN km_more_pv] deallocuvm_more [THEN km_more_pv] freevm_more [THEN km_more_pv]
  setupkvm_more [THEN km_more_pv] inituvm_more [THEN km_more_pv] allocuvm_more [THEN km_more_pv]
  clearpteu_more [THEN km_more_pv] copyuvm_more [THEN km_more_pv] copyout_more [THEN km_more_pv]
  uwrite_more [THEN km_more_pv]

lemma pv_wakeup1 [simp]: "pv (wakeup1 ch s) = pv s"
  by (simp add: pv_def wakeup1_def wk_def)

lemma pv_wakeup [simp]: "pv (wakeup ch s) = pv s"
  by (simp add: wakeup_def)

lemma pv_mem [simp]: "pv (s\<lparr>k_mem := m\<rparr>) = pv s" "pv (s\<lparr>kmem_freelist := r\<rparr>) = pv s"
  by (simp_all add: pv_def)

lemma pv_bst [simp]:
  "pv (s\<lparr>bcache := b\<rparr>) = pv s" "pv (s\<lparr>disk := d\<rparr>) = pv s" "pv (s\<lparr>dwrites := w\<rparr>) = pv s"
  "pv (upd_buf i f s) = pv s" "pv (put_lock i lk s) = pv s" "pv (set_data i dat s) = pv s"
  "pv (copy_block i j s) = pv s"
  by (simp_all add: pv_def upd_buf_def put_lock_def set_data_def copy_block_def)

lemma pv_lst [simp]:
  "pv (s\<lparr>log_start := a\<rparr>) = pv s" "pv (s\<lparr>log_size := n\<rparr>) = pv s" "pv (s\<lparr>log_outstanding := n\<rparr>) = pv s"
  "pv (s\<lparr>log_committing := c\<rparr>) = pv s" "pv (s\<lparr>log_dev := a\<rparr>) = pv s" "pv (s\<lparr>lh_n := n\<rparr>) = pv s"
  "pv (s\<lparr>lh_block := bs\<rparr>) = pv s"
  by (simp_all add: pv_def)

lemma pv_fsst [simp]:
  "pv (s\<lparr>sb := x\<rparr>) = pv s" "pv (s\<lparr>icache := ic\<rparr>) = pv s" "pv (upd_inode i f s) = pv s"
  "pv (put_ilock i lk s) = pv s" "pv (idup i s) = pv s"
  by (simp_all add: pv_def upd_inode_def put_ilock_def idup_def)

lemma pv_cst [simp]:
  "pv (s\<lparr>crt := c\<rparr>) = pv s" "pv (s\<lparr>crt_pos := p\<rparr>) = pv s" "pv (s\<lparr>uart_out := u\<rparr>) = pv s"
  "pv (s\<lparr>input_buf := b\<rparr>) = pv s" "pv (s\<lparr>input_r := r\<rparr>) = pv s" "pv (s\<lparr>input_w := r\<rparr>) = pv s"
  "pv (s\<lparr>input_e := r\<rparr>) = pv s" "pv (s\<lparr>kbd_shift := sh\<rparr>) = pv s" "pv (uartputc ch s) = pv s"
  by (simp_all add: pv_def uartputc_def)

lemma pv_upper [simp]:
  "pv (s\<lparr>pipes := ps\<rparr>) = pv s" "pv (upd_pipe p f s) = pv s"
  "pv (t\<lparr>ftable := ft\<rparr>) = pv t" "pv (upd_file i g t) = pv t"
  "pv (k\<lparr>forkret_first := b\<rparr>) = pv k"
  by (simp_all add: pv_def upd_pipe_def upd_file_def)

subsection \<open>Buffers and the log\<close>

lemma acquiresleep_pv:
  assumes "acquiresleep get put s = Ok s'" and "\<And>lk s. pv (put lk s) = pv s"
  shows "pv s' = pv s"
  using assms by (auto simp: acquiresleep_def myproc_def split: if_split_asm option.split_asm)

lemmas [pvframe] =
  acquiresleep_pv [of "get_lock b" "put_lock b" for b, OF _ pv_bst(5)]
  acquiresleep_pv [of "get_ilock i" "put_ilock i" for i, OF _ pv_fsst(4)]

lemma releasesleep_pv [simp]:
  "pv (releasesleep (put_lock b) ch s) = pv s" "pv (releasesleep (put_ilock i) ch' s') = pv s'"
  by (simp_all add: releasesleep_def)

lemma bget_pv [pvframe]: "bget dev bno s = Ok (b, s') \<Longrightarrow> pv s' = pv s"
  by (auto simp: bget_def elim!: bindR_OkE dest!: pvframe split: option.split_asm)

lemma iderw_pv [pvframe]: "iderw b s = Ok s' \<Longrightarrow> pv s' = pv s"
  by (auto simp: iderw_def Let_def split: if_split_asm)

lemma bread_pv [pvframe]: "bread dev bno s = Ok (b, s') \<Longrightarrow> pv s' = pv s"
  by (auto simp: bread_def elim!: bindR_OkE dest!: pvframe split: if_split_asm)

lemma bwrite_pv [pvframe]: "bwrite b s = Ok s' \<Longrightarrow> pv s' = pv s"
  by (auto simp: bwrite_def dest!: pvframe split: if_split_asm)

lemma brelse_pv [pvframe]: "brelse b s = Ok s' \<Longrightarrow> pv s' = pv s"
  by (auto simp: brelse_def Let_def split: if_split_asm)

lemma install_loop_pv [pvframe]: "install_loop n tail s = Ok s' \<Longrightarrow> pv s' = pv s"
proof (induction n arbitrary: tail s)
  case (Suc n)
  from Suc.prems show ?case by (auto elim!: bindR_OkE dest!: pvframe Suc.IH)
qed simp

lemma install_trans_pv [pvframe]: "install_trans s = Ok s' \<Longrightarrow> pv s' = pv s"
  by (auto simp: install_trans_def dest!: pvframe)

lemma read_head_pv [pvframe]: "read_head s = Ok s' \<Longrightarrow> pv s' = pv s"
  by (auto simp: read_head_def Let_def elim!: bindR_OkE dest!: pvframe split: if_split_asm)

lemma write_head_pv [pvframe]: "write_head s = Ok s' \<Longrightarrow> pv s' = pv s"
  by (auto simp: write_head_def elim!: bindR_OkE dest!: pvframe)

lemma recover_from_log_pv [pvframe]: "recover_from_log s = Ok s' \<Longrightarrow> pv s' = pv s"
  by (auto simp: recover_from_log_def elim!: bindR_OkE dest!: pvframe)

lemma begin_op_pv [pvframe]: "begin_op s = Ok s' \<Longrightarrow> pv s' = pv s"
  by (auto simp: begin_op_def split: if_split_asm)

lemma write_log_loop_pv [pvframe]: "write_log_loop n tail s = Ok s' \<Longrightarrow> pv s' = pv s"
proof (induction n arbitrary: tail s)
  case (Suc n)
  from Suc.prems show ?case by (auto elim!: bindR_OkE dest!: pvframe Suc.IH)
qed simp

lemma commit_pv [pvframe]: "commit s = Ok s' \<Longrightarrow> pv s' = pv s"
  by (auto simp: commit_def write_log_def elim!: bindR_OkE dest!: pvframe split: if_split_asm)

lemma end_op_pv [pvframe]: "end_op s = Ok s' \<Longrightarrow> pv s' = pv s"
  by (auto simp: end_op_def Let_def elim!: bindR_OkE dest!: pvframe split: if_split_asm)

lemma log_write_pv [pvframe]: "log_write b s = Ok s' \<Longrightarrow> pv s' = pv s"
  by (auto simp: log_write_def Let_def split: if_split_asm option.split_asm)

subsection \<open>Inodes\<close>

lemma readsb_pv [pvframe]: "readsb dev s = Ok (x, s') \<Longrightarrow> pv s' = pv s"
  by (auto simp: readsb_def Let_def elim!: bindR_OkE dest!: pvframe)

lemma initlog_pv [pvframe]: "initlog dev s = Ok s' \<Longrightarrow> pv s' = pv s"
  by (auto simp: initlog_def elim!: bindR_OkE dest!: pvframe)

lemma bzero_pv [pvframe]: "bzero dev bno s = Ok s' \<Longrightarrow> pv s' = pv s"
  by (auto simp: bzero_def elim!: bindR_OkE dest!: pvframe)

lemma balloc_loop_pv [pvframe]: "balloc_loop dev b sz s = Ok (r, s') \<Longrightarrow> pv s' = pv s"
proof (induction "sz - b" arbitrary: b s rule: less_induct)
  case less
  note IH = less.hyps [rotated]
  from less.prems show ?case
    by (subst (asm) balloc_loop.simps)
      (auto simp: Let_def elim!: bindR_OkE dest!: pvframe IH split: if_split_asm option.split_asm)
qed

lemma balloc_pv [pvframe]: "balloc dev s = Ok (r, s') \<Longrightarrow> pv s' = pv s"
  by (auto simp: balloc_def dest!: pvframe)

lemma bfree_pv [pvframe]: "bfree dev b s = Ok s' \<Longrightarrow> pv s' = pv s"
  by (auto simp: bfree_def Let_def elim!: bindR_OkE dest!: pvframe split: if_split_asm)

lemma iinit_pv [pvframe]: "iinit dev s = Ok s' \<Longrightarrow> pv s' = pv s"
  by (auto simp: iinit_def elim!: bindR_OkE dest!: pvframe)

lemma iget_pv [pvframe]: "iget dev inum s = Ok (i, s') \<Longrightarrow> pv s' = pv s"
  by (auto simp: iget_def split: option.split_asm)

lemma ialloc_loop_pv [pvframe]: "ialloc_loop n inum dev type s = Ok (i, s') \<Longrightarrow> pv s' = pv s"
proof (induction n arbitrary: inum s)
  case (Suc n)
  from Suc.prems show ?case by (auto simp: Let_def elim!: bindR_OkE dest!: pvframe Suc.IH split: if_split_asm)
qed simp

lemma ialloc_pv [pvframe]: "ialloc dev type s = Ok (i, s') \<Longrightarrow> pv s' = pv s"
  by (auto simp: ialloc_def dest!: pvframe)

lemma iupdate_pv [pvframe]: "iupdate i s = Ok s' \<Longrightarrow> pv s' = pv s"
  by (auto simp: iupdate_def Let_def elim!: bindR_OkE dest!: pvframe)

lemma ilock_pv [pvframe]: "ilock i s = Ok s' \<Longrightarrow> pv s' = pv s"
  by (auto simp: ilock_def Let_def elim!: bindR_OkE dest!: pvframe split: if_split_asm)

lemma iunlock_pv [pvframe]: "iunlock i s = Ok s' \<Longrightarrow> pv s' = pv s"
  by (auto simp: iunlock_def split: if_split_asm)

lemma free_direct_pv [pvframe]: "free_direct n k i s = Ok s' \<Longrightarrow> pv s' = pv s"
proof (induction n arbitrary: k s)
  case (Suc n)
  from Suc.prems show ?case by (auto simp: Let_def elim!: bindR_OkE dest!: pvframe Suc.IH split: if_split_asm)
qed simp

lemma free_indirect_pv [pvframe]: "free_indirect n j bp dev s = Ok s' \<Longrightarrow> pv s' = pv s"
proof (induction n arbitrary: j s)
  case (Suc n)
  from Suc.prems show ?case by (auto simp: Let_def elim!: bindR_OkE dest!: pvframe Suc.IH split: if_split_asm)
qed simp

lemma itrunc_pv [pvframe]: "itrunc i s = Ok s' \<Longrightarrow> pv s' = pv s"
  by (auto simp: itrunc_def Let_def elim!: bindR_OkE dest!: pvframe split: if_split_asm)

lemma iput_pv [pvframe]: "iput i s = Ok s' \<Longrightarrow> pv s' = pv s"
  by (auto simp: iput_def elim!: bindR_OkE dest!: pvframe split: if_split_asm)

lemma iunlockput_pv [pvframe]: "iunlockput i s = Ok s' \<Longrightarrow> pv s' = pv s"
  by (auto simp: iunlockput_def elim!: bindR_OkE dest!: pvframe)

subsection \<open>The console\<close>

lemma cgaputc_pv [pvframe]: "cgaputc c s = Ok s' \<Longrightarrow> pv s' = pv s"
  by (auto simp: cgaputc_def Let_def split: prod.split_asm if_split_asm)

lemma consputc_pv [pvframe]: "consputc c s = Ok s' \<Longrightarrow> pv s' = pv s"
  by (auto simp: consputc_def dest!: pvframe split: outch.split_asm)

lemma consputs_pv [pvframe]: "consputs cs s = Ok s' \<Longrightarrow> pv s' = pv s"
proof (induction cs arbitrary: s)
  case (Cons c cs)
  from Cons.prems show ?case by (auto elim!: bindR_OkE dest!: pvframe Cons.IH)
qed simp

lemma kprintf_pv [pvframe]: "kprintf fmt args s = Ok s' \<Longrightarrow> pv s' = pv s"
  by (auto simp: kprintf_def elim!: bindR_OkE dest!: pvframe)

lemma print_pcs_pv [pvframe]: "print_pcs pcs s = Ok s' \<Longrightarrow> pv s' = pv s"
proof (induction pcs arbitrary: s)
  case (Cons pc pcs)
  from Cons.prems show ?case by (auto elim!: bindR_OkE dest!: pvframe Cons.IH split: if_split_asm)
qed simp

lemma procdump_loop_pv [pvframe]: "procdump_loop ps s = Ok s' \<Longrightarrow> pv s' = pv s"
proof (induction ps arbitrary: s)
  case (Cons p ps)
  from Cons.prems show ?case
    by (auto elim!: bindR_OkE dest!: pvframe Cons.IH split: if_split_asm simp del: consputs.simps)
qed simp

lemma kill_line_pv [pvframe]: "kill_line n s = Ok s' \<Longrightarrow> pv s' = pv s"
proof (induction n arbitrary: s)
  case (Suc n)
  from Suc.prems show ?case by (auto elim!: bindR_OkE dest!: pvframe Suc.IH split: if_split_asm)
qed simp

lemma cons_char_pv [pvframe]: "cons_char c s = Ok s' \<Longrightarrow> pv s' = pv s"
  by (auto simp: cons_char_def Let_def elim!: bindR_OkE dest!: pvframe split: if_split_asm)

lemma cons_chars_pv [pvframe]: "cons_chars cs s = Ok s' \<Longrightarrow> pv s' = pv s"
proof (induction cs arbitrary: s)
  case (Cons c cs)
  from Cons.prems show ?case by (auto elim!: bindR_OkE dest!: pvframe Cons.IH)
qed simp

lemma consoleintr_pv [pvframe]: "consoleintr cs s = Ok s' \<Longrightarrow> pv s' = pv s"
  by (auto simp: consoleintr_def procdump_def elim!: bindR_OkE dest!: pvframe split: if_split_asm)

lemma kbdintr_pv [pvframe]: "kbdintr ds s = Ok s' \<Longrightarrow> pv s' = pv s"
  by (auto simp: kbdintr_def Let_def dest!: pvframe split: prod.split_asm)

lemma uartintr_pv [pvframe]: "uartintr ds s = Ok s' \<Longrightarrow> pv s' = pv s"
  by (auto simp: uartintr_def dest!: pvframe)

lemma cread_loop_pv [pvframe]: "cread_loop n target acc s = Ok (r, s') \<Longrightarrow> pv s' = pv s"
proof (induction n arbitrary: acc s)
  case (Suc n)
  from Suc.prems show ?case
    by (auto simp: Let_def myproc_def dest!: Suc.IH split: if_split_asm option.split_asm)
qed simp

lemma consoleread_pv [pvframe]:
  "consoleread ip n s = Ok (Done r, k, acc, s') \<Longrightarrow> pv s' = pv s"
  by (auto simp: consoleread_def cread_finish_def elim!: bindR_OkE dest!: pvframe split: rd.split_asm)

lemma consolewrite_pv [pvframe]: "consolewrite ip bs s = Ok (r, s') \<Longrightarrow> pv s' = pv s"
  by (auto simp: consolewrite_def elim!: bindR_OkE dest!: pvframe)

subsection \<open>Files\<close>

lemma bmap_pv [pvframe]: "bmap i bn s = Ok (a, s') \<Longrightarrow> pv s' = pv s"
  by (auto simp: bmap_def Let_def elim!: bindR_OkE dest!: pvframe split: if_split_asm)

lemma readi_loop_pv [pvframe]: "readi_loop i off n s = Ok (bs, s') \<Longrightarrow> pv s' = pv s"
proof (induction "unat n" arbitrary: off n s bs rule: less_induct)
  case less
  note IH = less.hyps [rotated]
  have "n \<noteq> 0 \<Longrightarrow> unat (n - chunk n off) < unat n"
    using chunk_pos [of n off] by (simp add: unat_sub word_le_nat_alt)
  with less.prems show ?case
    by (subst (asm) readi_loop.simps)
      (auto simp: Let_def elim!: bindR_OkE dest!: pvframe IH split: if_split_asm)
qed

lemma readi_pv [pvframe]: "readi i off n s = Ok (r, bs, s') \<Longrightarrow> pv s' = pv s"
  by (auto simp: readi_def Let_def elim!: bindR_OkE dest!: pvframe split: if_split_asm outcome.split_asm)

lemma writei_loop_pv [pvframe]: "writei_loop i off src s = Ok (off', s') \<Longrightarrow> pv s' = pv s"
proof (induction "length src" arbitrary: off src s rule: less_induct)
  case less
  note IH = less.hyps [rotated]
  have "unat (off mod of_nat BSIZE) < 512" by (simp add: unat_mod)
  with less.prems show ?case
    by (subst (asm) writei_loop.simps)
      (auto simp: Let_def min_def elim!: bindR_OkE dest!: pvframe IH split: if_split_asm)
qed

lemma writei_pv [pvframe]: "writei i src off s = Ok (r, s') \<Longrightarrow> pv s' = pv s"
  by (auto simp: writei_def Let_def elim!: bindR_OkE dest!: pvframe split: if_split_asm)

lemma dirlookup_loop_pv [pvframe]: "dirlookup_loop dp name off s = Ok (r, s') \<Longrightarrow> pv s' = pv s"
proof (induction "4294967296 - unat off" arbitrary: off s rule: less_induct)
  case less
  note IH = less.hyps [rotated, OF _ count_up]
  from less.prems show ?case
    by (subst (asm) dirlookup_loop.simps)
      (auto simp: Let_def elim!: bindR_OkE dest!: pvframe IH split: if_split_asm)
qed

lemma dirlookup_pv [pvframe]: "dirlookup dp name s = Ok (r, s') \<Longrightarrow> pv s' = pv s"
  by (auto simp: dirlookup_def dest!: pvframe split: if_split_asm)

lemma empty_dirent_pv [pvframe]: "empty_dirent dp off s = Ok (r, s') \<Longrightarrow> pv s' = pv s"
proof (induction "4294967296 - unat off" arbitrary: off s rule: less_induct)
  case less
  note IH = less.hyps [rotated, OF _ count_up]
  from less.prems show ?case
    by (subst (asm) empty_dirent.simps)
      (auto simp: Let_def elim!: bindR_OkE dest!: pvframe IH split: if_split_asm)
qed

lemma dirlink_pv [pvframe]: "dirlink dp name inum s = Ok (r, s') \<Longrightarrow> pv s' = pv s"
  by (auto simp: dirlink_def elim!: bindR_OkE dest!: pvframe split: option.split_asm if_split_asm)

lemma namex_loop_pv [pvframe]: "namex_loop ip path parent name s = Ok (r, nm, s') \<Longrightarrow> pv s' = pv s"
proof (induction "length path" arbitrary: ip path parent name s rule: less_induct)
  case less
  note IH = less.hyps [rotated]
  show ?case
  proof (cases "skipelem path name")
    case None
    with less.prems show ?thesis
      by (subst (asm) namex_loop.simps) (auto elim!: bindR_OkE dest!: pvframe split: if_split_asm)
  next
    case (Some x)
    then obtain p' n' where x: "skipelem path name = Some (p', n')" by (cases x) auto
    then have "length p' < length path" by (rule skipelem_shorter)
    with less.prems x show ?thesis
      by (subst (asm) namex_loop.simps)
        (auto elim!: bindR_OkE dest!: pvframe IH split: if_split_asm option.split_asm)
  qed
qed

lemma namex_pv [pvframe]: "namex path parent name s = Ok (r, nm, s') \<Longrightarrow> pv s' = pv s"
  by (auto simp: namex_def myproc_def elim!: bindR_OkE dest!: pvframe split: if_split_asm option.split_asm)

lemma namei_pv [pvframe]: "namei path s = Ok (r, s') \<Longrightarrow> pv s' = pv s"
  by (auto simp: namei_def elim!: bindR_OkE dest!: pvframe)

lemma nameiparent_pv [pvframe]: "nameiparent path s = Ok (r, nm, s') \<Longrightarrow> pv s' = pv s"
  by (auto simp: nameiparent_def dest!: pvframe)

text \<open>Reads and writes of pipes may end with the caller asleep, after steps that keep \<open>pv\<close>.\<close>

definition dozes :: "'z pst_scheme \<Rightarrow> 'z pst_scheme \<Rightarrow> bool" where
  "dozes s s' \<longleftrightarrow> (\<exists>t ch. pv t = pv s \<and> sleep ch t = Ok s')"

lemma dozes_pv: "pv t = pv s \<Longrightarrow> dozes t s' \<Longrightarrow> dozes s s'"
  by (auto simp: dozes_def)

lemma sleep_dozes [pvframe]: "sleep ch s = Ok s' \<Longrightarrow> dozes s s'"
  by (auto simp: dozes_def)

lemma pipeclose_pv [pvframe]: "pipeclose p w s = Ok s' \<Longrightarrow> pv s' = pv s"
  by (auto simp: pipeclose_def Let_def dest!: pvframe split: if_split_asm)

lemma pipewrite_loop_pv:
  "pipewrite_loop p n bs s = Ok (r, rest, s') \<Longrightarrow>
   (case r of Done k \<Rightarrow> pv s' = pv s | Asleep \<Rightarrow> dozes s s')"
proof (induction bs arbitrary: s)
  case (Cons b bs)
  from Cons.prems show ?case
    by (auto simp: myproc_def elim!: bindR_OkE dest!: pvframe Cons.IH
        intro: dozes_pv [of "wakeup ch s" s for ch] dozes_pv [of "upd_pipe p f s" s for f]
        split: if_split_asm option.split_asm outcome.split_asm outcome.split)
qed auto

lemma piperead_copy_pv [pvframe]: "piperead_copy n p s = (bs, s') \<Longrightarrow> pv s' = pv s"
proof (induction n arbitrary: s bs)
  case (Suc n)
  from Suc.prems show ?case
    by (auto simp: Let_def dest!: Suc.IH split: if_split_asm prod.split_asm)
qed simp

lemma piperead_pv:
  "piperead p n s = Ok (r, s') \<Longrightarrow> (case r of Done k \<Rightarrow> pv s' = pv s | Asleep \<Rightarrow> dozes s s')"
  by (auto simp: piperead_def myproc_def Let_def elim!: bindR_OkE dest!: pvframe
      split: if_split_asm option.split_asm prod.split_asm outcome.split)

lemma filealloc_pv [pvframe]: "filealloc s = (r, s') \<Longrightarrow> pv s' = pv s"
  by (auto simp: filealloc_def split: option.split_asm)

lemma filedup_pv [pvframe]: "filedup i s = Ok s' \<Longrightarrow> pv s' = pv s"
  by (auto simp: filedup_def split: if_split_asm)

lemma fileclose_pv [pvframe]: "fileclose i s = Ok s' \<Longrightarrow> pv s' = pv s"
  by (auto simp: fileclose_def Let_def elim!: bindR_OkE dest!: pvframe split: if_split_asm fdtype.split_asm)

lemma filestat_pv [pvframe]: "filestat i s = Ok (r, bs, s') \<Longrightarrow> pv s' = pv s"
  by (auto simp: filestat_def Let_def elim!: bindR_OkE dest!: pvframe split: if_split_asm)

lemma fileread_pv:
  "fileread i n s = Ok (r, s') \<Longrightarrow> (case r of Done k \<Rightarrow> pv s' = pv s | Asleep \<Rightarrow> dozes s s')"
  by (auto simp: fileread_def Let_def elim!: bindR_OkE dest!: pvframe piperead_pv
      split: if_split_asm fdtype.split_asm outcome.split)

lemma filewrite_loop_pv [pvframe]: "filewrite_loop i src s = Ok (r, s') \<Longrightarrow> pv s' = pv s"
proof (induction "length src" arbitrary: src s rule: less_induct)
  case less
  note IH = less.hyps [rotated]
  from less.prems show ?case
    by (subst (asm) filewrite_loop.simps)
      (auto simp: Let_def elim!: bindR_OkE dest!: pvframe IH split: if_split_asm)
qed

lemma filewrite_pv:
  "filewrite i src s = Ok (r, rest, s') \<Longrightarrow> (case r of Done k \<Rightarrow> pv s' = pv s | Asleep \<Rightarrow> dozes s s')"
  by (auto simp: filewrite_def pipewrite_def Let_def elim!: bindR_OkE dest!: pvframe pipewrite_loop_pv
      split: if_split_asm fdtype.split_asm)

lemma pipealloc_pv [pvframe]: "pipealloc s = Ok (r, s') \<Longrightarrow> pv s' = pv s"
  by (auto simp: pipealloc_def Let_def elim!: bindR_OkE dest!: pvframe
      split: option.split_asm prod.split_asm if_split_asm)

lemma loaduvm_loop_pv [pvframe]:
  "loaduvm_loop pgdir addr ip offset sz i s = Ok (r, s') \<Longrightarrow> pv s' = pv s"
proof (induction "4294967296 - unat i" arbitrary: i s rule: less_induct)
  case less
  note IH = less.hyps [rotated, OF _ count_up]
  from less.prems show ?case
    by (subst (asm) loaduvm_loop.simps)
      (auto simp: Let_def elim!: bindR_OkE dest!: pvframe IH split: if_split_asm option.split_asm)
qed

lemma loaduvm_pv [pvframe]: "loaduvm pgdir addr ip offset sz s = Ok (r, s') \<Longrightarrow> pv s' = pv s"
  by (auto simp: loaduvm_def dest!: pvframe split: if_split_asm)

lemma load_segments_pv [pvframe]: "load_segments n off pgdir ip sz s = Ok (r, s') \<Longrightarrow> pv s' = pv s"
proof (induction n arbitrary: off sz s)
  case (Suc n)
  from Suc.prems show ?case
    by (auto simp: Let_def elim!: bindR_OkE dest!: pvframe Suc.IH split: if_split_asm)
qed simp

lemma push_args_more [frame]:
  "push_args as argc sp us pgdir s = Ok (r, s') \<Longrightarrow> km.more s' = km.more s"
proof (induction as arbitrary: argc sp us s)
  case (Cons a as)
  from Cons.prems show ?case
    by (auto simp: Let_def elim!: bindR_OkE dest!: frame Cons.IH split: if_split_asm)
qed simp

lemmas [pvframe] = push_args_more [THEN km_more_pv]

end
