(* ===== verification/ProcInv.thy ===== *)
theory ProcInv
  imports Frames
begin

section \<open>The invariant of the process table\<close>

text \<open>
  \<open>ptable_inv None\<close> is what holds of the process table between any two steps of the kernel: process
  identifiers are handed out once, exactly the process on the CPU is running, every process but the
  first has a living parent, the slots not in use belong to nobody. While \<open>fork\<close>, \<open>clone\<close> or
  \<open>userinit\<close> builds the process in slot \<open>e\<close>, \<open>ptable_inv (Some e)\<close> holds, with that slot an embryo.
\<close>

definition slot_ok :: "nat option \<Rightarrow> nat \<Rightarrow> proc list \<Rightarrow> nat option \<Rightarrow> nat option \<Rightarrow> int \<Rightarrow> bool" where
  "slot_ok e i ps c ini np \<longleftrightarrow>
     (let p = ps ! i in
      0 \<le> p_pid p \<and> p_pid p < np \<and> (p_state p \<noteq> UNUSED \<longrightarrow> 0 < p_pid p) \<and>
      (p_state p = EMBRYO \<longleftrightarrow> e = Some i) \<and> (p_state p = RUNNING \<longleftrightarrow> c = Some i) \<and>
      length (p_ofile p) = NOFILE \<and> length (p_sem_held p) = 32 \<and> length (p_name p) = 16 \<and>
      (case p_parent p of
         None \<Rightarrow> p_state p \<in> {UNUSED, EMBRYO} \<or> ini = Some i
       | Some q \<Rightarrow> q < NPROC \<and> p_state p \<noteq> UNUSED \<and> p_state (ps ! q) \<notin> {UNUSED, EMBRYO, ZOMBIE}))"

definition table_ok :: "nat option \<Rightarrow> proc list \<Rightarrow> nat option \<Rightarrow> nat option \<Rightarrow> int \<Rightarrow> bool" where
  "table_ok e ps c ini np \<longleftrightarrow> length ps = NPROC \<and> 1 \<le> np \<and>
     (\<forall>i < NPROC. slot_ok e i ps c ini np) \<and>
     (\<forall>i < NPROC. \<forall>j < NPROC. p_pid (ps ! i) = p_pid (ps ! j) \<longrightarrow> i = j \<or> p_pid (ps ! i) = 0) \<and>
     (\<forall>i. c = Some i \<longrightarrow> i < NPROC) \<and>
     (\<forall>i. ini = Some i \<longrightarrow> i < NPROC \<and> p_state (ps ! i) \<notin> {UNUSED, ZOMBIE}) \<and>
     (ini = None \<longrightarrow> (\<forall>i < NPROC. p_state (ps ! i) \<in> {UNUSED, EMBRYO}))"

definition ptable_inv :: "nat option \<Rightarrow> 'z pst_scheme \<Rightarrow> bool" where
  "ptable_inv e s \<longleftrightarrow> table_ok e (procs s) (cpu_proc s) (initproc s) (nextpid s)"

lemma wk_simps [simp]:
  "p_pid (wk p) = p_pid p" "p_parent (wk p) = p_parent p" "p_ofile (wk p) = p_ofile p"
  "p_sem_held (wk p) = p_sem_held p" "p_name (wk p) = p_name p" "p_cwd (wk p) = p_cwd p"
  "p_killed (wk p) = p_killed p" "p_tf (wk p) = p_tf p"
  "p_state (wk p) = UNUSED \<longleftrightarrow> p_state p = UNUSED" "p_state (wk p) = EMBRYO \<longleftrightarrow> p_state p = EMBRYO"
  "p_state (wk p) = RUNNING \<longleftrightarrow> p_state p = RUNNING" "p_state (wk p) = ZOMBIE \<longleftrightarrow> p_state p = ZOMBIE"
  by (simp_all add: wk_def)

lemma table_ok_wk: "table_ok e (map wk ps) c ini np \<longleftrightarrow> table_ok e ps c ini np"
proof (cases "length ps = NPROC")
  case True
  then have "slot_ok e i (map wk ps) c ini np \<longleftrightarrow> slot_ok e i ps c ini np" if "i < NPROC" for i
    using that by (auto simp: slot_ok_def Let_def split: option.splits)
  with True show ?thesis by (auto simp: table_ok_def)
qed (simp add: table_ok_def)

lemma inv_pv: "pv s' = pv s \<Longrightarrow> ptable_inv e s' \<longleftrightarrow> ptable_inv e s"
  using table_ok_wk [of e "procs s"] table_ok_wk [of e "procs s'"] by (simp add: pv_def ptable_inv_def)

text \<open>What two states with the same view agree on.\<close>

lemma pv_cpu: "pv s' = pv s \<Longrightarrow> cpu_proc s' = cpu_proc s" "pv s' = pv s \<Longrightarrow> initproc s' = initproc s"
  by (simp_all add: pv_def)

lemma pv_slot:
  assumes "pv s' = pv s" and "i < length (procs s)"
  shows "wk (procs s' ! i) = wk (procs s ! i)"
proof -
  have m: "map wk (procs s') = map wk (procs s)" using assms(1) by (simp add: pv_def)
  then have "length (procs s') = length (procs s)" by (rule map_eq_imp_length_eq)
  then show ?thesis using assms(2) arg_cong [OF m, of "\<lambda>l. l ! i"] by simp
qed

lemma pv_parent: "pv s' = pv s \<Longrightarrow> i < length (procs s) \<Longrightarrow> p_parent (procs s' ! i) = p_parent (procs s ! i)"
  using pv_slot [of s' s i] by (metis wk_simps(2))

lemma pv_alive:
  assumes "pv s' = pv s" and "i < length (procs s)" and "x \<in> {UNUSED, EMBRYO, RUNNING, ZOMBIE}"
  shows "p_state (procs s' ! i) = x \<longleftrightarrow> p_state (procs s ! i) = x"
  using pv_slot [OF assms(1,2)] assms(3) wk_simps(9-12) by (metis insertE singletonD)

lemma inv_length: "ptable_inv e s \<Longrightarrow> length (procs s) = NPROC"
  by (simp add: ptable_inv_def table_ok_def)

lemma inv_slot: "ptable_inv e s \<Longrightarrow> i < NPROC \<Longrightarrow> slot_ok e i (procs s) (cpu_proc s) (initproc s) (nextpid s)"
  by (simp add: ptable_inv_def table_ok_def)

lemma inv_cpu:
  assumes "ptable_inv e s" and "cpu_proc s = Some c"
  shows "c < NPROC" and "p_state (procs s ! c) = RUNNING"
proof -
  show c: "c < NPROC" using assms by (simp add: ptable_inv_def table_ok_def)
  show "p_state (procs s ! c) = RUNNING" using inv_slot [OF assms(1) c] assms(2) by (simp add: slot_ok_def Let_def)
qed

subsection \<open>Changes of one slot\<close>

lemma procs_upd_proc [simp]:
  "procs (upd_proc i f s) = (procs s)[i := f (procs s ! i)]" "cpu_proc (upd_proc i f s) = cpu_proc s"
  "initproc (upd_proc i f s) = initproc s" "nextpid (upd_proc i f s) = nextpid s"
  "sema (upd_proc i f s) = sema s"
  by (simp_all add: upd_proc_def)

text \<open>A change that the invariant does not see.\<close>

definition benign :: "(proc \<Rightarrow> proc) \<Rightarrow> bool" where
  "benign f \<longleftrightarrow> (\<forall>p. p_pid (f p) = p_pid p \<and> p_state (f p) = p_state p \<and> p_parent (f p) = p_parent p \<and>
     length (p_ofile (f p)) = length (p_ofile p) \<and> length (p_sem_held (f p)) = length (p_sem_held p) \<and>
     (length (p_name p) = 16 \<longrightarrow> length (p_name (f p)) = 16))"

lemma nth_upd_benign:
  assumes "benign f"
  shows "p_pid (ps[n := f (ps ! n)] ! i) = p_pid (ps ! i)" "p_state (ps[n := f (ps ! n)] ! i) = p_state (ps ! i)"
    "p_parent (ps[n := f (ps ! n)] ! i) = p_parent (ps ! i)"
    "length (p_ofile (ps[n := f (ps ! n)] ! i)) = length (p_ofile (ps ! i))"
    "length (p_sem_held (ps[n := f (ps ! n)] ! i)) = length (p_sem_held (ps ! i))"
    "length (p_name (ps ! i)) = 16 \<Longrightarrow> length (p_name (ps[n := f (ps ! n)] ! i)) = 16"
  using assms by (cases "n = i \<and> i < length ps"; auto simp: benign_def nth_list_update_if)+

lemma slot_ok_benign:
  assumes "benign f" and "slot_ok e i ps c ini np"
  shows "slot_ok e i (ps[n := f (ps ! n)]) c ini np"
  using assms(2) nth_upd_benign(6) [OF assms(1), of ps i n]
  unfolding slot_ok_def Let_def nth_upd_benign(1-5) [OF assms(1)] by blast

lemma inv_benign:
  assumes "benign f" and "ptable_inv e s"
  shows "ptable_inv e (upd_proc n f s)"
proof -
  have "\<forall>j < NPROC. slot_ok e j ((procs s)[n := f (procs s ! n)]) (cpu_proc s) (initproc s) (nextpid s)"
    using slot_ok_benign [OF assms(1) inv_slot [OF assms(2)]] by (intro allI impI)
  then show ?thesis
    using assms(2)
    unfolding ptable_inv_def table_ok_def procs_upd_proc length_list_update nth_upd_benign(1-3) [OF assms(1)]
    by (elim conjE) (intro conjI; assumption)
qed

lemma inv_pids:
  assumes "ptable_inv e s" and "i < NPROC" and "j < NPROC" and "p_pid (procs s ! i) = p_pid (procs s ! j)" and "i \<noteq> j"
  shows "p_pid (procs s ! i) = 0"
  using assms unfolding ptable_inv_def table_ok_def by blast

lemma inv_upd_pids:
  assumes inv: "ptable_inv e s" and f: "p_pid (f (procs s ! n)) = p_pid (procs s ! n) \<or> p_pid (f (procs s ! n)) = 0"
  shows "\<forall>i < NPROC. \<forall>j < NPROC. p_pid (procs (upd_proc n f s) ! i) = p_pid (procs (upd_proc n f s) ! j) \<longrightarrow>
    i = j \<or> p_pid (procs (upd_proc n f s) ! i) = 0"
proof (intro allI impI)
  fix i j
  assume ij: "i < NPROC" "j < NPROC"
    and e: "p_pid (procs (upd_proc n f s) ! i) = p_pid (procs (upd_proc n f s) ! j)"
  have l: "length (procs s) = NPROC" using inv by (rule inv_length)
  have "p_pid (procs (upd_proc n f s) ! k) = (if k = n then p_pid (f (procs s ! n)) else p_pid (procs s ! k))"
    if "k < NPROC" for k
    using that l by (simp add: nth_list_update_if)
  with e ij f inv_pids [OF inv ij] inv_pids [OF inv ij(2,1)]
  show "i = j \<or> p_pid (procs (upd_proc n f s) ! i) = 0"
    by (cases "i = n"; cases "j = n") auto
qed

text \<open>
  The rule for a change of state or parent: the pid stays or becomes zero, the slot is fine
  afterwards, and nobody's living parent is lost.
\<close>

lemma inv_updI:
  assumes inv: "ptable_inv e s" and n: "n < NPROC"
    and pid: "p_pid (f (procs s ! n)) = p_pid (procs s ! n) \<or> p_pid (f (procs s ! n)) = 0"
    and slot: "slot_ok e' n (procs (upd_proc n f s)) (cpu_proc s') (initproc s) (nextpid s)"
    and others: "\<And>i. i < NPROC \<Longrightarrow> i \<noteq> n \<Longrightarrow> (e' = Some i \<longleftrightarrow> e = Some i) \<and> (cpu_proc s' = Some i \<longleftrightarrow> cpu_proc s = Some i)"
    and kids: "p_state (f (procs s ! n)) \<in> {UNUSED, EMBRYO, ZOMBIE} \<Longrightarrow>
      \<forall>i < NPROC. i \<noteq> n \<longrightarrow> p_parent (procs s ! i) \<noteq> Some n"
    and ini: "initproc s = Some n \<Longrightarrow> p_state (f (procs s ! n)) \<notin> {UNUSED, ZOMBIE}"
      "initproc s = None \<Longrightarrow> p_state (f (procs s ! n)) \<in> {UNUSED, EMBRYO}"
    and s': "procs s' = procs (upd_proc n f s)" "initproc s' = initproc s" "nextpid s' = nextpid s"
      "cpu_proc s' = None \<or> cpu_proc s' = cpu_proc s \<or> cpu_proc s' = Some n"
  shows "ptable_inv e' s'"
proof -
  let ?ps = "procs (upd_proc n f s)"
  have l: "length (procs s) = NPROC" using inv by (rule inv_length)
  have "slot_ok e' i ?ps (cpu_proc s') (initproc s) (nextpid s)" if i: "i < NPROC" for i
  proof (cases "i = n")
    case False
    have "slot_ok e i (procs s) (cpu_proc s) (initproc s) (nextpid s)" by (rule inv_slot [OF inv i])
    then show ?thesis
      using False others [OF i False] kids i n l
      by (auto simp: slot_ok_def Let_def nth_list_update_if split: option.splits)
  qed (use slot in simp)
  moreover have "\<forall>i. cpu_proc s' = Some i \<longrightarrow> i < NPROC"
    using s'(4) n inv by (auto simp: ptable_inv_def table_ok_def)
  moreover have "\<forall>i. initproc s = Some i \<longrightarrow> i < NPROC \<and> p_state (?ps ! i) \<notin> {UNUSED, ZOMBIE}"
    using ini(1) inv l by (auto simp: ptable_inv_def table_ok_def nth_list_update_if)
  moreover have "initproc s = None \<longrightarrow> (\<forall>i < NPROC. p_state (?ps ! i) \<in> {UNUSED, EMBRYO})"
    using ini(2) inv l by (auto simp: ptable_inv_def table_ok_def nth_list_update_if)
  moreover have "1 \<le> nextpid s" using inv by (simp add: ptable_inv_def table_ok_def)
  ultimately show ?thesis
    unfolding ptable_inv_def table_ok_def s' using l inv_upd_pids [where f = f and n = n, OF inv pid] by (simp only: procs_upd_proc length_list_update) blast
qed

subsection \<open>Giving up the CPU and getting it\<close>

lemma pv_vm [simp]:
  "pv (s\<lparr>cpu_gdt := g\<rparr>) = pv s" "pv (s\<lparr>cpu_cr3 := a\<rparr>) = pv s" "pv (s\<lparr>ts_ss0 := h\<rparr>) = pv s"
  "pv (s\<lparr>ts_esp0 := a\<rparr>) = pv s" "pv (s\<lparr>ts_iomb := h\<rparr>) = pv s" "pv (s\<lparr>cpu_tr := h\<rparr>) = pv s"
  "pv (s\<lparr>rng := r\<rparr>) = pv s" "pv (s\<lparr>ticks := a\<rparr>) = pv s"
  by (simp_all add: pv_def)

lemma switchuvm_pv [pvframe]: "switchuvm p s = Ok s' \<Longrightarrow> pv s' = pv s"
  by (auto simp: switchuvm_def split: option.split_asm if_split_asm)

lemma inv_leave:
  assumes inv: "ptable_inv None s" and c: "cpu_proc s = Some c"
    and f: "p_pid (f (procs s ! c)) = p_pid (procs s ! c)" "p_parent (f (procs s ! c)) = p_parent (procs s ! c)"
      "length (p_ofile (f (procs s ! c))) = NOFILE" "length (p_sem_held (f (procs s ! c))) = 32"
      "length (p_name (f (procs s ! c))) = 16" "p_state (f (procs s ! c)) \<in> {RUNNABLE, SLEEPING}"
  shows "ptable_inv None (sched_return (upd_proc c f s))"
proof (rule inv_updI [where f = f and n = c, OF inv inv_cpu(1) [OF inv c]])
  have n: "c < length (procs s)" using inv_cpu(1) [OF inv c] inv_length [OF inv] by simp
  show "slot_ok None c (procs (upd_proc c f s)) (cpu_proc (sched_return (upd_proc c f s))) (initproc s) (nextpid s)"
    using inv_slot [OF inv inv_cpu(1) [OF inv c]] inv_cpu(2) [OF inv c] f n
    by (auto simp: slot_ok_def Let_def sched_return_def switchkvm_def nth_list_update_if split: option.splits)
  show "initproc s = None \<Longrightarrow> p_state (f (procs s ! c)) \<in> {UNUSED, EMBRYO}"
    using inv inv_cpu [OF inv c] by (auto simp: ptable_inv_def table_ok_def)
qed (use f c in \<open>auto simp: sched_return_def switchkvm_def\<close>)

lemma inv_lengths:
  assumes "ptable_inv e s" and "i < NPROC"
  shows "length (p_ofile (procs s ! i)) = NOFILE" "length (p_sem_held (procs s ! i)) = 32"
    "length (p_name (procs s ! i)) = 16"
  using inv_slot [OF assms] by (simp_all add: slot_ok_def Let_def)

lemma sleep_inv:
  assumes "sleep ch s = Ok s'" and inv: "ptable_inv None s"
  shows "ptable_inv None s' \<and> cpu_proc s' = None"
proof -
  let ?f = "\<lambda>p. p\<lparr>p_chan := Some ch, p_state := SLEEPING\<rparr>"
  obtain c where c: "cpu_proc s = Some c" and s': "s' = sched_return (upd_proc c ?f s)"
    using assms(1) by (auto simp: sleep_def sched_def myproc_def split: option.splits if_splits)
  show ?thesis
    unfolding s' using inv_lengths [OF inv inv_cpu(1) [OF inv c]]
    by (simp add: inv_leave [OF inv c]) (simp add: sched_return_def)
qed

lemma yield_inv:
  assumes "yield s = Ok s'" and inv: "ptable_inv None s"
  shows "ptable_inv None s' \<and> cpu_proc s' = None"
proof -
  let ?f = "\<lambda>p. p\<lparr>p_state := RUNNABLE\<rparr>"
  obtain c where c: "cpu_proc s = Some c" and s': "s' = sched_return (upd_proc c ?f s)"
    using assms(1) by (auto simp: yield_def sched_def myproc_def split: option.splits if_splits)
  show ?thesis
    unfolding s' using inv_lengths [OF inv inv_cpu(1) [OF inv c]]
    by (simp add: inv_leave [OF inv c]) (simp add: sched_return_def)
qed

lemma dozes_inv: "dozes s s' \<Longrightarrow> ptable_inv None s \<Longrightarrow> ptable_inv None s' \<and> cpu_proc s' = None"
  by (auto simp: dozes_def dest: sleep_inv inv_pv)

lemma pick_SomeD:
  "pick n k ps = Some i \<Longrightarrow> i < NPROC \<and> p_state (ps ! i) = RUNNABLE"
  by (induction n arbitrary: k) (auto split: if_splits)

lemma random_pv: "random mx s = (r, s') \<Longrightarrow> pv s' = pv s \<and> procs s' = procs s \<and> cpu_proc s' = cpu_proc s"
  by (auto simp: random_def Let_def split: if_splits prod.splits)

lemma run_policy_inv:
  assumes "run_policy s = Ok (r, s')"
  shows "pv s' = pv s" "\<And>i. r = Some i \<Longrightarrow> i < NPROC \<and> p_state (procs s' ! i) = RUNNABLE"
  using assms
  by (auto simp: run_policy_def defaultScheduler_def Let_def dest!: random_pv pick_SomeD
      split: policy.splits prod.splits)

lemma scheduler_inv:
  assumes "scheduler s = Ok s'" and inv: "ptable_inv None s" and idle: "cpu_proc s = None"
  shows "ptable_inv None s'"
proof -
  obtain r t where r: "run_policy s = Ok (r, t)"
    and s': "(case r of None \<Rightarrow> Ok t | Some i \<Rightarrow> let s = t\<lparr>cpu_proc := Some i\<rparr> in
       bindR (switchuvm (Some (p_kstack (procs s ! i), p_pgdir (procs s ! i))) s) (\<lambda>s.
         Ok (upd_proc i (\<lambda>p. p\<lparr>p_state := RUNNING\<rparr>) s))) = Ok s'"
    using assms(1) by (auto simp: scheduler_def elim!: bindR_OkE)
  have t: "ptable_inv None t" "cpu_proc t = None"
    using inv idle inv_pv [OF run_policy_inv(1) [OF r]] pv_cpu(1) [OF run_policy_inv(1) [OF r]] by simp_all
  show ?thesis
  proof (cases r)
    case None
    with s' t show ?thesis by simp
  next
    case (Some i)
    have i: "i < NPROC" "p_state (procs t ! i) = RUNNABLE" using run_policy_inv(2) [OF r Some] by simp_all
    let ?f = "\<lambda>p. p\<lparr>p_state := RUNNING\<rparr>"
    obtain u where u: "switchuvm (Some (p_kstack (procs t ! i), p_pgdir (procs t ! i))) (t\<lparr>cpu_proc := Some i\<rparr>) = Ok u"
      "s' = upd_proc i ?f u"
      using s' Some by (auto elim!: bindR_OkE)
    have u': "procs u = procs t" "cpu_proc u = Some i" "initproc u = initproc t" "nextpid u = nextpid t"
      using u(1) by (auto simp: switchuvm_def split: if_splits)
    have n: "i < length (procs t)" using i inv_length [OF t(1)] by simp
    show ?thesis
    proof (rule inv_updI [where f = ?f and n = i, OF t(1) i(1)])
      show "slot_ok None i (procs (upd_proc i ?f t)) (cpu_proc s') (initproc t) (nextpid t)"
        using inv_slot [OF t(1) i(1)] n i(2) u'(2)
        by (auto simp: slot_ok_def Let_def u(2) nth_list_update_if split: option.splits)
      show "initproc t = None \<Longrightarrow> p_state (?f (procs t ! i)) \<in> {UNUSED, EMBRYO}"
        using t(1) i by (auto simp: ptable_inv_def table_ok_def)
    qed (use u' t(2) u(2) in auto)
  qed
qed

subsection \<open>Operations on the table\<close>

lemma kill_inv:
  assumes "kill pid s = (r, s')" and "ptable_inv None s"
  shows "ptable_inv None s' \<and> cpu_proc s' = cpu_proc s"
proof (cases "scan (\<lambda>p. p_pid p = pid) (procs s)")
  case None
  then show ?thesis using assms by (simp add: kill_def)
next
  case (Some i)
  let ?k = "\<lambda>p. p\<lparr>p_killed := 1\<rparr>"
  have s': "s' = upd_proc i (\<lambda>p. p\<lparr>p_killed := 1, p_state := if p_state p = SLEEPING then RUNNABLE else p_state p\<rparr>) s"
    using assms(1) Some by (simp add: kill_def)
  have "pv s' = pv (upd_proc i ?k s)" by (simp add: s' pv_def wk_def map_update)
  moreover have "ptable_inv None (upd_proc i ?k s)" by (rule inv_benign [OF _ assms(2)]) (simp add: benign_def)
  ultimately have "ptable_inv None s'" using inv_pv by blast
  then show ?thesis by (simp add: s')
qed

lemma setpriority_inv:
  "setpriority pid pr s = (r, s') \<Longrightarrow> ptable_inv e s \<Longrightarrow> ptable_inv e s' \<and> cpu_proc s' = cpu_proc s"
  by (auto simp: setpriority_def intro!: inv_benign split: if_split_asm option.split_asm) (simp_all add: benign_def)

lemma inv_sema [simp]: "ptable_inv e (upd_sema i f s) = ptable_inv e s" "cpu_proc (upd_sema i f s) = cpu_proc s"
  "procs (upd_sema i f s) = procs s"
  by (simp_all add: ptable_inv_def upd_sema_def)

lemma inv_wakeup [simp]: "ptable_inv e (wakeup ch s) = ptable_inv e s" "cpu_proc (wakeup ch s) = cpu_proc s"
  "initproc (wakeup ch s) = initproc s"
  by (rule inv_pv [OF pv_wakeup]) (simp_all add: wakeup_def wakeup1_def)

lemma sem_init_inv: "sem_init i v s = (r, s') \<Longrightarrow> ptable_inv e s \<Longrightarrow> ptable_inv e s' \<and> cpu_proc s' = cpu_proc s"
  by (auto simp: sem_init_def split: if_split_asm)

lemma sem_destroy_inv: "sem_destroy i s = (r, s') \<Longrightarrow> ptable_inv e s \<Longrightarrow> ptable_inv e s' \<and> cpu_proc s' = cpu_proc s"
  by (auto simp: sem_destroy_def split: if_split_asm)

lemma sem_signal_inv: "sem_signal i n s = (r, s') \<Longrightarrow> ptable_inv e s \<Longrightarrow> ptable_inv e s' \<and> cpu_proc s' = cpu_proc s"
  by (auto simp: sem_signal_def split: if_split_asm)

text \<open>
  What every operation of the running process does: the invariant holds afterwards, and the process is
  still the one on the CPU if the operation is done.
\<close>

definition keeps :: "'z pst_scheme \<Rightarrow> 'a outcome \<times> 'z pst_scheme \<Rightarrow> bool" where
  "keeps s x \<longleftrightarrow> (case x of (r, s') \<Rightarrow> ptable_inv None s' \<and>
     (case r of Done _ \<Rightarrow> cpu_proc s' = cpu_proc s | Asleep \<Rightarrow> cpu_proc s' = None))"

lemma keeps_Done: "keeps s (Done r, s') \<longleftrightarrow> ptable_inv None s' \<and> cpu_proc s' = cpu_proc s"
  by (simp add: keeps_def)

lemma keeps_Asleep: "keeps s (Asleep, s') \<longleftrightarrow> ptable_inv None s' \<and> cpu_proc s' = None"
  by (simp add: keeps_def)

lemma awake_inv: "awake s = Ok s' \<Longrightarrow> ptable_inv e s \<Longrightarrow> ptable_inv e s' \<and> cpu_proc s' = cpu_proc s"
  by (auto simp: awake_def myproc_def intro!: inv_benign split: option.split_asm) (simp add: benign_def)

lemma sem_wait_loop_inv:
  assumes "sem_wait_loop i n s = Ok x" and "ptable_inv None s"
  shows "keeps s x"
proof (cases "sem_value (sema s ! nat i) < n")
  case True
  then obtain s' where "sleep (ChSema (nat i)) s = Ok s'" "x = (Asleep, s')"
    using assms(1) by (auto simp: sem_wait_loop_def elim!: bindR_OkE)
  then show ?thesis using sleep_inv assms(2) by (simp add: keeps_Asleep)
next
  case False
  then show ?thesis
    using assms
    by (auto simp: sem_wait_loop_def myproc_def Let_def keeps_Done intro!: inv_benign split: option.split_asm)
      (simp_all add: benign_def)
qed

lemma sem_wait_inv: "sem_wait i n s = Ok x \<Longrightarrow> ptable_inv None s \<Longrightarrow> keeps s x"
  by (auto simp: sem_wait_def keeps_Done intro: sem_wait_loop_inv split: if_split_asm)

lemma growproc_inv:
  assumes "growproc n s = Ok (r, s')" and "ptable_inv e s"
  shows "ptable_inv e s' \<and> cpu_proc s' = cpu_proc s"
proof -
  have "\<exists>c t sz. pv t = pv s \<and> (s' = t \<or> pv s' = pv (upd_proc c (\<lambda>p. p\<lparr>p_sz := sz\<rparr>) t))"
    using assms(1)
    by (auto simp: growproc_def myproc_def Let_def elim!: bindR_OkE dest!: pvframe
        split: if_split_asm option.split_asm) blast+
  then obtain c t sz where "pv t = pv s" and s': "s' = t \<or> (pv s' = pv (upd_proc c (\<lambda>p. p\<lparr>p_sz := sz\<rparr>) t))"
    by blast
  moreover from this assms(2) have t: "ptable_inv e t" using inv_pv by blast
  moreover have "ptable_inv e (upd_proc c (\<lambda>p. p\<lparr>p_sz := sz\<rparr>) t)"
    by (rule inv_benign [OF _ t]) (simp add: benign_def)
  ultimately show ?thesis using inv_pv pv_cpu(1) procs_upd_proc(2) by metis
qed

subsection \<open>Reaping\<close>

lemma inv_reap:
  assumes inv: "ptable_inv None s" and i: "i < NPROC" and z: "p_state (procs s ! i) = ZOMBIE"
    and f: "p_pid (f (procs s ! i)) = 0" "p_state (f (procs s ! i)) = UNUSED" "p_parent (f (procs s ! i)) = None"
      "length (p_ofile (f (procs s ! i))) = NOFILE" "length (p_sem_held (f (procs s ! i))) = 32"
      "length (p_name (f (procs s ! i))) = 16"
  shows "ptable_inv None (upd_proc i f s)"
proof (rule inv_updI [where f = f and n = i, OF inv i])
  have n: "i < length (procs s)" using i inv_length [OF inv] by simp
  have np: "1 \<le> nextpid s" using inv by (simp add: ptable_inv_def table_ok_def)
  have c: "cpu_proc s \<noteq> Some i" using inv_cpu(2) [OF inv] z by auto
  then show "slot_ok None i (procs (upd_proc i f s)) (cpu_proc (upd_proc i f s)) (initproc s) (nextpid s)"
    using f n np by (simp add: slot_ok_def Let_def)
  show "\<forall>j < NPROC. j \<noteq> i \<longrightarrow> p_parent (procs s ! j) \<noteq> Some i"
    using inv_slot [OF inv] z by (fastforce simp: slot_ok_def Let_def)
  show "initproc s = Some i \<Longrightarrow> p_state (f (procs s ! i)) \<notin> {UNUSED, ZOMBIE}"
    using inv z by (auto simp: ptable_inv_def table_ok_def)
qed (use f in auto)

lemma cleared_simps [simp]:
  "p_pid (cleared p) = 0" "p_state (cleared p) = UNUSED" "p_parent (cleared p) = None"
  "p_ofile (cleared p) = p_ofile p" "p_sem_held (cleared p) = p_sem_held p"
  "length (p_name (cleared p)) = length (p_name p)"
  by (simp_all add: cleared_def)

lemma reap_pv:
  assumes inv: "ptable_inv None s" and pv: "pv t = pv s" and z: "i < NPROC" "p_state (procs s ! i) = ZOMBIE"
    and f: "\<And>p. p_pid (f p) = 0 \<and> p_state (f p) = UNUSED \<and> p_parent (f p) = None \<and>
      length (p_ofile (f p)) = length (p_ofile p) \<and> length (p_sem_held (f p)) = length (p_sem_held p) \<and>
      length (p_name (f p)) = length (p_name p)"
  shows "ptable_inv None (upd_proc i f t) \<and> cpu_proc (upd_proc i f t) = cpu_proc s"
proof -
  have t: "ptable_inv None t" using inv inv_pv [OF pv] by blast
  have n: "i < length (procs s)" using z inv_length [OF inv] by simp
  have "p_state (procs t ! i) = ZOMBIE" using pv_alive [OF pv n] z by blast
  then show ?thesis using f inv_lengths [OF t z(1)] pv_cpu(1) [OF pv] by (simp add: inv_reap [OF t z(1)])
qed

lemma scan_proc:
  assumes "scan P (procs s) = Some i" and "ptable_inv e s"
  shows "i < NPROC" and "P (procs s ! i)"
  using scan_SomeD [OF assms(1)] inv_length [OF assms(2)] by simp_all

lemma wait_inv:
  assumes "wait s = Ok x" and inv: "ptable_inv None s"
  shows "keeps s x"
proof -
  obtain c where c: "cpu_proc s = Some c" using assms(1) by (auto simp: wait_def myproc_def split: option.splits)
  show ?thesis
  proof (cases "scan (\<lambda>p. is_child c p \<and> p_state p = ZOMBIE) (procs s)")
    case None
    then show ?thesis
      using assms c by (auto simp: wait_def myproc_def keeps_Done keeps_Asleep dest!: sleep_inv
          elim!: bindR_OkE split: if_split_asm)
  next
    case (Some i)
    then obtain t where t: "pv t = pv s" "x = (Done (p_pid (procs s ! i)), upd_proc i cleared t)"
      using assms(1) c by (auto simp: wait_def myproc_def Let_def elim!: bindR_OkE dest!: pvframe)
    show ?thesis
      unfolding t(2) keeps_Done using scan_proc [OF Some inv] by (intro reap_pv [OF inv t(1)]) simp_all
  qed
qed

lemma wait2_inv:
  assumes "wait2 a b d s = Ok x" and inv: "ptable_inv None s"
  shows "keeps s x"
proof -
  obtain c where c: "cpu_proc s = Some c" using assms(1) by (auto simp: wait2_def myproc_def split: option.splits)
  show ?thesis
  proof (cases "scan (\<lambda>p. is_child c p \<and> p_state p = ZOMBIE) (procs s)")
    case None
    then show ?thesis
      using assms c by (auto simp: wait2_def myproc_def keeps_Done keeps_Asleep dest!: sleep_inv
          elim!: bindR_OkE split: if_split_asm)
  next
    case (Some i)
    then obtain t where t: "pv t = pv s" "x = (Done (p_pid (procs s ! i)), upd_proc i
        (\<lambda>p. (cleared p)\<lparr>p_ctime := 0, p_retime := 0, p_rutime := 0, p_stime := 0, p_priority := 0\<rparr>) t)"
      using assms(1) c by (auto simp: wait2_def myproc_def Let_def elim!: bindR_OkE dest!: pvframe)
    show ?thesis
      unfolding t(2) keeps_Done using scan_proc [OF Some inv] by (intro reap_pv [OF inv t(1)]) simp_all
  qed
qed

lemma join_inv:
  fixes s :: "'z pst_scheme"
  assumes "join a s = Ok x" and inv: "ptable_inv None s"
  shows "keeps s x"
proof -
  obtain c where c: "cpu_proc s = Some c" using assms(1) by (auto simp: join_def myproc_def split: option.splits)
  show ?thesis
  proof (cases "scan (\<lambda>p. is_thread c p \<and> p_state p = ZOMBIE) (procs s)")
    case None
    then show ?thesis
      using assms c by (auto simp: join_def myproc_def keeps_Done keeps_Asleep dest!: sleep_inv
          elim!: bindR_OkE split: if_split_asm)
  next
    case (Some i)
    then obtain t u :: "'z pst_scheme" where t: "pv t = pv s" "pv u = pv (upd_proc i cleared t)" "x = (Done (p_pid (procs s ! i)), u)"
      using assms(1) c by (auto simp: join_def myproc_def Let_def elim!: bindR_OkE dest!: pvframe)
    have "ptable_inv None (upd_proc i cleared t) \<and> cpu_proc (upd_proc i cleared t) = cpu_proc s"
      using scan_proc [OF Some inv] by (intro reap_pv [OF inv t(1)]) simp_all
    then show ?thesis
      unfolding t(3) keeps_Done using inv_pv [OF t(2)] pv_cpu(1) [OF t(2)] by simp
  qed
qed

subsection \<open>New processes\<close>

text \<open>A free slot becomes an embryo with the next identifier.\<close>

lemma inv_fresh:
  assumes inv: "ptable_inv None s" and i: "i < NPROC" and u: "p_state (procs s ! i) = UNUSED"
  defines "s' \<equiv> upd_proc i (\<lambda>p. p\<lparr>p_state := EMBRYO, p_priority := 10, p_pid := nextpid s,
                    p_sem_held := replicate 32 0\<rparr>) (s\<lparr>nextpid := nextpid s + 1\<rparr>)"
  shows "ptable_inv (Some i) s'" and "p_parent (procs s' ! i) = None"
proof -
  have l: "length (procs s) = NPROC" and np: "1 \<le> nextpid s" and c: "\<forall>j. cpu_proc s = Some j \<longrightarrow> j < NPROC"
    and ini: "\<forall>j. initproc s = Some j \<longrightarrow> j < NPROC \<and> p_state (procs s ! j) \<notin> {UNUSED, ZOMBIE}"
      "initproc s = None \<longrightarrow> (\<forall>j < NPROC. p_state (procs s ! j) \<in> {UNUSED, EMBRYO})"
    using inv by (auto simp: ptable_inv_def table_ok_def)
  have sl: "slot_ok None j (procs s) (cpu_proc s) (initproc s) (nextpid s)" if "j < NPROC" for j
    by (rule inv_slot [OF inv that])
  have ps: "procs s' ! j = (if j = i then (procs s ! i)\<lparr>p_state := EMBRYO, p_priority := 10, p_pid := nextpid s,
      p_sem_held := replicate 32 0\<rparr> else procs s ! j)" if "j < NPROC" for j
    using that l by (simp add: s'_def nth_list_update_if)
  have ii: "initproc s \<noteq> Some i" using ini(1) u by auto
  have ci: "cpu_proc s \<noteq> Some i" using inv_cpu(2) [OF inv] u by auto
  have parent: "p_parent (procs s ! i) = None"
    using sl [OF i] u by (auto simp: slot_ok_def Let_def split: option.splits)
  then show "p_parent (procs s' ! i) = None" using ps [OF i] by simp
  have fields: "cpu_proc s' = cpu_proc s" "initproc s' = initproc s" "nextpid s' = nextpid s + 1"
    by (simp_all add: s'_def)
  have "slot_ok (Some i) j (procs s') (cpu_proc s) (initproc s) (nextpid s + 1)" if j: "j < NPROC" for j
  proof (cases "j = i")
    case True
    then show ?thesis using ps [OF i] sl [OF i] ci np parent by (auto simp: slot_ok_def Let_def)
  next
    case False
    have "p_state (procs s' ! q) \<notin> {UNUSED, EMBRYO, ZOMBIE}"
      if "p_parent (procs s ! j) = Some q" for q
      using sl [OF j] that u ps [of q] by (auto simp: slot_ok_def Let_def)
    then show ?thesis
      using ps [OF j] sl [OF j] False by (auto simp: slot_ok_def Let_def split: option.splits)
  qed
  moreover have "k = j \<or> p_pid (procs s' ! k) = 0"
    if k: "k < NPROC" and j: "j < NPROC" and e: "p_pid (procs s' ! k) = p_pid (procs s' ! j)" for k j
  proof -
    have "p_pid (procs s ! m) < nextpid s" if "m < NPROC" for m
      using sl [OF that] by (simp add: slot_ok_def Let_def)
    from this [OF k] this [OF j] e inv_pids [OF inv k j] show ?thesis
      unfolding ps [OF k] ps [OF j] by (auto split: if_splits)
  qed
  moreover have "\<forall>j. initproc s = Some j \<longrightarrow> j < NPROC \<and> p_state (procs s' ! j) \<notin> {UNUSED, ZOMBIE}"
    using ini(1) ps by auto
  moreover have "initproc s = None \<longrightarrow> (\<forall>j < NPROC. p_state (procs s' ! j) \<in> {UNUSED, EMBRYO})"
    using ini(2) ps by auto
  moreover have "length (procs s') = NPROC" using l by (simp add: s'_def)
  ultimately show "ptable_inv (Some i) s'"
    unfolding ptable_inv_def table_ok_def fields using c np by auto
qed

text \<open>The embryo given up: its slot is free again.\<close>

lemma inv_cancel:
  assumes inv: "ptable_inv (Some i) s" and i: "i < NPROC" and p: "p_parent (procs s ! i) = None"
    and ini: "initproc s \<noteq> Some i"
    and f: "p_pid (f (procs s ! i)) = p_pid (procs s ! i)" "p_state (f (procs s ! i)) = UNUSED"
      "p_parent (f (procs s ! i)) = None" "length (p_ofile (f (procs s ! i))) = NOFILE"
      "length (p_sem_held (f (procs s ! i))) = 32" "length (p_name (f (procs s ! i))) = 16"
  shows "ptable_inv None (upd_proc i f s)"
proof (rule inv_updI [where f = f and n = i, OF inv i])
  have n: "i < length (procs s)" using i inv_length [OF inv] by simp
  have e: "p_state (procs s ! i) = EMBRYO" using inv_slot [OF inv i] by (simp add: slot_ok_def Let_def)
  show "slot_ok None i (procs (upd_proc i f s)) (cpu_proc (upd_proc i f s)) (initproc s) (nextpid s)"
    using inv_slot [OF inv i] f n e by (auto simp: slot_ok_def Let_def)
  show "\<forall>j < NPROC. j \<noteq> i \<longrightarrow> p_parent (procs s ! j) \<noteq> Some i"
    using inv_slot [OF inv] e by (fastforce simp: slot_ok_def Let_def)
qed (use f ini in auto)

text \<open>The embryo gets a parent, and is born.\<close>

lemma inv_adopt:
  assumes inv: "ptable_inv (Some i) s" and i: "i < NPROC" and q: "q < NPROC" "p_state (procs s ! q) = RUNNING"
    and f: "p_pid (f (procs s ! i)) = p_pid (procs s ! i)" "p_state (f (procs s ! i)) = p_state (procs s ! i)"
      "p_parent (f (procs s ! i)) = Some q" "length (p_ofile (f (procs s ! i))) = NOFILE"
      "length (p_sem_held (f (procs s ! i))) = 32" "length (p_name (f (procs s ! i))) = 16"
  shows "ptable_inv (Some i) (upd_proc i f s)"
proof (rule inv_updI [where f = f and n = i, OF inv i])
  have n: "i < length (procs s)" using i inv_length [OF inv] by simp
  have e: "p_state (procs s ! i) = EMBRYO" using inv_slot [OF inv i] by (simp add: slot_ok_def Let_def)
  then show "slot_ok (Some i) i (procs (upd_proc i f s)) (cpu_proc (upd_proc i f s)) (initproc s) (nextpid s)"
    using inv_slot [OF inv i] f n q by (auto simp: slot_ok_def Let_def nth_list_update_if)
  show "\<forall>j < NPROC. j \<noteq> i \<longrightarrow> p_parent (procs s ! j) \<noteq> Some i"
    using inv_slot [OF inv] e by (fastforce simp: slot_ok_def Let_def)
  show "initproc s = None \<Longrightarrow> p_state (f (procs s ! i)) \<in> {UNUSED, EMBRYO}" using e f(2) by simp
qed (use f inv_slot [OF inv i] in \<open>auto simp: slot_ok_def Let_def\<close>)

lemma inv_birth:
  assumes inv: "ptable_inv (Some i) s" and i: "i < NPROC"
    and q: "p_parent (procs s ! i) \<noteq> None \<or> initproc s = Some i"
    and f: "p_pid (f (procs s ! i)) = p_pid (procs s ! i)" "p_state (f (procs s ! i)) = RUNNABLE"
      "p_parent (f (procs s ! i)) = p_parent (procs s ! i)" "length (p_ofile (f (procs s ! i))) = NOFILE"
      "length (p_sem_held (f (procs s ! i))) = 32" "length (p_name (f (procs s ! i))) = 16"
  shows "ptable_inv None (upd_proc i f s)"
proof (rule inv_updI [where f = f and n = i, OF inv i])
  have n: "i < length (procs s)" using i inv_length [OF inv] by simp
  have e: "p_state (procs s ! i) = EMBRYO" using inv_slot [OF inv i] by (simp add: slot_ok_def Let_def)
  then show "slot_ok None i (procs (upd_proc i f s)) (cpu_proc (upd_proc i f s)) (initproc s) (nextpid s)"
    using inv_slot [OF inv i] f n q by (auto simp: slot_ok_def Let_def nth_list_update_if split: option.splits)
  show "initproc s = None \<Longrightarrow> p_state (f (procs s ! i)) \<in> {UNUSED, EMBRYO}"
  proof -
    assume none: "initproc s = None"
    with q obtain r where "p_parent (procs s ! i) = Some r" by auto
    then have "r < NPROC" "p_state (procs s ! r) \<notin> {UNUSED, EMBRYO}"
      using inv_slot [OF inv i] by (auto simp: slot_ok_def Let_def)
    with none inv have False by (auto simp: ptable_inv_def table_ok_def)
    then show ?thesis ..
  qed
qed (use f in auto)

end
