(* ===== verification/KernelInv.thy ===== *)
theory KernelInv
  imports ProcInv
begin

section \<open>Process creation and exit keep the invariant\<close>

text \<open>
  \<open>fork\<close>, \<open>clone\<close> and \<open>exit\<close> keep the invariant of the process table. Between \<open>allocproc\<close> and the
  moment the new process may run, one slot is an embryo; \<open>embryo\<close> says what is known then.
\<close>

lemma allocproc_inv:
  assumes a: "allocproc s = (r, s')" and inv: "ptable_inv None s"
  shows "cpu_proc s' = cpu_proc s \<and> initproc s' = initproc s \<and>
    (case r of None \<Rightarrow> ptable_inv None s'
     | Some n \<Rightarrow> n < NPROC \<and> p_state (procs s ! n) = UNUSED \<and> ptable_inv (Some n) s' \<and>
         p_parent (procs s' ! n) = None)"
proof (cases "scan (\<lambda>p. p_state p = UNUSED) (procs s)")
  case None
  then show ?thesis using assms by (auto simp: allocproc_def)
next
  case (Some i)
  have i: "i < NPROC" and u: "p_state (procs s ! i) = UNUSED" using scan_proc [OF Some inv] by simp_all
  let ?s1 = "upd_proc i (\<lambda>p. p\<lparr>p_state := EMBRYO, p_priority := 10, p_pid := nextpid s,
                    p_sem_held := replicate 32 0\<rparr>) (s\<lparr>nextpid := nextpid s + 1\<rparr>)"
  have f1: "ptable_inv (Some i) ?s1" "p_parent (procs ?s1 ! i) = None" by (rule inv_fresh [OF inv i u])+
  obtain ks s2 where k: "kalloc ?s1 = (ks, s2)" by fastforce
  let ?f = "\<lambda>p. p\<lparr>p_kstack := ks\<rparr>"
  have pv2: "pv s2 = pv ?s1" using kalloc_more [OF k] by (rule km_more_pv)
  have "ptable_inv (Some i) s2" using f1(1) inv_pv [OF pv2] by blast
  then have inv3: "ptable_inv (Some i) (upd_proc i ?f s2)" by (rule inv_benign [rotated]) (simp add: benign_def)
  have l1: "i < length (procs ?s1)" using i inv_length [OF f1(1)] by simp
  then have par2: "p_parent (procs s2 ! i) = None" using pv_parent [OF pv2 l1] f1(2) by simp
  have l2: "i < length (procs s2)" using i inv_length [OF inv3] by simp
  have cpu2: "cpu_proc s2 = cpu_proc s" "initproc s2 = initproc s" using pv_cpu [OF pv2] by simp_all
  have ini: "initproc s \<noteq> Some i" using inv u by (auto simp: ptable_inv_def table_ok_def)
  show ?thesis
  proof (cases "ks = 0")
    case True
    then have r: "r = None" "s' = upd_proc i (\<lambda>p. p\<lparr>p_state := UNUSED\<rparr>) (upd_proc i ?f s2)"
      using a Some k by (simp_all add: allocproc_def Let_def)
    have "ptable_inv None s'"
      unfolding r(2) using inv_lengths [OF inv3 i] par2 l2 ini cpu2(2)
      by (intro inv_cancel [OF inv3 i]) (simp_all add: nth_list_update_if)
    with r cpu2 show ?thesis by simp
  next
    case False
    let ?sp = "ks + 4096 - 76"
    let ?s4 = "upd_proc i (\<lambda>p. p\<lparr>p_tf := ?sp\<rparr>) (upd_proc i ?f s2)"
    let ?s5 = "?s4\<lparr>k_mem := store32 (k_mem ?s4) (?sp - 4) (a_trapret ?s4)\<rparr>"
    let ?s6 = "upd_proc i (\<lambda>p. p\<lparr>p_context := ?sp - 4 - 20\<rparr>) ?s5"
    have r: "r = Some i" "\<exists>m. s' = ?s6\<lparr>k_mem := m\<rparr>"
      using a Some k False by (auto simp: allocproc_def Let_def)
    have "ptable_inv (Some i) ?s4" by (rule inv_benign [OF _ inv3]) (simp add: benign_def)
    then have "ptable_inv (Some i) ?s5" by (simp add: ptable_inv_def)
    then have "ptable_inv (Some i) ?s6" by (rule inv_benign [rotated]) (simp add: benign_def)
    with r(2) have "ptable_inv (Some i) s'" by (auto simp: ptable_inv_def)
    moreover have "p_parent (procs s' ! i) = None" using r(2) par2 l2 by (auto simp: nth_list_update_if)
    ultimately show ?thesis using r i u cpu2 by auto
  qed
qed

subsection \<open>fork and clone\<close>

text \<open>Slot \<open>n\<close> is being built and has the parent \<open>q\<close>; \<open>x\<close> are the CPU's process and the first one.\<close>

definition embryo :: "nat \<Rightarrow> nat option \<Rightarrow> nat option \<times> nat option \<Rightarrow> 'z pst_scheme \<Rightarrow> bool" where
  "embryo n q x s \<longleftrightarrow> ptable_inv (Some n) s \<and> n < NPROC \<and> p_parent (procs s ! n) = q \<and>
     x = (cpu_proc s, initproc s)"

lemma embryo_pv:
  assumes "pv s' = pv s" and "embryo n q x s"
  shows "embryo n q x s'"
proof -
  have "n < length (procs s)" using assms(2) inv_length [of "Some n" s] by (auto simp: embryo_def)
  then show ?thesis
    using assms inv_pv [OF assms(1)] pv_parent [OF assms(1)] pv_cpu [OF assms(1)] by (simp add: embryo_def)
qed

lemma embryo_benign: "embryo n q x s \<Longrightarrow> benign f \<Longrightarrow> embryo n q x (upd_proc i f s)"
  using nth_upd_benign(3) [of f "procs s" i n] by (simp add: embryo_def inv_benign)

lemma embryo_adopt:
  assumes e: "embryo n q (Some c, ini) s"
    and f: "\<And>p. p_pid (f p) = p_pid p \<and> p_state (f p) = p_state p \<and> p_parent (f p) = Some c \<and>
      p_ofile (f p) = p_ofile p \<and> p_sem_held (f p) = p_sem_held p \<and> p_name (f p) = p_name p"
  shows "embryo n (Some c) (Some c, ini) (upd_proc n f s)"
proof -
  have i: "ptable_inv (Some n) s" "n < NPROC" "cpu_proc s = Some c" "initproc s = ini"
    using e by (auto simp: embryo_def)
  have "ptable_inv (Some n) (upd_proc n f s)"
    using f inv_lengths [OF i(1,2)] inv_cpu [OF i(1,3)] by (intro inv_adopt [OF i(1,2)]) simp_all
  then show ?thesis using i f inv_length [OF i(1)] by (simp add: embryo_def)
qed

lemma embryo_cancel:
  assumes e: "embryo n None (c, ini) s" and "ini \<noteq> Some n"
    and f: "\<And>p. p_pid (f p) = p_pid p \<and> p_state (f p) = UNUSED \<and> p_parent (f p) = p_parent p \<and>
      p_ofile (f p) = p_ofile p \<and> p_sem_held (f p) = p_sem_held p \<and> p_name (f p) = p_name p"
  shows "ptable_inv None (upd_proc n f s) \<and> cpu_proc (upd_proc n f s) = c"
proof -
  have i: "ptable_inv (Some n) s" "n < NPROC" "cpu_proc s = c" "initproc s = ini" "p_parent (procs s ! n) = None"
    using e by (auto simp: embryo_def)
  have "ptable_inv None (upd_proc n f s)"
    using f inv_lengths [OF i(1,2)] i(4,5) assms(2) by (intro inv_cancel [OF i(1,2)]) simp_all
  with i show ?thesis by simp
qed

lemma embryo_birth:
  assumes e: "embryo n q (c, ini) s" and "q \<noteq> None \<or> ini = Some n"
    and f: "\<And>p. p_pid (f p) = p_pid p \<and> p_state (f p) = RUNNABLE \<and> p_parent (f p) = p_parent p \<and>
      p_ofile (f p) = p_ofile p \<and> p_sem_held (f p) = p_sem_held p \<and> p_name (f p) = p_name p"
  shows "ptable_inv None (upd_proc n f s) \<and> cpu_proc (upd_proc n f s) = c"
proof -
  have i: "ptable_inv (Some n) s" "n < NPROC" "cpu_proc s = c" "initproc s = ini" "p_parent (procs s ! n) = q"
    using e by (auto simp: embryo_def)
  have "ptable_inv None (upd_proc n f s)"
    using f inv_lengths [OF i(1,2)] i(4,5) assms(2) by (intro inv_birth [OF i(1,2)]) simp_all
  with i show ?thesis by simp
qed

lemma benign_simps [simp]:
  "benign (\<lambda>p. p\<lparr>p_pgdir := a\<rparr>)" "benign (\<lambda>p. p\<lparr>p_cwd := d\<rparr>)" "benign (\<lambda>p. p\<lparr>p_tf := a\<rparr>)"
  "benign (\<lambda>p. p\<lparr>p_stack := a\<rparr>)" "benign (\<lambda>p. p\<lparr>p_isthread := b\<rparr>)" "benign (\<lambda>p. p\<lparr>p_sz := a\<rparr>)"
  "benign (\<lambda>p. p\<lparr>p_killed := b\<rparr>)" "benign (\<lambda>p. p\<lparr>p_ofile := (p_ofile p)[k := g]\<rparr>)"
  "benign (\<lambda>p. p\<lparr>p_sem_held := (p_sem_held p)[k := v]\<rparr>)"
  "benign (\<lambda>p. p\<lparr>p_name := safestrcpy (p_name p) t 16\<rparr>)"
  "benign (\<lambda>p. p\<lparr>p_name := safestrcpy (p_name p) t 16, p_pgdir := a, p_sz := a'\<rparr>)"
  by (simp_all add: benign_def length_safestrcpy)

lemma dup_files_embryo:
  "dup_files n k c np s = Ok s' \<Longrightarrow> embryo np q x s \<Longrightarrow> embryo np q x s'"
proof (induction n arbitrary: k s)
  case (Suc n)
  show ?case
  proof (cases "p_ofile (procs s ! c) ! k")
    case None
    with Suc show ?thesis by simp
  next
    case (Some f)
    then obtain t where t: "filedup f s = Ok t"
      "dup_files n (Suc k) c np (upd_proc np (\<lambda>p. p\<lparr>p_ofile := (p_ofile p)[k := Some f]\<rparr>) t) = Ok s'"
      using Suc.prems(1) by (auto elim!: bindR_OkE)
    have "embryo np q x t" using embryo_pv [OF filedup_pv [OF t(1)] Suc.prems(2)] .
    then show ?thesis by (intro Suc.IH [OF t(2)] embryo_benign) simp_all
  qed
qed simp

lemma inherit_inv:
  assumes "inherit c np s = Ok (r, s')" and e: "embryo np (Some q) (cp, ini) s"
  shows "ptable_inv None s' \<and> cpu_proc s' = cp"
proof -
  let ?n = "\<lambda>nm p. p\<lparr>p_name := safestrcpy (p_name p) nm 16\<rparr>" and ?r = "\<lambda>p. p\<lparr>p_state := RUNNABLE\<rparr>"
  obtain t i nm where t: "dup_files NOFILE 0 c np s = Ok t"
    and s': "s' = upd_proc np ?r (upd_proc np (?n nm) (upd_proc np (\<lambda>p. p\<lparr>p_cwd := Some i\<rparr>) (idup i t)))"
    using assms(1) by (auto simp: inherit_def Let_def elim!: bindR_OkE split: option.split_asm)
  have "embryo np (Some q) (cp, ini) t" by (rule dup_files_embryo [OF t e])
  then have "embryo np (Some q) (cp, ini) (idup i t)" by (rule embryo_pv [rotated]) simp
  then have "embryo np (Some q) (cp, ini) (upd_proc np (?n nm) (upd_proc np (\<lambda>p. p\<lparr>p_cwd := Some i\<rparr>) (idup i t)))"
    by (intro embryo_benign) simp_all
  then show ?thesis unfolding s' by (rule embryo_birth) simp_all
qed

lemma pv_tf [simp]: "pv (tf_set tf off v s) = pv s" "pv (tf_set16 tf off h s) = pv s" "pv (tf_copy a b s) = pv s"
  by (simp_all add: tf_set_def tf_set16_def tf_copy_def)

lemma fork_inv:
  fixes s :: "'z kst_scheme"
  assumes f: "fork s = Ok (r, s')" and inv: "ptable_inv None s"
  shows "ptable_inv None s' \<and> cpu_proc s' = cpu_proc s"
proof -
  obtain c where c: "cpu_proc s = Some c" using f by (auto simp: fork_def myproc_def split: option.splits)
  obtain a s1 where a: "allocproc s = (a, s1)" by fastforce
  note A = allocproc_inv [OF a inv]
  show ?thesis
  proof (cases a)
    case None
    then show ?thesis using f a c A by (simp add: fork_def myproc_def)
  next
    case (Some np)
    have ini: "initproc s \<noteq> Some np" using A Some inv by (auto simp: ptable_inv_def table_ok_def)
    have e1: "embryo np None (Some c, initproc s) s1" using A Some c by (simp add: embryo_def)
    obtain pgdir s2 where p: "copyuvm (p_pgdir (procs s1 ! c)) (p_sz (procs s1 ! c)) s1 = Ok (pgdir, s2)"
      using f a c Some by (auto simp: fork_def myproc_def elim!: bindR_OkE)
    let ?s3 = "upd_proc np (\<lambda>p. p\<lparr>p_pgdir := pgdir\<rparr>) s2"
    have "embryo np None (Some c, initproc s) s2"
      by (rule embryo_pv [OF km_more_pv [OF copyuvm_more [OF p]] e1])
    then have e3: "embryo np None (Some c, initproc s) ?s3" by (rule embryo_benign) simp
    show ?thesis
    proof (cases "pgdir = 0")
      case True
      then obtain t where t: "kfree (p_kstack (procs ?s3 ! np)) ?s3 = Ok t"
        "s' = upd_proc np (\<lambda>p. p\<lparr>p_kstack := 0, p_state := UNUSED\<rparr>) t"
        using f a c Some p by (auto simp: fork_def myproc_def Let_def elim!: bindR_OkE)
      have "embryo np None (Some c, initproc s) t" by (rule embryo_pv [OF km_more_pv [OF kfree_more [OF t(1)]] e3])
      then show ?thesis unfolding t(2) c by (rule embryo_cancel [OF _ ini]) simp
    next
      case False
      let ?s4 = "upd_proc np (\<lambda>p. p\<lparr>p_sz := p_sz (procs ?s3 ! c), p_parent := Some c\<rparr>) ?s3"
      have e4: "embryo np (Some c) (Some c, initproc s) ?s4" by (rule embryo_adopt [OF e3]) simp
      have key: "ptable_inv None s' \<and> cpu_proc s' = Some c"
        if "inherit c np (tf_set x k v (tf_copy y z ?s4)) = Ok (r, s')" for x k v y z
        by (rule inherit_inv [OF that embryo_pv [OF _ e4]]) simp
      from f show ?thesis
        unfolding fork_def myproc_def c a Some Let_def option.case prod.case p bindR.simps if_not_P [OF False]
        by (rule key)
    qed
  qed
qed

lemma clone_inv:
  fixes s :: "'z kst_scheme"
  assumes f: "clone func arg stack s = Ok (r, s')" and inv: "ptable_inv None s"
  shows "ptable_inv None s' \<and> cpu_proc s' = cpu_proc s"
proof -
  obtain c where c: "cpu_proc s = Some c" using f by (auto simp: clone_def myproc_def split: option.splits)
  obtain a s1 where a: "allocproc s = (a, s1)" by fastforce
  note A = allocproc_inv [OF a inv]
  show ?thesis
  proof (cases a)
    case None
    then show ?thesis using f a c A by (simp add: clone_def myproc_def)
  next
    case (Some np)
    have e1: "embryo np None (Some c, initproc s) s1" using A Some c by (simp add: embryo_def)
    let ?s2 = "upd_proc np (\<lambda>p. p\<lparr>p_pgdir := p_pgdir (procs s1 ! c), p_sz := p_sz (procs s1 ! c),
                   p_parent := Some c\<rparr>) s1"
    have e2: "embryo np (Some c) (Some c, initproc s) ?s2" by (rule embryo_adopt [OF e1]) simp
    have key: "ptable_inv None s' \<and> cpu_proc s' = Some c"
      if u: "uwrite pg1 a1 l1 (tf_set x1 k1 v1 (tf_set x2 k2 v2
               (upd_proc np (\<lambda>p. p\<lparr>p_stack := stack\<rparr>) (tf_copy y z ?s2)))) = Ok s3"
             "uwrite pg2 a2 l2 s3 = Ok s4"
             "inherit c np (upd_proc np (\<lambda>p. p\<lparr>p_isthread := 1\<rparr>) (tf_set x3 k3 v3 (tf_set x4 k4 v4 s4)))
               = Ok (r, s')"
      for pg1 a1 l1 x1 k1 v1 x2 k2 v2 y z s3 pg2 a2 l2 s4 x3 k3 v3 x4 k4 v4
    proof -
      have "embryo np (Some c) (Some c, initproc s)
              (upd_proc np (\<lambda>p. p\<lparr>p_stack := stack\<rparr>) (tf_copy y z ?s2))"
        by (rule embryo_benign [OF embryo_pv [OF _ e2]]) simp_all
      then have "embryo np (Some c) (Some c, initproc s) s3"
        by (rule embryo_pv [rotated]) (use km_more_pv [OF uwrite_more [OF u(1)]] in simp)
      then have "embryo np (Some c) (Some c, initproc s)
              (upd_proc np (\<lambda>p. p\<lparr>p_isthread := 1\<rparr>) (tf_set x3 k3 v3 (tf_set x4 k4 v4 s4)))"
        by (intro embryo_benign) (erule embryo_pv [rotated], use km_more_pv [OF uwrite_more [OF u(2)]] in simp_all)
      then show ?thesis by (rule inherit_inv [OF u(3)])
    qed
    from f show ?thesis
      unfolding clone_def myproc_def c a Some Let_def option.case prod.case
      by (elim bindR_OkE) (rule key)
  qed
qed

subsection \<open>exit\<close>

lemma sem_signal_init: "initproc (snd (sem_signal i n s)) = initproc s"
  by (simp add: sem_signal_def upd_sema_def)

lemma release_sems_inv:
  "release_sems n i c s = Ok s' \<Longrightarrow> ptable_inv e s \<Longrightarrow>
   ptable_inv e s' \<and> cpu_proc s' = cpu_proc s \<and> initproc s' = initproc s"
proof (induction n arbitrary: i s)
  case (Suc n)
  show ?case
  proof (cases "0 < p_sem_held (procs s ! c) ! i")
    case False
    with Suc show ?thesis by simp
  next
    case True
    then obtain t where t: "pv t = pv s"
      "release_sems n (Suc i) c (upd_proc c (\<lambda>p. p\<lparr>p_sem_held := (p_sem_held p)[i := 0]\<rparr>)
         (snd (sem_signal (int i) (p_sem_held (procs s ! c) ! i) t))) = Ok s'"
      using Suc.prems(1) by (auto simp: Let_def elim!: bindR_OkE dest!: pvframe)
    let ?u = "snd (sem_signal (int i) (p_sem_held (procs s ! c) ! i) t)"
    have it: "ptable_inv e t" using Suc.prems(2) inv_pv [OF t(1)] by blast
    have u: "ptable_inv e ?u \<and> cpu_proc ?u = cpu_proc t \<and> initproc ?u = initproc t"
      using sem_signal_inv [OF surjective_pairing it] sem_signal_init by blast
    then have "ptable_inv e (upd_proc c (\<lambda>p. p\<lparr>p_sem_held := (p_sem_held p)[i := 0]\<rparr>) ?u)"
      by (intro inv_benign) simp_all
    from Suc.IH [OF t(2) this] u pv_cpu [OF t(1)] show ?thesis by simp
  qed
qed simp

lemma close_files_inv:
  "close_files n fd c s = Ok s' \<Longrightarrow> ptable_inv e s \<Longrightarrow>
   ptable_inv e s' \<and> cpu_proc s' = cpu_proc s \<and> initproc s' = initproc s"
proof (induction n arbitrary: fd s)
  case (Suc n)
  show ?case
  proof (cases "p_ofile (procs s ! c) ! fd")
    case None
    with Suc show ?thesis by simp
  next
    case (Some f)
    then obtain t where t: "pv t = pv s"
      "close_files n (Suc fd) c (upd_proc c (\<lambda>p. p\<lparr>p_ofile := (p_ofile p)[fd := None]\<rparr>) t) = Ok s'"
      using Suc.prems(1) by (auto elim!: bindR_OkE dest!: pvframe)
    have it: "ptable_inv e t" using Suc.prems(2) inv_pv [OF t(1)] by blast
    then have "ptable_inv e (upd_proc c (\<lambda>p. p\<lparr>p_ofile := (p_ofile p)[fd := None]\<rparr>) t)"
      by (intro inv_benign) simp_all
    from Suc.IH [OF t(2) this] pv_cpu [OF t(1)] show ?thesis by simp
  qed
qed simp

text \<open>A child of \<open>c\<close> is handed to the first process.\<close>

lemma inv_reparent:
  assumes inv: "ptable_inv None s" and c: "cpu_proc s = Some c" and i: "i < NPROC"
    and p: "p_parent (procs s ! i) = Some q"
  shows "ptable_inv None (upd_proc i (\<lambda>p. p\<lparr>p_parent := initproc s\<rparr>) s)"
proof -
  let ?f = "\<lambda>p. p\<lparr>p_parent := initproc s\<rparr>"
  have n: "i < length (procs s)" using i inv_length [OF inv] by simp
  have ne: "initproc s \<noteq> None" using inv inv_cpu [OF inv c] by (auto simp: ptable_inv_def table_ok_def)
  then obtain k where k: "initproc s = Some k" "k < NPROC" "p_state (procs s ! k) \<notin> {UNUSED, ZOMBIE}"
    using inv by (auto simp: ptable_inv_def table_ok_def)
  have ke: "p_state (procs s ! k) \<noteq> EMBRYO" using inv_slot [OF inv k(2)] by (auto simp: slot_ok_def Let_def)
  show ?thesis
  proof (rule inv_updI [where f = ?f and n = i, OF inv i])
    show "slot_ok None i (procs (upd_proc i ?f s)) (cpu_proc (upd_proc i ?f s)) (initproc s) (nextpid s)"
      using inv_slot [OF inv i] p k ke n by (auto simp: slot_ok_def Let_def nth_list_update_if)
    show "\<forall>j < NPROC. j \<noteq> i \<longrightarrow> p_parent (procs s ! j) \<noteq> Some i"
      if "p_state (?f (procs s ! i)) \<in> {UNUSED, EMBRYO, ZOMBIE}"
      using inv_slot [OF inv] that by (fastforce simp: slot_ok_def Let_def)
    show "initproc s = Some i \<Longrightarrow> p_state (?f (procs s ! i)) \<notin> {UNUSED, ZOMBIE}"
      using k by simp
  qed (use ne in auto)
qed

lemma reparent_inv:
  fixes s :: "'z pst_scheme"
  shows "ptable_inv None s \<Longrightarrow> cpu_proc s = Some c \<Longrightarrow> initproc s \<noteq> Some c \<Longrightarrow> n + i = NPROC \<Longrightarrow>
   (\<And>j. j < i \<Longrightarrow> p_parent (procs s ! j) \<noteq> Some c) \<Longrightarrow>
   ptable_inv None (reparent n i c s) \<and> cpu_proc (reparent n i c s) = Some c \<and>
   initproc (reparent n i c s) = initproc s \<and>
   (\<forall>j < NPROC. p_parent (procs (reparent n i c s) ! j) \<noteq> Some c)"
proof (induction n arbitrary: i s)
  case (Suc n)
  have i: "i < NPROC" using Suc.prems(4) by simp
  have l: "length (procs s) = NPROC" by (rule inv_length [OF Suc.prems(1)])
  show ?case
  proof (cases "p_parent (procs s ! i) = Some c")
    case False
    then have "\<And>j. j < Suc i \<Longrightarrow> p_parent (procs s ! j) \<noteq> Some c" using Suc.prems(5) by (metis less_antisym)
    with Suc.IH [of s "Suc i"] Suc.prems False show ?thesis by simp
  next
    case True
    let ?s1 = "upd_proc i (\<lambda>p. p\<lparr>p_parent := initproc s\<rparr>) s"
    define t where "t = (if p_state (procs ?s1 ! i) = ZOMBIE
      then wakeup1 (map_option ChProc (initproc ?s1)) ?s1 else ?s1)"
    have t: "pv t = pv ?s1" "reparent (Suc n) i c s = reparent n (Suc i) c t"
      using True by (simp_all add: t_def Let_def)
    have i1: "ptable_inv None ?s1" by (rule inv_reparent [OF Suc.prems(1,2) i True])
    have it: "ptable_inv None t" using i1 inv_pv [OF t(1)] by blast
    have ct: "cpu_proc t = Some c" "initproc t = initproc s" using pv_cpu [OF t(1)] Suc.prems(2) by simp_all
    have "p_parent (procs t ! j) \<noteq> Some c" if "j < Suc i" for j
    proof -
      have "p_parent (procs t ! j) = p_parent (procs ?s1 ! j)"
        using that i l by (intro pv_parent [OF t(1)]) simp
      then show ?thesis using that Suc.prems(3,5) i l by (auto simp: nth_list_update_if less_Suc_eq)
    qed
    with Suc.IH [of t "Suc i"] it ct Suc.prems(3,4) t(2) show ?thesis by simp
  qed
qed auto

lemma exit_zombie_inv:
  assumes z: "exit_zombie c s = Ok s'" and inv: "ptable_inv None s" and c: "cpu_proc s = Some c"
    and ini: "initproc s \<noteq> Some c"
  shows "ptable_inv None s' \<and> cpu_proc s' = None"
proof -
  let ?s1 = "wakeup1 (map_option ChProc (p_parent (procs s ! c))) s"
  let ?s2 = "reparent NPROC 0 c ?s1" and ?z = "\<lambda>p. p\<lparr>p_state := ZOMBIE\<rparr>"
  have c1: "cpu_proc ?s1 = Some c" "initproc ?s1 = initproc s" using c by (simp_all add: wakeup1_def)
  have "ptable_inv None ?s1" using inv inv_pv [OF pv_wakeup1] by blast
  note R = reparent_inv [where n = NPROC and i = 0, OF this c1(1)]
  have i2: "ptable_inv None ?s2" and c2: "cpu_proc ?s2 = Some c" "initproc ?s2 = initproc s"
    and kids: "\<forall>j < NPROC. p_parent (procs ?s2 ! j) \<noteq> Some c"
    using R ini c1(2) by simp_all
  have s': "s' = sched_return (upd_proc c ?z ?s2)"
    using z c2 by (auto simp: exit_zombie_def sched_def myproc_def Let_def split: if_split_asm)
  have cn: "c < NPROC" by (rule inv_cpu(1) [OF i2 c2(1)])
  have n: "c < length (procs ?s2)" using cn inv_length [OF i2] by simp
  have "ptable_inv None s'"
  proof (rule inv_updI [where f = ?z and n = c, OF i2 cn])
    show "slot_ok None c (procs (upd_proc c ?z ?s2)) (cpu_proc s') (initproc ?s2) (nextpid ?s2)"
      using inv_slot [OF i2 cn] kids n c2 cn
      by (auto simp: s' slot_ok_def Let_def sched_return_def switchkvm_def nth_list_update_if split: option.splits)
    show "initproc ?s2 = Some c \<Longrightarrow> p_state (?z (procs ?s2 ! c)) \<notin> {UNUSED, ZOMBIE}" using c2 ini by simp
    show "initproc ?s2 = None \<Longrightarrow> p_state (?z (procs ?s2 ! c)) \<in> {UNUSED, EMBRYO}"
      using i2 inv_cpu [OF i2 c2(1)] by (auto simp: ptable_inv_def table_ok_def)
  qed (use kids c2 in \<open>auto simp: s' sched_return_def switchkvm_def\<close>)
  then show ?thesis by (simp add: s' sched_return_def)
qed

lemma exit_inv:
  fixes s :: "'z kst_scheme"
  assumes x: "exit s = Ok s'" and inv: "ptable_inv None s"
  shows "ptable_inv None s' \<and> cpu_proc s' = None"
proof -
  obtain c where c: "cpu_proc s = Some c" and ini: "initproc s \<noteq> Some c"
    using x by (auto simp: exit_def myproc_def split: option.splits if_splits)
  obtain t u v :: "'z kst_scheme" where t: "release_sems 32 0 c s = Ok t" "close_files NOFILE 0 c t = Ok u"
    "pv v = pv u" "exit_zombie c (upd_proc c (\<lambda>p. p\<lparr>p_cwd := None\<rparr>) v) = Ok s'"
    using x c ini by (auto simp: exit_def myproc_def elim!: bindR_OkE dest!: pvframe split: option.split_asm)
  have T: "ptable_inv None t \<and> cpu_proc t = cpu_proc s \<and> initproc t = initproc s"
    by (rule release_sems_inv [OF t(1) inv])
  have U: "ptable_inv None u \<and> cpu_proc u = cpu_proc t \<and> initproc u = initproc t"
    using close_files_inv [OF t(2)] T by blast
  have "ptable_inv None v" using U inv_pv [OF t(3)] by blast
  then have "ptable_inv None (upd_proc c (\<lambda>p. p\<lparr>p_cwd := None\<rparr>) v)" by (intro inv_benign) simp_all
  then show ?thesis
    using T U c ini pv_cpu [OF t(3)] by (intro exit_zombie_inv [OF t(4)]) simp_all
qed

end
