(* ===== verification/SyscallInv.thy ===== *)
theory SyscallInv
  imports KernelInv
begin

section \<open>The invariant of the process table under system calls and traps\<close>

text \<open>
  Every system call keeps the invariant and, unless it gives up the CPU, the running process; so do traps.
\<close>

subsection \<open>System calls\<close>

text \<open>The operation keeps the invariant and the running process.\<close>

definition stays :: "'z pst_scheme \<Rightarrow> 'z pst_scheme \<Rightarrow> bool" where
  "stays s s' \<longleftrightarrow> (ptable_inv None s \<longrightarrow> ptable_inv None s' \<and> cpu_proc s' = cpu_proc s)"

named_theorems stay

lemma stays_pv: "pv s' = pv s \<Longrightarrow> stays s s'"
  using inv_pv [of s' s] pv_cpu [of s' s] by (simp add: stays_def)

lemma stays_trans [trans]: "stays s t \<Longrightarrow> stays t u \<Longrightarrow> stays s u"
  by (simp add: stays_def)

lemma stays_benign: "benign f \<Longrightarrow> stays s (upd_proc i f s)"
  by (simp add: stays_def inv_benign)

lemma stays_upd:
  fixes s t :: "'z pst_scheme"
  shows "pv t = pv (upd_proc i f s) \<Longrightarrow> benign f \<Longrightarrow> stays s t"
  by (rule stays_trans [OF stays_benign stays_pv])

lemma stays_upd_pv:
  fixes s t u :: "'z pst_scheme"
  shows "pv t = pv (upd_proc i f u) \<Longrightarrow> pv u = pv s \<Longrightarrow> benign f \<Longrightarrow> stays s t"
  by (rule stays_trans [OF stays_pv stays_upd])

lemma stays_pv_trans: "stays t u \<Longrightarrow> pv t = pv s \<Longrightarrow> stays s u"
  by (rule stays_trans [OF stays_pv])

lemma keeps_stays: "stays s t \<Longrightarrow> ptable_inv None s \<Longrightarrow> keeps s (Done k, t)"
  by (simp add: stays_def keeps_Done)

lemma keeps_dozes: "dozes s t \<Longrightarrow> ptable_inv None s \<Longrightarrow> keeps s (Asleep, t)"
  using dozes_inv by (simp add: keeps_Asleep)

lemma keeps_pv: "pv t = pv s \<Longrightarrow> ptable_inv None s \<Longrightarrow> keeps s (Done k, t)"
  by (intro keeps_stays stays_pv)

lemma keeps_refl: "ptable_inv None s \<Longrightarrow> keeps s (Done k, s)"
  by (simp add: keeps_Done)

lemma keeps_cpu: "keeps t x \<Longrightarrow> cpu_proc t = cpu_proc s \<Longrightarrow> keeps s x"
  by (simp add: keeps_def split: prod.splits outcome.splits)

lemma with_arg_keeps:
  assumes "with_arg get f s = Ok x" and "ptable_inv None s" and "\<And>a. f a s = Ok x \<Longrightarrow> keeps s x"
  shows "keeps s x"
  using assms by (auto simp: with_arg_def keeps_refl elim!: bindR_OkE split: option.split_asm)

lemma fdalloc_stays [stay]: "fdalloc f s = Ok (r, s') \<Longrightarrow> stays s s'"
  by (auto simp: fdalloc_def myproc_def stays_pv intro!: stays_benign split: option.split_asm)

lemma create_pv [pvframe]: "create path ty ma mi s = Ok (r, s') \<Longrightarrow> pv s' = pv s"
  by (auto simp: create_def elim!: bindR_OkE dest!: pvframe split: if_split_asm option.split_asm prod.split_asm)

lemma open_inode_pv [pvframe]: "open_inode path omode s = Ok (r, s') \<Longrightarrow> pv s' = pv s"
  by (auto simp: open_inode_def elim!: bindR_OkE dest!: pvframe split: if_split_asm option.split_asm)

lemma isdirempty_pv [pvframe]: "isdirempty dp s = Ok (r, s') \<Longrightarrow> pv s' = pv s"
proof -
  have "isdirempty_loop dp off s = Ok (r, s') \<Longrightarrow> pv s' = pv s" for off
  proof (induction "4294967296 - unat off" arbitrary: off s rule: less_induct)
    case less
    note IH = less.hyps [rotated, OF _ count_up]
    from less.prems show ?case
      by (subst (asm) isdirempty_loop.simps)
        (auto elim!: bindR_OkE dest!: pvframe IH split: if_split_asm)
  qed
  then show "isdirempty dp s = Ok (r, s') \<Longrightarrow> pv s' = pv s" by (simp add: isdirempty_def)
qed

lemma link_bad_pv [pvframe]: "link_bad ip s = Ok (r, s') \<Longrightarrow> r = Done (- 1) \<and> pv s' = pv s"
  by (auto simp: link_bad_def elim!: bindR_OkE dest!: pvframe)

lemma unlink_bad_pv [pvframe]: "unlink_bad ip s = Ok (r, s') \<Longrightarrow> r = Done (- 1) \<and> pv s' = pv s"
  by (auto simp: unlink_bad_def elim!: bindR_OkE dest!: pvframe)

lemma unlink_entry_pv [pvframe]: "unlink_entry dp ip off s = Ok (r, s') \<Longrightarrow> r = Done 0 \<and> pv s' = pv s"
  by (auto simp: unlink_entry_def elim!: bindR_OkE dest!: pvframe split: if_split_asm)

lemma put_end_pv [pvframe]: "put_end k ip s = Ok (r, s') \<Longrightarrow> r = Done k \<and> pv s' = pv s"
  by (auto simp: put_end_def elim!: bindR_OkE dest!: pvframe)

lemma sys_fork_keeps [stay]: "sys_fork s = Ok x \<Longrightarrow> ptable_inv None s \<Longrightarrow> keeps s x"
  by (auto simp: sys_fork_def finish_def keeps_Done elim!: bindR_OkE dest!: fork_inv)

lemma sys_exit_keeps [stay]: "sys_exit s = Ok x \<Longrightarrow> ptable_inv None s \<Longrightarrow> keeps s x"
  by (auto simp: sys_exit_def keeps_Asleep elim!: bindR_OkE dest!: exit_inv)

lemma sys_wait_keeps [stay]: "sys_wait s = Ok x \<Longrightarrow> ptable_inv None s \<Longrightarrow> keeps s x"
  unfolding sys_wait_def by (rule wait_inv)

lemma finish_keeps: "finish p = Ok x \<Longrightarrow> ptable_inv None (snd p) \<and> cpu_proc (snd p) = cpu_proc s \<Longrightarrow> keeps s x"
  by (cases p) (auto simp: finish_def keeps_Done)

lemma sys_kill_keeps [stay]: "sys_kill s = Ok x \<Longrightarrow> ptable_inv None s \<Longrightarrow> keeps s x"
  unfolding sys_kill_def
  by (erule (1) with_arg_keeps, erule finish_keeps) (erule kill_inv [OF surjective_pairing])

lemma sys_getpid_keeps [stay]: "sys_getpid s = Ok x \<Longrightarrow> ptable_inv None s \<Longrightarrow> keeps s x"
  by (auto simp: sys_getpid_def myproc_def keeps_refl split: option.split_asm)

lemma sys_sbrk_keeps [stay]: "sys_sbrk s = Ok x \<Longrightarrow> ptable_inv None s \<Longrightarrow> keeps s x"
  unfolding sys_sbrk_def
  by (erule (1) with_arg_keeps)
    (auto simp: myproc_def keeps_Done elim!: bindR_OkE dest!: growproc_inv split: option.split_asm if_split_asm)

lemma sys_sleep_loop_keeps: "sys_sleep_loop n t s = Ok x \<Longrightarrow> ptable_inv None s \<Longrightarrow> keeps s x"
  by (auto simp: sys_sleep_loop_def myproc_def keeps_refl keeps_Asleep elim!: bindR_OkE dest!: sleep_inv
      split: option.split_asm if_split_asm)

lemma sys_sleep_keeps [stay]: "sys_sleep s = Ok x \<Longrightarrow> ptable_inv None s \<Longrightarrow> keeps s x"
  unfolding sys_sleep_def by (erule (1) with_arg_keeps) (rule sys_sleep_loop_keeps)

lemma sys_sleep_resume_keeps:
  "sys_sleep_resume n t s = Ok x \<Longrightarrow> ptable_inv None s \<Longrightarrow> keeps s x"
  by (auto simp: sys_sleep_resume_def keeps_def elim!: bindR_OkE dest!: awake_inv sys_sleep_loop_keeps
      split: prod.split_asm outcome.split_asm)

lemma sys_uptime_keeps [stay]: "sys_uptime s = Ok x \<Longrightarrow> ptable_inv None s \<Longrightarrow> keeps s x"
  by (auto simp: sys_uptime_def keeps_refl)

lemma getptable_more: "getptable_loop ps qs pgdir uptr s = Ok (r, s') \<Longrightarrow> pv s' = pv s"
proof (induction qs arbitrary: uptr s)
  case (Cons q qs)
  from Cons.prems show ?case by (auto elim!: bindR_OkE dest!: pvframe Cons.IH split: if_split_asm)
qed simp

lemma sys_getptable_keeps [stay]: "sys_getptable s = Ok x \<Longrightarrow> ptable_inv None s \<Longrightarrow> keeps s x"
  unfolding sys_getptable_def
  by (erule (1) with_arg_keeps)+
    (auto simp: getptable_def myproc_def finish_def keeps_refl keeps_pv elim!: bindR_OkE dest!: getptable_more
      split: if_split_asm option.split_asm)

lemma sys_getppid_keeps [stay]: "sys_getppid s = Ok x \<Longrightarrow> ptable_inv None s \<Longrightarrow> keeps s x"
  by (auto simp: sys_getppid_def myproc_def keeps_refl split: option.split_asm)

lemma sys_setpriority_keeps [stay]: "sys_setpriority s = Ok x \<Longrightarrow> ptable_inv None s \<Longrightarrow> keeps s x"
  unfolding sys_setpriority_def
  by ((erule (1) with_arg_keeps)+, erule finish_keeps) (erule setpriority_inv [OF surjective_pairing])

lemma sys_sem_init_keeps [stay]: "sys_sem_init s = Ok x \<Longrightarrow> ptable_inv None s \<Longrightarrow> keeps s x"
  unfolding sys_sem_init_def
  by ((erule (1) with_arg_keeps)+, erule finish_keeps) (erule sem_init_inv [OF surjective_pairing])

lemma sys_sem_destroy_keeps [stay]: "sys_sem_destroy s = Ok x \<Longrightarrow> ptable_inv None s \<Longrightarrow> keeps s x"
  unfolding sys_sem_destroy_def
  by ((erule (1) with_arg_keeps)+, erule finish_keeps) (erule sem_destroy_inv [OF surjective_pairing])

lemma sys_sem_wait_keeps [stay]: "sys_sem_wait s = Ok x \<Longrightarrow> ptable_inv None s \<Longrightarrow> keeps s x"
  unfolding sys_sem_wait_def by (erule (1) with_arg_keeps)+ (rule sem_wait_inv)

lemma sys_sem_signal_keeps [stay]: "sys_sem_signal s = Ok x \<Longrightarrow> ptable_inv None s \<Longrightarrow> keeps s x"
  unfolding sys_sem_signal_def
  by ((erule (1) with_arg_keeps)+, erule finish_keeps) (erule sem_signal_inv [OF surjective_pairing])

lemma sys_clone_keeps [stay]: "sys_clone s = Ok x \<Longrightarrow> ptable_inv None s \<Longrightarrow> keeps s x"
  unfolding sys_clone_def
  by (erule (1) with_arg_keeps)+ (auto simp: finish_def keeps_Done elim!: bindR_OkE dest!: clone_inv)

lemma sys_join_keeps [stay]: "sys_join s = Ok x \<Longrightarrow> ptable_inv None s \<Longrightarrow> keeps s x"
  unfolding sys_join_def by (erule (1) with_arg_keeps) (rule join_inv)

lemma sys_getscheduler_keeps [stay]: "sys_getscheduler s = Ok x \<Longrightarrow> ptable_inv None s \<Longrightarrow> keeps s x"
  by (auto simp: sys_getscheduler_def keeps_refl)

lemma setscheduler_inv:
  "setscheduler sid s = Ok (r, s') \<Longrightarrow> ptable_inv None s \<Longrightarrow> ptable_inv None s' \<and> cpu_proc s' = cpu_proc s"
  by (auto simp: setscheduler_def ptable_inv_def Let_def split: if_split_asm)

lemma sys_setscheduler_keeps [stay]: "sys_setscheduler s = Ok x \<Longrightarrow> ptable_inv None s \<Longrightarrow> keeps s x"
  unfolding sys_setscheduler_def
  by (erule (1) with_arg_keeps) (auto simp: finish_def keeps_Done elim!: bindR_OkE dest!: setscheduler_inv)

lemma sys_yield_keeps [stay]: "sys_yield s = Ok x \<Longrightarrow> ptable_inv None s \<Longrightarrow> keeps s x"
  by (auto simp: sys_yield_def keeps_Asleep elim!: bindR_OkE dest!: yield_inv)

lemma sys_wait2_keeps [stay]: "sys_wait2 s = Ok x \<Longrightarrow> ptable_inv None s \<Longrightarrow> keeps s x"
  unfolding sys_wait2_def by (erule (1) with_arg_keeps)+ (rule wait2_inv)

text \<open>The calls on files.\<close>

lemma sys_dup_keeps [stay]: "sys_dup s = Ok x \<Longrightarrow> ptable_inv None s \<Longrightarrow> keeps s x"
  unfolding sys_dup_def
  by (erule (1) with_arg_keeps)
    (auto intro!: keeps_stays elim!: bindR_OkE dest!: stay filedup_pv [THEN stays_pv]
      intro: stays_trans split: if_split_asm prod.split_asm)

lemma sys_read_keeps [stay]: "sys_read s = Ok x \<Longrightarrow> ptable_inv None s \<Longrightarrow> keeps s x"
  unfolding sys_read_def
  by (erule (1) with_arg_keeps, clarsimp)
    ((erule (1) with_arg_keeps)+, auto simp: myproc_def intro!: keeps_pv keeps_dozes elim!: bindR_OkE
      dest!: fileread_pv pvframe split: option.split_asm outcome.split_asm)

lemma sys_write_keeps [stay]: "sys_write s = Ok x \<Longrightarrow> ptable_inv None s \<Longrightarrow> keeps s x"
  unfolding sys_write_def
  by (erule (1) with_arg_keeps, clarsimp)
    ((erule (1) with_arg_keeps)+, auto simp: myproc_def intro!: keeps_pv keeps_dozes elim!: bindR_OkE
      dest!: filewrite_pv split: option.split_asm outcome.split_asm)

lemma sys_close_keeps [stay]: "sys_close s = Ok x \<Longrightarrow> ptable_inv None s \<Longrightarrow> keeps s x"
  unfolding sys_close_def
  by (erule (1) with_arg_keeps)
    (auto simp: myproc_def intro!: keeps_stays elim!: bindR_OkE stays_upd dest!: fileclose_pv
      split: option.split_asm)

lemma sys_fstat_keeps [stay]: "sys_fstat s = Ok x \<Longrightarrow> ptable_inv None s \<Longrightarrow> keeps s x"
  unfolding sys_fstat_def
  by (erule (1) with_arg_keeps, clarsimp)
    (erule (1) with_arg_keeps, auto simp: myproc_def intro!: keeps_pv elim!: bindR_OkE
      dest!: pvframe split: option.split_asm)

lemma sys_link_keeps [stay]: "sys_link s = Ok x \<Longrightarrow> ptable_inv None s \<Longrightarrow> keeps s x"
  unfolding sys_link_def
  by (erule (1) with_arg_keeps)+
    (cases x, auto intro!: keeps_pv elim!: bindR_OkE dest!: pvframe split: if_split_asm option.split_asm)

lemma sys_unlink_keeps [stay]: "sys_unlink s = Ok x \<Longrightarrow> ptable_inv None s \<Longrightarrow> keeps s x"
  unfolding sys_unlink_def
  by (erule (1) with_arg_keeps)
    (cases x, auto intro!: keeps_pv elim!: bindR_OkE dest!: pvframe split: if_split_asm option.split_asm)

lemma in_op_keeps:
  assumes "in_op get f s = Ok x" and "ptable_inv None s"
    and "\<And>r s t. get s = Ok (r, t) \<Longrightarrow> pv t = pv s"
    and "\<And>ip s x. f ip s = Ok x \<Longrightarrow> ptable_inv None s \<Longrightarrow> keeps s x"
  shows "keeps s x"
proof -
  obtain t r u where t: "begin_op s = Ok t" "get t = Ok (r, u)"
    "(case r of None \<Rightarrow> bindR (end_op u) (\<lambda>s. Ok (Done (- 1), s)) | Some ip \<Rightarrow> f ip u) = Ok x"
    using assms(1) by (auto simp: in_op_def elim!: bindR_OkE)
  have u: "pv u = pv s" using begin_op_pv [OF t(1)] assms(3) [OF t(2)] by simp
  have iu: "ptable_inv None u" using assms(2) inv_pv [OF u] by blast
  have "keeps u x"
    using t(3) iu assms(4) by (auto intro!: keeps_pv elim!: bindR_OkE dest!: pvframe split: option.split_asm)
  then show ?thesis using pv_cpu [OF u] by (simp add: keeps_cpu)
qed

lemma put_end_keeps: "put_end k ip s = Ok x \<Longrightarrow> ptable_inv None s \<Longrightarrow> keeps s x"
  by (cases x) (auto intro!: keeps_pv dest!: put_end_pv)

lemma sys_mkdir_keeps [stay]: "sys_mkdir s = Ok x \<Longrightarrow> ptable_inv None s \<Longrightarrow> keeps s x"
  unfolding sys_mkdir_def
  by (erule (1) in_op_keeps) (auto intro!: keeps_pv elim!: bindR_OkE dest!: pvframe split: option.split_asm)

lemma sys_mknod_keeps [stay]: "sys_mknod s = Ok x \<Longrightarrow> ptable_inv None s \<Longrightarrow> keeps s x"
  unfolding sys_mknod_def
  by (erule (1) in_op_keeps) (auto intro!: keeps_pv elim!: bindR_OkE dest!: pvframe split: option.split_asm)

lemma sys_chdir_keeps [stay]: "sys_chdir s = Ok x \<Longrightarrow> ptable_inv None s \<Longrightarrow> keeps s x"
  unfolding sys_chdir_def
proof (erule (1) in_op_keeps)
  fix ip and s :: "'z kst_scheme" and x :: "int outcome \<times> 'z kst_scheme"
  assume "bindR (ilock ip s) (\<lambda>s.
      if i_type (icache s ! ip) \<noteq> T_DIR then put_end (- 1) ip s
      else
        bindR (iunlock ip s) (myproc (\<lambda>c s.
          case p_cwd (procs s ! c) of
            None \<Rightarrow> Fault
          | Some old \<Rightarrow>
              bindR (iput old s) (\<lambda>s.
              bindR (end_op s) (\<lambda>s.
                Ok (Done 0, upd_proc c (\<lambda>p. p\<lparr>p_cwd := Some ip\<rparr>) s)))))) = Ok x" and "ptable_inv None s"
  then show "keeps s x"
    by (cases x) (auto simp: myproc_def stays_pv intro!: keeps_stays stays_trans [OF stays_pv stays_benign]
        elim!: bindR_OkE dest!: pvframe split: if_split_asm option.split_asm)
qed (auto elim!: bindR_OkE dest!: pvframe split: option.split_asm)

lemma bad_pv [pvframe]: "bad pgdir ip s = Ok (r, s') \<Longrightarrow> pv s' = pv s"
  by (auto simp: bad_def elim!: bindR_OkE dest!: pvframe split: if_split_asm option.split_asm)

lemma exec_stack_stays: "exec_stack path argv pgdir entry sz s = Ok (r, s') \<Longrightarrow> stays s s'"
  by (auto simp: exec_stack_def Let_def myproc_def stays_pv elim!: bindR_OkE stays_upd_pv dest!: pvframe
      split: if_split_asm option.split_asm)

lemma exec_stays: "exec path argv s = Ok (r, s') \<Longrightarrow> stays s s'"
  by (auto simp: exec_def Let_def stays_pv elim!: bindR_OkE stays_pv_trans dest!: pvframe exec_stack_stays
      split: if_split_asm option.split_asm)

lemma sys_exec_keeps [stay]: "sys_exec s = Ok x \<Longrightarrow> ptable_inv None s \<Longrightarrow> keeps s x"
  unfolding sys_exec_def
  by (erule (1) with_arg_keeps)+ (auto simp: finish_def intro!: keeps_stays elim!: bindR_OkE dest!: exec_stays)

lemma sys_pipe_keeps [stay]: "sys_pipe s = Ok x \<Longrightarrow> ptable_inv None s \<Longrightarrow> keeps s x"
  unfolding sys_pipe_def
  by (erule (1) with_arg_keeps)
    (auto simp: Let_def myproc_def intro!: keeps_stays elim!: bindR_OkE dest!: pvframe stay
      split: if_split_asm option.split_asm;
      (drule stays_pv)+; simp add: stays_def inv_benign)

lemma sys_open_keeps [stay]:
  fixes s :: "'z kst_scheme"
  shows "sys_open s = Ok x \<Longrightarrow> ptable_inv None s \<Longrightarrow> keeps s x"
  unfolding sys_open_def
proof ((erule (1) with_arg_keeps)+, erule bindR_OkE, erule bindR_OkE, clarify)
  fix path omode and t u :: "'z kst_scheme" and r
  assume inv: "ptable_inv None s" and "begin_op s = Ok t" "open_inode path omode t = Ok (r, u)"
    and x: "(case r of
         None \<Rightarrow> bindR (end_op u) (\<lambda>s. Ok (Done (- 1), s))
       | Some ip \<Rightarrow>
           let (r, s) = filealloc u in
           case r of
             None \<Rightarrow>
               bindR (iunlockput ip s) (\<lambda>s. bindR (end_op s) (\<lambda>s. Ok (Done (- 1), s)))
           | Some f \<Rightarrow>
               bindR (fdalloc f s) (\<lambda>(fd, s).
                 if fd < 0 then
                   bindR (fileclose f s) (\<lambda>s.
                   bindR (iunlockput ip s) (\<lambda>s. bindR (end_op s) (\<lambda>s. Ok (Done (- 1), s))))
                 else
                   bindR (iunlock ip s) (\<lambda>s.
                   bindR (end_op s) (\<lambda>s.
                     Ok (Done fd, upd_file f (\<lambda>x. x\<lparr>f_type := FD_INODE, f_ip := ip, f_off := 0,
                       f_readable := (omode AND O_WRONLY = 0),
                       f_writable := (omode AND O_WRONLY \<noteq> 0 \<or> omode AND O_RDWR \<noteq> 0)\<rparr>) s))))) = Ok x"
  then have u: "pv u = pv s" by (simp add: begin_op_pv open_inode_pv)
  obtain g v where g: "filealloc u = (g, v)" by fastforce
  then have v: "pv v = pv s" using u by (simp add: filealloc_pv)
  show "keeps s x"
  proof (cases r)
    case None
    then show ?thesis using x u inv by (auto intro!: keeps_pv elim!: bindR_OkE dest!: pvframe)
  next
    case (Some ip)
    show ?thesis
    proof (cases g)
      case None
      then show ?thesis using x g v inv Some by (auto intro!: keeps_pv elim!: bindR_OkE dest!: pvframe)
    next
      case (Some f)
      then obtain fd w where w: "fdalloc f v = Ok (fd, w)" and y: "pv (snd x) = pv w" "\<exists>k. fst x = Done k"
        using x g \<open>r = Some ip\<close> by (auto elim!: bindR_OkE dest!: pvframe split: if_split_asm)
      have "stays s (snd x)" using stays_pv [OF v] fdalloc_stays [OF w] stays_pv [OF y(1)] by (metis stays_trans)
      then show ?thesis using y(2) inv by (cases x) (auto intro: keeps_stays)
    qed
  qed
qed

subsection \<open>Traps\<close>

lemma syscalls_keeps:
  assumes "g \<in> set syscalls" and "g = Some f" and "f s = Ok x" and "ptable_inv None s"
  shows "keeps s x"
proof -
  have "list_all (\<lambda>g. \<forall>f s x. g = Some f \<longrightarrow> f s = Ok x \<longrightarrow> ptable_inv None s \<longrightarrow> keeps s x) syscalls"
    unfolding syscalls_def
    by (simp only: list.map list.pred_inject option.inject option.distinct simp_thms)
      (intro conjI allI impI; hypsubst; erule (1) stay)
  then show ?thesis using assms unfolding list_all_iff by blast
qed

lemma syscall_keeps:
  fixes s :: "'z kst_scheme"
  assumes "syscall s = Ok x" and "ptable_inv None s"
  shows "keeps s x"
proof -
  obtain c where c: "cpu_proc s = Some c" using assms(1) by (auto simp: syscall_def myproc_def split: option.splits)
  let ?num = "sint (tf_get (p_tf (procs s ! c)) TF_EAX s)" and ?tab = "syscalls :: ('z kst_scheme \<Rightarrow> _) option list"
  show ?thesis
  proof (cases "0 < ?num \<and> ?num < int (length ?tab) \<and> ?tab ! nat ?num \<noteq> None")
    case True
    then obtain f where f: "?tab ! nat ?num = Some f" "?tab ! nat ?num \<in> set ?tab"
      by (metis nat_less_iff less_imp_le nth_mem option.exhaust)
    then obtain r t where "f s = Ok (r, t)" and x: "x = (case r of
           Asleep \<Rightarrow> (Asleep, t)
         | Done v \<Rightarrow> (Done (), tf_set (p_tf (procs t ! c)) TF_EAX (of_int v) t))"
      using assms(1) c True
      by (auto simp: syscall_def myproc_def Let_def elim!: bindR_OkE split: outcome.splits)
    then have k: "keeps s (r, t)" using syscalls_keeps [OF f(2,1)] assms(2) by blast
    have "ptable_inv None (tf_set a b d t) = ptable_inv None t" "cpu_proc (tf_set a b d t) = cpu_proc t" for a b d
      using inv_pv [OF pv_tf(1) [of a b d t]] pv_cpu [OF pv_tf(1) [of a b d t]] by simp_all
    with k show ?thesis by (simp add: x keeps_def split: outcome.splits)
  next
    case False
    then show ?thesis
      using assms c by (auto simp: syscall_def myproc_def Let_def intro!: keeps_pv elim!: bindR_OkE dest!: pvframe)
  qed
qed

lemma die_keeps: "die s = Ok x \<Longrightarrow> ptable_inv None s \<Longrightarrow> keeps s x"
  by (auto simp: die_def keeps_Asleep elim!: bindR_OkE dest!: exit_inv)

lemma trap_syscall_keeps:
  assumes "trap_syscall tf s = Ok x" and inv: "ptable_inv None s"
  shows "keeps s x"
proof -
  obtain c where c: "cpu_proc s = Some c" using assms(1) by (auto simp: trap_syscall_def myproc_def split: option.splits)
  let ?s1 = "upd_proc c (\<lambda>p. p\<lparr>p_tf := tf\<rparr>) s"
  have i1: "ptable_inv None ?s1" by (rule inv_benign [OF _ inv]) simp
  show ?thesis
  proof (cases "p_killed (procs s ! c) = 0")
    case False
    then show ?thesis using assms c by (simp add: trap_syscall_def myproc_def die_keeps)
  next
    case True
    then obtain r t where t: "syscall ?s1 = Ok (r, t)"
      "(case r of Asleep \<Rightarrow> Ok (Asleep, t)
         | Done _ \<Rightarrow> myproc (\<lambda>c s. if p_killed (procs s ! c) \<noteq> 0 then die s else Ok (Done (), s)) t) = Ok x"
      using assms c by (auto simp: trap_syscall_def myproc_def elim!: bindR_OkE)
    have k: "keeps s (r, t)" using syscall_keeps [OF t(1) i1] by (simp add: keeps_def split: outcome.splits)
    show ?thesis
    proof (cases r)
      case Asleep
      with t(2) k show ?thesis by (simp add: keeps_def)
    next
      case (Done v)
      then have "ptable_inv None t" "cpu_proc t = cpu_proc s" using k by (simp_all add: keeps_Done)
      moreover from this have "keeps t x" using t(2) Done
        by (auto simp: myproc_def keeps_refl dest: die_keeps split: option.split_asm if_split_asm)
      ultimately show ?thesis by (simp add: keeps_cpu)
    qed
  qed
qed

lemma inv_map:
  assumes b: "benign g" and inv: "ptable_inv e s"
  shows "ptable_inv e (s\<lparr>procs := map g (procs s)\<rparr>)"
proof -
  have l: "length (procs s) = NPROC" by (rule inv_length [OF inv])
  have "slot_ok e i (map g (procs s)) (cpu_proc s) (initproc s) (nextpid s)" if "i < NPROC" for i
    using inv_slot [OF inv that] b that l by (auto simp: slot_ok_def Let_def benign_def split: option.splits)
  then show ?thesis using inv b l by (auto simp: ptable_inv_def table_ok_def benign_def)
qed

definition count_time :: "proc \<Rightarrow> proc" where
  "count_time p = (case p_state p of
       SLEEPING \<Rightarrow> p\<lparr>p_stime := p_stime p + 1\<rparr>
     | RUNNABLE \<Rightarrow> p\<lparr>p_retime := p_retime p + 1\<rparr>
     | RUNNING \<Rightarrow> p\<lparr>p_rutime := p_rutime p + 1\<rparr>
     | _ \<Rightarrow> p)"

lemma benign_count_time: "benign count_time"
  by (simp add: benign_def count_time_def split: procstate.splits)

lemma tick_stays: "stays s (tick cpuid s)"
proof -
  have "update_statistics t = t\<lparr>procs := map count_time (procs t)\<rparr>" for t :: "'a pst_scheme"
    by (simp add: update_statistics_def count_time_def)
  then show ?thesis
    using inv_map [OF benign_count_time, of None "s\<lparr>ticks := ticks s + 1\<rparr>"]
    by (simp add: tick_def stays_def) (simp add: ptable_inv_def)
qed

lemma unexpected_stays: "unexpected cpuid cr2 tf s = Ok s' \<Longrightarrow> stays s s'"
  by (auto simp: unexpected_def elim!: bindR_OkE dest!: pvframe
      intro!: stays_trans [OF stays_pv stays_benign] split: option.split_asm if_split_asm)

lemma dispatch_stays: "dispatch cpuid cr2 inp tf s = Ok s' \<Longrightarrow> stays s s'"
  by (auto simp: dispatch_def Let_def stays_pv tick_stays dest!: pvframe unexpected_stays split: if_split_asm)

lemma trap_exit_keeps: "trap_exit tf s = Ok x \<Longrightarrow> ptable_inv None s \<Longrightarrow> keeps s x"
  by (auto simp: trap_exit_def keeps_refl dest: die_keeps split: option.split_asm if_split_asm)

lemma trap_keeps:
  assumes "trap cpuid cr2 inp tf s = Ok x" and inv: "ptable_inv None s"
  shows "keeps s x"
proof (cases "tf_get tf TF_TRAPNO s = of_nat T_SYSCALL")
  case True
  then show ?thesis using assms trap_syscall_keeps by (simp add: trap_def)
next
  case False
  then obtain t where t: "dispatch cpuid cr2 inp tf s = Ok t" and x: "(case cpu_proc t of
            None \<Rightarrow> Ok (Done (), t)
          | Some c \<Rightarrow>
              if p_killed (procs t ! c) \<noteq> 0 \<and> from_user tf t then die t
              else if p_state (procs t ! c) = RUNNING \<and> tf_get tf TF_TRAPNO t = 32
              then bindR (yield t) (\<lambda>s. Ok (Asleep, s))
              else trap_exit tf t) = Ok x"
    using assms(1) by (auto simp: trap_def elim!: bindR_OkE)
  have it: "ptable_inv None t" "cpu_proc t = cpu_proc s" using dispatch_stays [OF t] inv by (simp_all add: stays_def)
  have "keeps t x"
  proof (cases "cpu_proc t")
    case None
    then show ?thesis using x it by (auto simp: keeps_refl)
  next
    case (Some c)
    then show ?thesis using x it
      by (auto simp: keeps_Asleep elim!: bindR_OkE dest: die_keeps trap_exit_keeps dest!: yield_inv
          split: if_split_asm)
  qed
  then show ?thesis using it by (simp add: keeps_cpu)
qed

end
