(* ===== verification/Reach.thy ===== *)
theory Reach
  imports SyscallInv
begin

section \<open>The histories of the kernel\<close>
















end
