(* ===== verification/ProcProps.thy ===== *)
theory ProcProps
  imports Reach
begin

section \<open>Properties of processes, scheduling and semaphores\<close>

text \<open>
  What the invariant of the process table gives for single calls, and what the scheduler and the semaphores
  do. The states of the witnesses have a first process, which runs or waits, and a child of it.
\<close>

lemma kst_boot_simps [simp]:
  "procs kst_boot = replicate NPROC proc_boot" "cpu_proc kst_boot = None" "initproc kst_boot = None"
  "nextpid kst_boot = 1" "ticks kst_boot = 0" "ready_process kst_boot = DefaultScheduler"
  "rng kst_boot = (12345, 12345, 12345, 12345)"
  "sema kst_boot = replicate 32 \<lparr>sem_value = 0, sem_active = 0\<rparr>"
  by (simp_all add: kst_boot_def ftst_boot_def pipest_boot_def cst_boot_def fsst_boot_def lst_boot_def bst_boot_def
      ftst.extend_def pipest.extend_def cst.extend_def fsst.extend_def lst.extend_def bst.extend_def pst.extend_def)

definition proc_demo :: "procstate \<Rightarrow> int \<Rightarrow> nat option \<Rightarrow> proc" where
  "proc_demo st pid par = proc_boot\<lparr>p_state := st, p_pid := pid, p_parent := par\<rparr>"

definition pst_demo :: "procstate \<Rightarrow> kst" where
  "pst_demo st = kst_boot\<lparr>procs := (replicate NPROC proc_boot)
      [0 := proc_demo st 1 None, 1 := proc_demo RUNNING 2 (Some 0)],
    cpu_proc := Some 1, initproc := Some 0, nextpid := 3\<rparr>"

lemma pst_demo_simps [simp]:
  "procs (pst_demo st) = (replicate NPROC proc_boot)[0 := proc_demo st 1 None, 1 := proc_demo RUNNING 2 (Some 0)]"
  "cpu_proc (pst_demo st) = Some 1" "initproc (pst_demo st) = Some 0" "nextpid (pst_demo st) = 3"
  by (simp_all add: pst_demo_def)

lemma proc_demo_simps [simp]:
  "p_state (proc_demo st pid par) = st" "p_pid (proc_demo st pid par) = pid" "p_parent (proc_demo st pid par) = par"
  "p_killed (proc_demo st pid par) = 0" "p_sem_held (proc_demo st pid par) = replicate 32 0"
  by (simp_all add: proc_demo_def proc_boot_def)



subsection \<open>getppid and kill\<close>






subsection \<open>The scheduler\<close>

lemma crem_bounds: "0 < b \<Longrightarrow> crem a b < b" "0 < b \<Longrightarrow> - crem a b < b"
  by (simp_all add: crem_def)
    (metis pos_mod_sign less_le_trans neg_le_0_iff_le order_less_le_trans order.strict_trans1, smt (verit) pos_mod_sign)

lemma random_bounds: "0 < mx \<Longrightarrow> 0 \<le> fst (random mx s) \<and> fst (random mx s) < mx"
  by (simp add: random_def Let_def crem_bounds split: prod.splits)

lemma random_procs [simp]: "procs (snd (random mx s)) = procs s"
  by (simp add: random_def Let_def split: prod.splits)

lemma pick_case:
  "case pick n k ps of
     None \<Rightarrow> \<forall>d < n. p_state (ps ! ((k + d) mod NPROC)) \<noteq> RUNNABLE
   | Some i \<Rightarrow> \<exists>d < n. i = (k + d) mod NPROC \<and> p_state (ps ! i) = RUNNABLE \<and>
       (\<forall>e < d. p_state (ps ! ((k + e) mod NPROC)) \<noteq> RUNNABLE)"
proof (induction n arbitrary: k)
  case (Suc n)
  show ?case
  proof (cases "p_state (ps ! (k mod NPROC)) = RUNNABLE")
    case True
    then show ?thesis by (auto intro: exI [of _ 0])
  next
    case False
    show ?thesis
    proof (cases "pick n (Suc k) ps")
      case None
      with Suc [of "Suc k"] False show ?thesis by (auto simp: less_Suc_eq_0_disj)
    next
      case (Some i)
      with Suc [of "Suc k"] obtain d where d: "d < n" "i = (Suc k + d) mod NPROC" "p_state (ps ! i) = RUNNABLE"
        "\<forall>e < d. p_state (ps ! ((Suc k + e) mod NPROC)) \<noteq> RUNNABLE"
        by auto
      then have "\<forall>e < Suc d. p_state (ps ! ((k + e) mod NPROC)) \<noteq> RUNNABLE"
        using False by (auto simp: less_Suc_eq_0_disj)
      with d False Some show ?thesis by (auto intro!: exI [of _ "Suc d"])
    qed
  qed
qed simp

lemma all_mod: "(\<forall>d < NPROC. P ((k + d) mod NPROC)) \<longleftrightarrow> (\<forall>i < NPROC. P i)" for k :: nat
proof (intro iffI allI impI)
  fix i assume P: "\<forall>d < NPROC. P ((k + d) mod NPROC)" and i: "i < NPROC"
  let ?d = "(i + NPROC - k mod NPROC) mod NPROC"
  have "(k + ?d) mod NPROC = (k mod NPROC + (i + NPROC - k mod NPROC)) mod NPROC" by (metis mod_add_eq mod_mod_trivial)
  also have "\<dots> = i" using i mod_less_divisor [of NPROC k] by simp
  finally show "P i" using P by (metis mod_less_divisor zero_less_numeral)
qed simp

text \<open>
  C13. \<open>defaultScheduler\<close> returns null exactly if no process is runnable. Otherwise it returns a
  runnable process: the first one it meets when it walks around the table from the slot that \<open>random\<close>
  drew, which is a slot of the table.
\<close>

theorem defaultScheduler_spec:
  "let k = fst (random (int NPROC) s) in
   0 \<le> k \<and> k < int NPROC \<and>
   (case fst (defaultScheduler s) of
      None \<Rightarrow> \<forall>i < NPROC. p_state (procs s ! i) \<noteq> RUNNABLE
    | Some i \<Rightarrow> i < NPROC \<and> p_state (procs s ! i) = RUNNABLE \<and>
        (\<exists>d < NPROC. i = (nat k + d) mod NPROC \<and>
           (\<forall>e < d. p_state (procs s ! ((nat k + e) mod NPROC)) \<noteq> RUNNABLE)))"
proof -
  let ?k = "fst (random (int NPROC) s)"
  have "fst (defaultScheduler s) = pick NPROC (nat ?k) (procs s)"
    by (simp add: defaultScheduler_def split_beta)
  moreover note pick_case [where n = NPROC and k = "nat ?k" and ps = "procs s"] random_bounds [of "int NPROC" s]
  ultimately show ?thesis
    using all_mod [where P = "\<lambda>i. p_state (procs s ! i) \<noteq> RUNNABLE" and k = "nat ?k"]
    by (auto simp: Let_def split: option.splits)
qed

theorem defaultScheduler_spec_witness:
  "fst (defaultScheduler (pst_demo RUNNABLE)) = Some 0 \<and> fst (defaultScheduler (pst_demo SLEEPING)) = None"
proof -
  have only: "p_state (procs (pst_demo st) ! i) = RUNNABLE \<longleftrightarrow> i = 0 \<and> st = RUNNABLE" if "i < NPROC" for st i
    using that by (auto simp: nth_list_update_if proc_boot_def)
  show ?thesis
    using defaultScheduler_spec [of "pst_demo RUNNABLE"] defaultScheduler_spec [of "pst_demo SLEEPING"] only
    by (auto simp del: pst_demo_simps simp: Let_def dest: spec [where x = "0::nat"] split: option.splits)
qed


subsection \<open>Semaphores\<close>

lemma sema_put_back:
  "sema (upd_sema i (\<lambda>x. x\<lparr>sem_value := sem_value x + n\<rparr>)
     (upd_sema i (\<lambda>x. x\<lparr>sem_value := sem_value x - n\<rparr>) s)) = sema s"
  by (cases "i < length (sema s)") (simp_all add: upd_sema_def list_update_beyond)

text \<open>
  C15. Waiting on a semaphore never takes anything from it: whether \<open>sem_wait\<close> returns or sleeps, at once or
  after it was woken, all semaphores are as they were before. So any number of processes that wait for one
  unit pass at the same time once the value is one.
\<close>

theorem sem_wait_takes_nothing:
  assumes "sem_wait sem count s = Ok (r, s') \<or> sem_wait_resume sem count s = Ok (r, s')"
  shows "sema s' = sema s"
proof -
  have loop: "sema t' = sema t" if "sem_wait_loop sem count t = Ok (r, t')" for t t' :: "'a pst_scheme"
    using that
    by (auto simp: sem_wait_loop_def myproc_def sleep_def sema_put_back sched_def sched_return_def switchkvm_def
        wakeup_def wakeup1_def Let_def
        elim!: bindR_OkE split: if_split_asm option.split_asm)
  have "sema t = sema s" if "awake s = Ok t" for t
    using that by (auto simp: awake_def myproc_def split: option.split_asm)
  with assms loop show ?thesis
    by (auto simp: sem_wait_def sem_wait_resume_def elim!: bindR_OkE split: if_split_asm)
qed

theorem sem_wait_takes_nothing_witness:
  "\<exists>s'. sem_wait 0 1 (pst_demo SLEEPING\<lparr>sema := [\<lparr>sem_value = 1, sem_active = 1\<rparr>]\<rparr>) = Ok (Done 0, s') \<and>
     sema s' = [\<lparr>sem_value = 1, sem_active = 1\<rparr>]"
proof -
  let ?s = "pst_demo SLEEPING\<lparr>sema := [\<lparr>sem_value = 1, sem_active = 1\<rparr>]\<rparr>"
  obtain s' where s': "sem_wait 0 1 ?s = Ok (Done 0, s')"
    by (simp add: sem_wait_def sem_wait_loop_def myproc_def Let_def)
  with sem_wait_takes_nothing [of 0 1 ?s "Done 0" s'] show ?thesis by auto
qed

end
