(* ===== verification/Grep.thy ===== *)
theory Grep
  imports CString
begin

section \<open>grep.c\<close>

text \<open>
  The matcher works on C strings: byte lists, the end of the list being the terminating null. Of the
  bytes of a pattern, 94 is the caret, 36 the dollar sign, 46 the full stop and
  42 the star. \<open>grep\<close> takes what each call of \<open>read\<close> returns (at
  most the 1023 bytes that the buffer still has room for), and gives what it writes.
\<close>

fun matchhere :: "uchar list \<Rightarrow> uchar list \<Rightarrow> bool"
  and matchstar :: "uchar \<Rightarrow> uchar list \<Rightarrow> uchar list \<Rightarrow> bool" where
  "matchhere re text =
     (case re of
        [] \<Rightarrow> True
      | c # re' \<Rightarrow>
          (case re' of
             d # re'' \<Rightarrow>
               if d = 42 then matchstar c re'' text
               else (case text of [] \<Rightarrow> False | t # ts \<Rightarrow> (c = 46 \<or> c = t) \<and> matchhere re' ts)
           | [] \<Rightarrow>
               if c = 36 then text = []
               else (case text of [] \<Rightarrow> False | t # ts \<Rightarrow> (c = 46 \<or> c = t) \<and> matchhere re' ts)))"
| "matchstar c re text =
     (matchhere re text \<or>
      (case text of [] \<Rightarrow> False | t # ts \<Rightarrow> (t = c \<or> c = 46) \<and> matchstar c re ts))"

declare matchhere.simps [simp del] matchstar.simps [simp del]

fun match_loop :: "uchar list \<Rightarrow> uchar list \<Rightarrow> bool" where
  "match_loop re text =
     (matchhere re text \<or> (case text of [] \<Rightarrow> False | t # ts \<Rightarrow> match_loop re ts))"

declare match_loop.simps [simp del]

definition match :: "uchar list \<Rightarrow> uchar list \<Rightarrow> bool" where
  "match re text =
     (case re of
        c # re' \<Rightarrow> if c = 94 then matchhere re' text else match_loop re text
      | [] \<Rightarrow> match_loop re text)"

text \<open>The inner loop: the lines from \<open>p\<close> on, with what is left after the last line.\<close>

function grep_lines :: "uchar list \<Rightarrow> uchar list \<Rightarrow> uchar list \<times> uchar list" where
  "grep_lines pattern p =
     (case strchr p 10 of
        None \<Rightarrow> ([], p)
      | Some q \<Rightarrow>
          let (out, rest) = grep_lines pattern (drop (Suc q) p) in
          ((if match pattern (take q p) then take (Suc q) p else []) @ out, rest))"
  by pat_completeness auto
termination
proof (relation "measure (\<lambda>(pattern, p). length p)")
  fix p :: "uchar list" and q
  assume "strchr p 10 = Some q"
  then have "p \<noteq> []" by auto
  then show "((pattern, drop (Suc q) p), pattern, p) \<in> measure (\<lambda>(pattern, p). length p)" for pattern :: "uchar list"
    by simp
qed simp

declare grep_lines.simps [simp del]

text \<open>
  The outer loop; \<open>buf\<close> holds the first \<open>m\<close> bytes of the buffer. A read that returns nothing ends it.
\<close>

fun grep :: "uchar list \<Rightarrow> uchar list \<Rightarrow> uchar list list \<Rightarrow> uchar list" where
  "grep pattern buf [] = []"
| "grep pattern buf (r # reads) =
     (if r = [] then []
      else
        let (out, rest) = grep_lines pattern (buf @ r)
        in out @ grep pattern (if strchr (buf @ r) 10 = None then [] else rest) reads)"

subsection \<open>Regular expressions\<close>

text \<open>
  A pattern is a sequence of items, with an anchor at either end. An item is one character or any number of
  repetitions of one; the full stop stands for any character.
\<close>

datatype item = One uchar | Many uchar

definition sat :: "uchar \<Rightarrow> uchar \<Rightarrow> bool" where
  "sat c t \<longleftrightarrow> c = 46 \<or> c = t"

fun items :: "uchar list \<Rightarrow> item list \<times> bool" where
  "items [] = ([], False)"
| "items [c] = (if c = 36 then ([], True) else ([One c], False))"
| "items (c # d # re) =
     (if d = 42 then map_prod ((#) (Many c)) id (items re) else map_prod ((#) (One c)) id (items (d # re)))"

inductive lang :: "item list \<Rightarrow> uchar list \<Rightarrow> bool" where
  lang_Nil: "lang [] []"
| lang_One: "sat c t \<Longrightarrow> lang js ts \<Longrightarrow> lang (One c # js) (t # ts)"
| lang_Many: "list_all (sat c) xs \<Longrightarrow> lang js ts \<Longrightarrow> lang (Many c # js) (xs @ ts)"

inductive_simps lang_NilE [simp]: "lang [] ts"
inductive_simps lang_OneE: "lang (One c # js) ts"
inductive_simps lang_ManyE: "lang (Many c # js) ts"

text \<open>A prefix of the text matches, all of the text if the pattern is anchored at its end.\<close>

definition here :: "item list \<times> bool \<Rightarrow> uchar list \<Rightarrow> bool" where
  "here p text \<longleftrightarrow> (\<exists>mid suf. text = mid @ suf \<and> lang (fst p) mid \<and> (snd p \<longrightarrow> suf = []))"

lemma hereI: "lang js mid \<Longrightarrow> (e \<longrightarrow> suf = []) \<Longrightarrow> here (js, e) (mid @ suf)"
  by (auto simp: here_def)

lemma here_Nil: "here ([], e) text \<longleftrightarrow> (e \<longrightarrow> text = [])"
  by (auto simp: here_def)

lemma here_One: "here (One c # js, e) text \<longleftrightarrow> (case text of [] \<Rightarrow> False | t # ts \<Rightarrow> sat c t \<and> here (js, e) ts)"
  by (cases "text") (auto simp: here_def lang_OneE Cons_eq_append_conv)

lemma here_Many:
  "here (Many c # js, e) text \<longleftrightarrow>
     here (js, e) text \<or> (case text of [] \<Rightarrow> False | t # ts \<Rightarrow> sat c t \<and> here (Many c # js, e) ts)"
proof
  assume "here (Many c # js, e) text"
  then obtain mid suf where m: "text = mid @ suf" "lang (Many c # js) mid" "e \<longrightarrow> suf = []"
    unfolding here_def by auto
  then obtain xs ts where "mid = xs @ ts" "list_all (sat c) xs" "lang js ts" unfolding lang_ManyE by auto
  with m have t: "text = xs @ ts @ suf" "list_all (sat c) xs" "lang js ts" "e \<longrightarrow> suf = []" by simp_all
  show "here (js, e) text \<or> (case text of [] \<Rightarrow> False | t # ts \<Rightarrow> sat c t \<and> here (Many c # js, e) ts)"
  proof (cases xs)
    case Nil
    with t show ?thesis by (auto simp: here_def)
  next
    case (Cons x xs')
    with t have "lang (Many c # js) (xs' @ ts)" "sat c x" by (auto intro: lang_Many)
    with t Cons hereI [of "Many c # js" "xs' @ ts" e suf] show ?thesis by simp
  qed
next
  assume r: "here (js, e) text \<or> (case text of [] \<Rightarrow> False | t # ts \<Rightarrow> sat c t \<and> here (Many c # js, e) ts)"
  show "here (Many c # js, e) text"
  proof (cases "here (js, e) text")
    case True
    then show ?thesis using lang_Many [of c "[]" "js"] by (auto simp: here_def)
  next
    case False
    with r obtain t mid suf where m: "text = t # mid @ suf" "sat c t" "lang (Many c # js) mid" "e \<longrightarrow> suf = []"
      by (cases "text") (auto simp: here_def)
    then obtain xs us where "mid = xs @ us" "list_all (sat c) xs" "lang js us" unfolding lang_ManyE by auto
    with m have t: "text = t # xs @ us @ suf" "sat c t" "list_all (sat c) xs" "lang js us" "e \<longrightarrow> suf = []" by simp_all
    then have "lang (Many c # js) ((t # xs) @ us)" by (intro lang_Many) simp_all
    with t hereI [of "Many c # js" "(t # xs) @ us" e suf] show ?thesis by simp
  qed
qed

lemma matchhere_here:
  "matchhere re text \<longleftrightarrow> here (items re) text"
  "matchstar c re text \<longleftrightarrow> here (map_prod ((#) (Many c)) id (items re)) text"
proof (induction re "text" and c re "text" rule: matchhere_matchstar.induct)
  case (1 re s)
  show ?case
  proof (cases re rule: items.cases)
    case 1
    then show ?thesis by (simp add: matchhere.simps here_Nil)
  next
    case (2 c)
    with "1" show ?thesis
      by (auto simp: matchhere.simps [of "[c]"] matchhere.simps [of "[]"] here_Nil here_One sat_def split: list.splits)
  next
    case (3 c d re')
    obtain js e where i: "items (d # re') = (js, e)" by fastforce
    with 3 "1" show ?thesis
      by (auto simp: matchhere.simps [of "c # d # re'"] here_One sat_def id_def split: list.splits)
  qed
next
  case (2 c re s)
  obtain js e where i: "items re = (js, e)" by fastforce
  with 2 show ?case by (auto simp: matchstar.simps [of c re s] here_Many [of c js e s] sat_def split: list.splits)
qed

lemma match_loop_here: "match_loop re text \<longleftrightarrow> (\<exists>pre suf. text = pre @ suf \<and> here (items re) suf)"
proof (induction "text")
  case Nil
  then show ?case by (simp add: match_loop.simps matchhere_here)
next
  case (Cons t ts)
  then show ?case by (auto simp: match_loop.simps [of re "t # ts"] matchhere_here Cons_eq_append_conv)
qed

text \<open>
  C16. The matcher implements regular expressions: \<open>match\<close> holds exactly if some part of the text is in the
  language of the pattern, where a caret in front ties that part to the beginning of the text and a dollar
  sign at the end ties it to the end.
\<close>

theorem match_language:
  "match re text \<longleftrightarrow>
     (let anchored = (re \<noteq> [] \<and> hd re = 94); (js, e) = items (if anchored then tl re else re) in
      \<exists>pre mid suf. text = pre @ mid @ suf \<and> lang js mid \<and> (anchored \<longrightarrow> pre = []) \<and> (e \<longrightarrow> suf = []))"
proof -
  have m: "match re text \<longleftrightarrow> (if re \<noteq> [] \<and> hd re = 94 then matchhere (tl re) text else match_loop re text)"
    by (cases re) (simp_all add: match_def)
  show ?thesis
  proof (cases "re \<noteq> [] \<and> hd re = 94")
    case True
    then show ?thesis by (auto simp: m matchhere_here here_def Let_def split: prod.splits)
  next
    case False
    then have "match re text \<longleftrightarrow> (\<exists>pre suf. text = pre @ suf \<and> here (items re) suf)"
      unfolding m match_loop_here by (simp only: if_False)
    also have "\<dots> \<longleftrightarrow> (\<exists>pre mid suf. text = pre @ mid @ suf \<and> lang (fst (items re)) mid \<and> (snd (items re) \<longrightarrow> suf = []))"
      unfolding here_def by blast
    finally have "match re text \<longleftrightarrow>
        (\<exists>pre mid suf. text = pre @ mid @ suf \<and> lang (fst (items re)) mid \<and> (snd (items re) \<longrightarrow> suf = []))" .
    moreover have "(re \<noteq> [] \<and> hd re = 94) = False" using False by (rule Eq_FalseI [THEN meta_eq_to_obj_eq])
    ultimately show ?thesis by (simp only: Let_def if_False split_beta simp_thms)
  qed
qed

theorem match_language_witness:
  "match [94, 97, 42, 36] [97, 97] \<and> lang (fst (items [97, 42, 36])) [97, 97] \<and> \<not> match [98, 36] [97, 98, 97]"
proof -
  have "match [94, 97, 42, 36] [97, 97] \<longleftrightarrow> lang [Many 97] [97, 97]"
    by (subst match_language) auto
  moreover have "lang [Many 97] [97, 97]" using lang_Many [of 97 "[97, 97]" "[]" "[]"] by (simp add: sat_def)
  moreover have "\<not> match [98, 36] [97, 98, 97]"
    by (subst match_language) (auto simp: lang_OneE Cons_eq_append_conv append_eq_Cons_conv sat_def)
  ultimately show ?thesis by simp
qed

subsection \<open>The lines\<close>














text \<open>
  C18. A read that brings no newline into an empty buffer is thrown away: the beginning of a line that
  arrives in two reads is lost.
\<close>

theorem grep_drops_partial_line:
  assumes "10 \<notin> set r" and "r \<noteq> []"
  shows "grep pattern [] (r # reads) = grep pattern [] reads"
proof -
  have "strchr r 10 = None" using assms(1) by (induction r) auto
  with assms show ?thesis by (simp add: grep_lines.simps [of _ r])
qed

theorem grep_drops_partial_line_witness:
  "grep [97] [] [[97], [98, 10]] = [] \<and> grep [97] [] [[97, 98, 10]] = [97, 98, 10]"
proof -
  have m: "match [97] [97, 98]" "\<not> match [97] [98]"
    by (simp_all add: match_def match_loop.simps matchhere.simps)
  then have "grep [97] [] [[98, 10]] = []" "grep [97] [] [[97, 98, 10]] = [97, 98, 10]"
    by (simp_all add: grep_lines.simps)
  then show ?thesis using grep_drops_partial_line [of "[97]" "[97]" "[[98, 10]]"] by simp
qed

end
