(* ===== verification/Sh.thy ===== *)
theory Sh
  imports CString "HOL-Library.Sublist"
begin

section \<open>The shell's parser: sh.c\<close>

text \<open>
  A pointer into the line is the rest of the line from there on, so that \<^verbatim>\<open>s < es\<close> says that it is not
  empty. A word of a command is a pair of pointers, to its first byte and behind its last one, until
  \<open>nulterminate\<close> has put a null byte behind it. A command is polymorphic in its words. \<open>panic\<close> ends
  the process that parses, and allocation succeeds. Recursion is bounded by fuel: \<open>parsecmd\<close> has
  enough for every line.
\<close>

type_synonym word_ptr = "uchar list \<times> uchar list"

datatype 'w cmd =
    EXEC "'w list"
  | REDIR "'w cmd" 'w int int
  | PIPE "'w cmd" "'w cmd"
  | LIST "'w cmd" "'w cmd"
  | BACK "'w cmd"

abbreviation (input) MAXARGS :: nat where "MAXARGS \<equiv> 10"

definition whitespace :: "uchar list" where "whitespace = [32, 9, 13, 10, 11]"
definition symbols :: "uchar list" where "symbols = [60, 124, 62, 38, 59, 40, 41]"

definition deref :: "uchar list \<Rightarrow> uchar" where
  "deref s = (case s of [] \<Rightarrow> 0 | c # _ \<Rightarrow> c)"

definition skip :: "uchar list \<Rightarrow> uchar list" where
  "skip s = dropWhile (\<lambda>c. strchr whitespace c \<noteq> None) s"

definition word_end :: "uchar list \<Rightarrow> uchar list" where
  "word_end s = dropWhile (\<lambda>c. strchr whitespace c = None \<and> strchr symbols c = None) s"

definition gettoken :: "uchar list \<Rightarrow> uchar \<times> word_ptr \<times> uchar list" where
  "gettoken s =
     (let s = skip s; q = s; c = deref s;
          (ret, s) =
            (if c = 0 then (c, s)
             else if c = 124 \<or> c = 40 \<or> c = 41 \<or> c = 59 \<or> c = 38 \<or> c = 60 then (c, drop 1 s)
             else if c = 62 then (if deref (drop 1 s) = 62 then (43, drop 2 s) else (c, drop 1 s))
             else (97, word_end s))
      in (ret, (q, s), skip s))"

definition peek :: "uchar list \<Rightarrow> uchar list \<Rightarrow> bool \<times> uchar list" where
  "peek s toks = (let s = skip s in (deref s \<noteq> 0 \<and> strchr toks (deref s) \<noteq> None, s))"

text \<open>The redirection that a token stands for.\<close>

definition redircmd :: "uchar \<Rightarrow> word_ptr \<Rightarrow> word_ptr cmd \<Rightarrow> word_ptr cmd" where
  "redircmd tok w c =
     (if tok = 60 then REDIR c w 0 0
      else if tok = 62 then REDIR c w 0x201 1
      else if tok = 43 then REDIR c w 0x201 1
      else c)"

text \<open>
  \<open>parseredirs\<close> wraps the command it is given. That command may still get arguments, so what it gives
  is how it wraps; \<open>f\<close> is how the command is wrapped so far. Every round takes a token from the
  line, so that its length bounds the rounds.
\<close>

fun parseredirs :: "nat \<Rightarrow> (word_ptr cmd \<Rightarrow> word_ptr cmd) \<Rightarrow> uchar list \<Rightarrow>
    ((word_ptr cmd \<Rightarrow> word_ptr cmd) \<times> uchar list) res" where
  "parseredirs 0 f s = Diverge"
| "parseredirs (Suc n) f s =
     (let (b, s) = peek s [60, 62] in
      if b then
        let (tok, _, s) = gettoken s; (t, w, s) = gettoken s in
        if t \<noteq> 97 then Panic ''missing file for redirection''
        else parseredirs n (\<lambda>c. redircmd tok w (f c)) s
      else Ok (f, s))"

text \<open>The loop of \<open>parseexec\<close>; \<open>n\<close> is how many arguments may still come.\<close>

fun parseargs :: "nat \<Rightarrow> word_ptr list \<Rightarrow> (word_ptr cmd \<Rightarrow> word_ptr cmd) \<Rightarrow> uchar list \<Rightarrow>
    (word_ptr cmd \<times> uchar list) res" where
  "parseargs n argv f s =
     (let (b, s) = peek s [124, 41, 38, 59] in
      if b then Ok (f (EXEC argv), s)
      else
        let (tok, w, s) = gettoken s in
        if tok = 0 then Ok (f (EXEC argv), s)
        else if tok \<noteq> 97 then Panic ''syntax''
        else
          case n of
            0 \<Rightarrow> Panic ''too many args''
          | Suc m \<Rightarrow> bindR (parseredirs (Suc (length s)) f s) (\<lambda>(f, s). parseargs m (argv @ [w]) f s))"

declare parseargs.simps [simp del]

text \<open>The commands of a line; a background mark takes a token from it.\<close>

fun parseback :: "nat \<Rightarrow> word_ptr cmd \<Rightarrow> uchar list \<Rightarrow> (word_ptr cmd \<times> uchar list) res" where
  "parseback 0 c s = Diverge"
| "parseback (Suc n) c s =
     (let (b, s) = peek s [38] in
      if b then let (_, _, s) = gettoken s in parseback n (BACK c) s else Ok (c, s))"

fun parseline :: "nat \<Rightarrow> uchar list \<Rightarrow> (word_ptr cmd \<times> uchar list) res"
  and parsepipe :: "nat \<Rightarrow> uchar list \<Rightarrow> (word_ptr cmd \<times> uchar list) res"
  and parseblock :: "nat \<Rightarrow> uchar list \<Rightarrow> (word_ptr cmd \<times> uchar list) res"
  and parseexec :: "nat \<Rightarrow> uchar list \<Rightarrow> (word_ptr cmd \<times> uchar list) res" where
  "parseline 0 s = Diverge"
| "parseline (Suc n) s =
     bindR (parsepipe n s) (\<lambda>(c, s).
     bindR (parseback (Suc (length s)) c s) (\<lambda>(c, s).
       let (b, s) = peek s [59] in
       if b then
         let (_, _, s) = gettoken s in
         bindR (parseline n s) (\<lambda>(d, s). Ok (LIST c d, s))
       else Ok (c, s)))"
| "parsepipe 0 s = Diverge"
| "parsepipe (Suc n) s =
     bindR (parseexec n s) (\<lambda>(c, s).
       let (b, s) = peek s [124] in
       if b then
         let (_, _, s) = gettoken s in
         bindR (parsepipe n s) (\<lambda>(d, s). Ok (PIPE c d, s))
       else Ok (c, s))"
| "parseblock 0 s = Diverge"
| "parseblock (Suc n) s =
     (let (b, s) = peek s [40] in
      if \<not> b then Panic ''parseblock''
      else
        let (_, _, s) = gettoken s in
        bindR (parseline n s) (\<lambda>(c, s).
          let (b, s) = peek s [41] in
          if \<not> b then Panic ''syntax - missing )''
          else
            let (_, _, s) = gettoken s in
            bindR (parseredirs (Suc (length s)) (\<lambda>c. c) s) (\<lambda>(f, s). Ok (f c, s))))"
| "parseexec 0 s = Diverge"
| "parseexec (Suc n) s =
     (let (b, s) = peek s [40] in
      if b then parseblock n s
      else
        bindR (parseredirs (Suc (length s)) (\<lambda>c. c) s) (\<lambda>(f, s).
          parseargs (MAXARGS - 1) [] f s))"

text \<open>A null byte behind every word; the buffer is the line with its terminator.\<close>

definition terminate :: "uchar list \<Rightarrow> word_ptr \<Rightarrow> uchar list \<Rightarrow> uchar list" where
  "terminate line w buf = buf[length line - length (snd w) := 0]"

primrec nulterminate :: "uchar list \<Rightarrow> word_ptr cmd \<Rightarrow> uchar list \<Rightarrow> uchar list" where
  "nulterminate line (EXEC argv) buf = fold (terminate line) argv buf"
| "nulterminate line (REDIR c w m f) buf = terminate line w (nulterminate line c buf)"
| "nulterminate line (PIPE l r) buf = nulterminate line r (nulterminate line l buf)"
| "nulterminate line (LIST l r) buf = nulterminate line r (nulterminate line l buf)"
| "nulterminate line (BACK c) buf = nulterminate line c buf"

text \<open>The command, and the buffer in which its words are strings.\<close>

definition parsecmd :: "uchar list \<Rightarrow> (word_ptr cmd \<times> uchar list) res" where
  "parsecmd line =
     bindR (parseline (4 * length line + 4) line) (\<lambda>(c, s).
       let (_, s) = peek s [] in
       if s \<noteq> [] then Panic ''syntax'' else Ok (c, nulterminate line c (line @ [0])))"

subsection \<open>Progress and termination\<close>

definition ws :: "uchar \<Rightarrow> bool" where "ws c \<longleftrightarrow> c \<in> set whitespace"
definition symb :: "uchar \<Rightarrow> bool" where "symb c \<longleftrightarrow> c \<in> set symbols"

lemma strchr_ws [simp]: "strchr whitespace c = None \<longleftrightarrow> \<not> ws c" "strchr symbols c = None \<longleftrightarrow> \<not> symb c"
  by (auto simp: ws_def symb_def whitespace_def symbols_def)

lemma skip_simps: "skip [] = []" "skip (c # s) = (if ws c then skip s else c # s)"
  by (simp_all add: skip_def)

lemma skip_le: "length (skip s) \<le> length s"
  by (simp add: skip_def length_dropWhile_le)

lemma skip_hd: "skip s = c # s' \<Longrightarrow> \<not> ws c"
  by (induction s) (auto simp: skip_simps split: if_splits)

lemma skip_skip [simp]: "skip (skip s) = skip s"
  by (simp add: skip_def)

lemma word_end_less: "\<not> ws c \<Longrightarrow> \<not> symb c \<Longrightarrow> length (word_end (c # s)) \<le> length s"
  by (simp add: word_end_def length_dropWhile_le)

lemma gettoken_le:
  assumes "gettoken s = (t, w, s')"
  shows "length s' \<le> length s \<and> (t \<noteq> 0 \<longrightarrow> length s' < length s)"
proof (cases "skip s")
  case Nil
  with assms show ?thesis by (simp add: gettoken_def deref_def skip_simps)
next
  case (Cons c r)
  have l: "length r < length s" using skip_le [of s] Cons by simp
  have "length (skip x) < length s" if "length x \<le> length r" for x using skip_le [of x] that l by linarith
  moreover have "length (word_end (c # r)) \<le> length r" if "\<not> symb c"
    using skip_hd [OF Cons] that by (rule word_end_less)
  moreover have "length (skip (c # r)) \<le> length s" using skip_skip [of s] skip_le [of s] Cons by simp
  moreover have "symb c \<longleftrightarrow> c = 60 \<or> c = 124 \<or> c = 62 \<or> c = 38 \<or> c = 59 \<or> c = 40 \<or> c = 41"
    by (auto simp: symb_def symbols_def)
  ultimately show ?thesis
    using assms Cons by (auto simp: gettoken_def deref_def Let_def le_diff_conv less_imp_le split: if_splits)
qed

lemma peek_le: "peek s toks = (b, s') \<Longrightarrow> length s' \<le> length s"
  using skip_le [of s] by (auto simp: peek_def Let_def)

lemma peek_skip: "peek s toks = (b, s') \<Longrightarrow> s' = skip s"
  by (simp add: peek_def Let_def)

text \<open>After a look-ahead that succeeds, the next token is that character, and the line gets shorter.\<close>

lemma peek_gettoken:
  assumes "peek s toks = (True, s')" and "gettoken s' = (t, w, s'')"
  shows "length s'' < length s"
proof -
  have s': "s' = skip s" "deref s' \<noteq> 0" using assms(1) by (auto simp: peek_def Let_def)
  have "skip s' = s'" unfolding s'(1) by simp
  with assms(2) s'(2) have "t \<noteq> 0" by (auto simp: gettoken_def Let_def split: if_splits)
  with gettoken_le [OF assms(2)] s'(1) skip_le [of s] show ?thesis by simp
qed

lemma parseredirs_le: "parseredirs n f s = Ok (g, s') \<Longrightarrow> length s' \<le> length s"
proof (induction n arbitrary: f s)
  case (Suc n)
  from Suc.prems show ?case
    by (auto simp: Let_def dest: peek_le peek_gettoken gettoken_le dest!: Suc.IH split: prod.splits if_splits)
      (meson dual_order.trans gettoken_le less_imp_le peek_gettoken)
qed simp

text \<open>A command, or one of the messages of the parser.\<close>

definition ends :: "'a res \<Rightarrow> bool" where
  "ends m \<longleftrightarrow> (case m of
      Ok _ \<Rightarrow> True
    | Panic e \<Rightarrow> e \<in> {''syntax'', ''parseblock'', ''syntax - missing )'', ''too many args'',
        ''missing file for redirection''}
    | _ \<Rightarrow> False)"

lemma ends_simps [simp]:
  "ends (Ok x)" "ends (Panic ''syntax'')" "ends (Panic ''parseblock'')" "ends (Panic ''syntax - missing )'')"
  "ends (Panic ''too many args'')" "ends (Panic ''missing file for redirection'')"
  by (simp_all add: ends_def)

lemma ends_bindR [intro]: "ends m \<Longrightarrow> (\<And>x. m = Ok x \<Longrightarrow> ends (f x)) \<Longrightarrow> ends (bindR m f)"
  by (cases m) (auto simp: ends_def)

lemma parseredirs_total: "length s < n \<Longrightarrow> ends (parseredirs n f s)"
proof (induction n arbitrary: f s)
  case (Suc n)
  have "length s3 < n" if "peek s [60, 62] = (True, s1)" "gettoken s1 = (tok, v, s2)" "gettoken s2 = (t, w, s3)"
    for s1 tok v s2 t w s3
    using peek_gettoken [OF that(1,2)] gettoken_le [OF that(3)] Suc.prems by linarith
  with Suc.IH show ?case by (auto simp: Let_def split: prod.splits)
qed simp

lemma parseargs_cases:
  assumes "parseargs n argv f s = Ok (c, s')"
  obtains (stop) "length s' \<le> length s" "c = f (EXEC argv)" "s' = skip s"
  | (more) m w s2 g s3 where "n = Suc m" "gettoken (skip s) = (97, w, s2)" "length s2 \<le> length s"
      "parseredirs (Suc (length s2)) f s2 = Ok (g, s3)" "parseargs m (argv @ [w]) g s3 = Ok (c, s')"
proof -
  obtain b where b: "peek s [124, 41, 38, 59] = (b, skip s)" by (simp add: peek_def Let_def)
  obtain tok w s2 where g: "gettoken (skip s) = (tok, w, s2)" by (cases "gettoken (skip s)") auto
  have le: "length s2 \<le> length s" using skip_le [of s] gettoken_le [OF g] by simp
  have e: "parseargs n argv f s = (if b then Ok (f (EXEC argv), skip s)
      else if tok = 0 then Ok (f (EXEC argv), s2) else if tok \<noteq> 97 then Panic ''syntax''
      else case n of 0 \<Rightarrow> Panic ''too many args''
        | Suc m \<Rightarrow> bindR (parseredirs (Suc (length s2)) f s2) (\<lambda>(f, s). parseargs m (argv @ [w]) f s))"
    by (subst parseargs.simps) (simp add: b g)
  have z: "s2 = skip s" if "tok = 0"
    using g that by (auto simp: gettoken_def Let_def split: if_splits)
  consider "b \<or> tok = 0" | "\<not> b" "tok \<noteq> 0" by blast
  then show thesis
  proof cases
    case 1
    with assms have "c = f (EXEC argv)" "s' = skip s" unfolding e using z by (auto split: if_splits)
    then show ?thesis using skip_le [of s] stop by simp
  next
    case 2
    with assms obtain m g s3 where "tok = 97" "n = Suc m" "parseredirs (Suc (length s2)) f s2 = Ok (g, s3)"
      "parseargs m (argv @ [w]) g s3 = Ok (c, s')"
      unfolding e by (auto elim!: bindR_OkE split: if_splits nat.splits)
    with more g le show ?thesis by blast
  qed
qed

lemma parseargs_le: "parseargs n argv f s = Ok (c, s') \<Longrightarrow> length s' \<le> length s"
proof (induction n arbitrary: argv f s)
  case 0
  then show ?case by (rule parseargs_cases) auto
next
  case (Suc n)
  from Suc.prems show ?case
  proof (cases rule: parseargs_cases)
    case (more m w s2 g s3)
    then show ?thesis using Suc.IH [of "argv @ [w]" g s3] parseredirs_le [of "Suc (length s2)" f s2 g s3] by simp
  qed simp
qed

lemma parseargs_total: "ends (parseargs n argv f s)"
proof (induction n arbitrary: argv f s)
  case 0
  show ?case by (subst parseargs.simps) (simp add: split_beta Let_def)
next
  case (Suc n)
  have "ends (bindR (parseredirs (Suc (length s2)) f s2) (\<lambda>(f, s). parseargs n a f s))" for s2 a
    using parseredirs_total [of s2 "Suc (length s2)" f] Suc.IH by auto
  then show ?case by (subst parseargs.simps) (simp add: split_beta Let_def)
qed

lemma parseback_le: "parseback n c s = Ok (d, s') \<Longrightarrow> length s' \<le> length s"
proof (induction n arbitrary: c s)
  case (Suc n)
  obtain b where b: "peek s [38] = (b, skip s)" by (simp add: peek_def Let_def)
  obtain tok w s2 where g: "gettoken (skip s) = (tok, w, s2)" by (cases "gettoken (skip s)") auto
  have le: "length s2 \<le> length s" using skip_le [of s] gettoken_le [OF g] by simp
  show ?case using Suc.prems Suc.IH [of "BACK c" s2] b g le skip_le [of s] by (auto split: if_splits)
qed simp

lemma parseback_total: "length s < n \<Longrightarrow> ends (parseback n c s)"
proof (induction n arbitrary: c s)
  case (Suc n)
  have "length s2 < n" if "peek s [38] = (True, s1)" "gettoken s1 = (tok, v, s2)" for s1 tok v s2
    using peek_gettoken [OF that] Suc.prems by linarith
  with Suc.IH show ?case by (auto simp: Let_def split: prod.splits)
qed simp

declare parseredirs.simps [simp del] parseback.simps [simp del]

lemma parse_le:
  "parseline n s = Ok (c, s') \<Longrightarrow> length s' \<le> length s"
  "parsepipe n s = Ok (c, s') \<Longrightarrow> length s' \<le> length s"
  "parseblock n s = Ok (c, s') \<Longrightarrow> length s' \<le> length s"
  "parseexec n s = Ok (c, s') \<Longrightarrow> length s' \<le> length s"
proof (induction n arbitrary: c s s')
  case (Suc n)
  have t: "length s2 \<le> length s" if "gettoken (skip s) = (tok, w, s2)" for tok w s s2
    using skip_le [of s] gettoken_le [OF that] by simp
  {
    case 1
    then show ?case
      by (auto simp: Let_def peek_def elim!: bindR_OkE dest!: t parseback_le Suc(1,2) intro!: le_trans [OF skip_le]
          split: if_splits prod.splits)
  next
    case 2
    then show ?case
      by (auto simp: Let_def peek_def elim!: bindR_OkE dest!: t Suc(2,4) intro!: le_trans [OF skip_le]
          split: if_splits prod.splits)
  next
    case 3
    then show ?case
      by (auto simp: Let_def peek_def elim!: bindR_OkE dest!: t parseredirs_le Suc(1) split: if_splits prod.splits)
  next
    case 4
    then show ?case using skip_le [of s]
      by (auto simp: Let_def peek_def elim!: bindR_OkE dest!: parseredirs_le parseargs_le Suc(3)
          split: if_splits prod.splits)
  }
qed simp_all

lemma parse_total:
  "4 * length s + 4 \<le> n \<Longrightarrow> ends (parseline n s)"
  "4 * length s + 3 \<le> n \<Longrightarrow> ends (parsepipe n s)"
  "4 * length s + 1 \<le> n \<Longrightarrow> ends (parseblock n s)"
  "4 * length s + 2 \<le> n \<Longrightarrow> ends (parseexec n s)"
proof (induction n arbitrary: s)
  case (Suc n)
  {
    case 1
    have "4 * length s3 + 4 \<le> n"
      if "parsepipe n s = Ok (c, s1)" "parseback (Suc (length s1)) c s1 = Ok (d, s2)" "peek s2 [59] = (True, s')"
        "gettoken s' = (t, w, s3)" for c s1 d s2 s' t w s3
      using parse_le(2) [OF that(1)] parseback_le [OF that(2)] peek_gettoken [OF that(3,4)] 1 by simp
    with 1 Suc(1,2) parseback_total show ?case
      by (auto simp: Let_def intro!: ends_bindR split: prod.splits)
  next
    case 2
    have "4 * length s3 + 3 \<le> n"
      if "parseexec n s = Ok (c, s1)" "peek s1 [124] = (True, s')" "gettoken s' = (t, w, s3)" for c s1 s' t w s3
      using parse_le(4) [OF that(1)] peek_gettoken [OF that(2,3)] 2 by simp
    with 2 Suc(2,4) show ?case by (auto simp: Let_def intro!: ends_bindR split: prod.splits)
  next
    case 3
    have "4 * length s3 + 4 \<le> n" if "peek s [40] = (True, s')" "gettoken s' = (t, w, s3)" for s' t w s3
      using peek_gettoken [OF that] 3 by simp
    with Suc(1) parseredirs_total show ?case by (auto simp: Let_def intro!: ends_bindR split: prod.splits)
  next
    case 4
    have "4 * length s' + 1 \<le> n" if "peek s [40] = (b, s')" for b s'
      using peek_le [OF that] 4 by simp
    with Suc(3) parseredirs_total parseargs_total show ?case
      by (auto simp: Let_def intro!: ends_bindR split: prod.splits)
  }
qed simp_all

text \<open>
  C19. The parser comes to an end on every line: with a command, or in one of its error messages.
\<close>

theorem parsecmd_terminates:
  "(\<exists>c buf. parsecmd line = Ok (c, buf)) \<or>
   (\<exists>m. parsecmd line = Panic m \<and> m \<in> {''syntax'', ''parseblock'', ''syntax - missing )'', ''too many args'',
      ''missing file for redirection''})"
proof -
  have "ends (parsecmd line)"
    unfolding parsecmd_def using parse_total(1) [of line "4 * length line + 4"]
    by (intro ends_bindR) (auto simp: Let_def split: prod.splits)
  then show ?thesis by (cases "parsecmd line") (auto simp: ends_def)
qed

subsection \<open>The words of a command\<close>

definition word_at :: "uchar list \<Rightarrow> word_ptr \<Rightarrow> bool" where
  "word_at line w \<longleftrightarrow> (\<exists>v. fst w = v @ snd w \<and> v \<noteq> [] \<and> (\<forall>c \<in> set v. \<not> ws c \<and> \<not> symb c) \<and>
     (snd w = [] \<or> ws (hd (snd w)) \<or> symb (hd (snd w))) \<and> suffix (fst w) line)"

lemma suffix_skip: "suffix (skip s) s"
  by (simp add: skip_def suffix_dropWhile)

lemma word_end_split: "\<exists>v. s = v @ word_end s \<and> (\<forall>c \<in> set v. \<not> ws c \<and> \<not> symb c) \<and>
    (word_end s = [] \<or> ws (hd (word_end s)) \<or> symb (hd (word_end s)))"
proof -
  let ?P = "\<lambda>c. \<not> ws c \<and> \<not> symb c"
  have "s = takeWhile ?P s @ word_end s" by (simp add: word_end_def)
  moreover have "\<forall>c \<in> set (takeWhile ?P s). ?P c" using set_takeWhileD by fast
  moreover have "word_end s = [] \<or> \<not> ?P (hd (word_end s))" using hd_dropWhile [of ?P s] by (auto simp: word_end_def)
  ultimately show ?thesis by blast
qed

lemma gettoken_suffix: "gettoken s = (t, w, s') \<Longrightarrow> suffix s' s"
proof -
  assume g: "gettoken s = (t, w, s')"
  have "suffix (skip (drop n (skip s))) s" for n
    by (meson suffix_drop suffix_order.trans suffix_skip)
  moreover have "suffix (skip (word_end (skip s))) s"
    by (metis suffix_def suffix_order.trans suffix_skip word_end_split)
  moreover have "suffix (skip s) s" by (rule suffix_skip)
  ultimately show ?thesis using g by (auto simp: gettoken_def Let_def split: if_splits)
qed

lemma gettoken_word:
  assumes "gettoken s = (97, w, s')" and "suffix s line"
  shows "word_at line w"
proof -
  have w: "w = (skip s, word_end (skip s))" "deref (skip s) \<noteq> 0" "\<not> symb (deref (skip s))"
    using assms(1) by (auto simp: gettoken_def Let_def symb_def symbols_def split: if_splits)
  obtain c r where c: "skip s = c # r" using w(2) by (cases "skip s") (auto simp: deref_def)
  obtain v where v: "skip s = v @ word_end (skip s)" "\<forall>c \<in> set v. \<not> ws c \<and> \<not> symb c"
    "word_end (skip s) = [] \<or> ws (hd (word_end (skip s))) \<or> symb (hd (word_end (skip s)))"
    using word_end_split by blast
  have "word_end (skip s) \<noteq> skip s"
    using word_end_less [of c r] skip_hd [OF c] w(3) c by (auto simp: deref_def)
  with v(1) have "v \<noteq> []" by auto
  moreover have "suffix (skip s) line" using suffix_skip assms(2) suffix_order.trans by blast
  ultimately show ?thesis using v by (auto simp: word_at_def w(1))
qed

text \<open>How a command is wrapped keeps a set of words.\<close>

definition wraps :: "uchar list \<Rightarrow> (word_ptr cmd \<Rightarrow> word_ptr cmd) \<Rightarrow> bool" where
  "wraps line f \<longleftrightarrow> (\<forall>c. (\<forall>w \<in> set_cmd c. word_at line w) \<longrightarrow> (\<forall>w \<in> set_cmd (f c). word_at line w))"

lemma wraps_redircmd: "wraps line f \<Longrightarrow> word_at line w \<Longrightarrow> wraps line (\<lambda>c. redircmd tok w (f c))"
  by (auto simp: wraps_def redircmd_def)

lemma parseredirs_words:
  "parseredirs n f s = Ok (g, s') \<Longrightarrow> suffix s line \<Longrightarrow> wraps line f \<Longrightarrow> wraps line g \<and> suffix s' line"
proof (induction n arbitrary: f s)
  case (Suc n)
  obtain b where b: "peek s [60, 62] = (b, skip s)" by (simp add: peek_def Let_def)
  obtain tok v s2 where g1: "gettoken (skip s) = (tok, v, s2)" by (cases "gettoken (skip s)") auto
  obtain t w s3 where g2: "gettoken s2 = (t, w, s3)" by (cases "gettoken s2") auto
  have l: "suffix (skip s) line" using suffix_skip Suc.prems(2) by (rule suffix_order.trans)
  have l2: "suffix s2 line" using gettoken_suffix [OF g1] l by (rule suffix_order.trans)
  have l3: "suffix s3 line" using gettoken_suffix [OF g2] l2 by (rule suffix_order.trans)
  have p: "(if b then if t \<noteq> 97 then Panic ''missing file for redirection''
      else parseredirs n (\<lambda>c. redircmd tok w (f c)) s3 else Ok (f, skip s)) = Ok (g, s')"
    using Suc.prems(1) by (simp only: parseredirs.simps Let_def b g1 g2 prod.case)
  show ?case
  proof (cases b)
    case False
    then show ?thesis using p l Suc.prems(3) by simp
  next
    case True
    then have t: "t = 97" using p by (auto split: if_splits)
    with p True have "parseredirs n (\<lambda>c. redircmd tok w (f c)) s3 = Ok (g, s')" by simp
    moreover have "word_at line w" using gettoken_word [of s2 w s3 line] g2 t l2 by simp
    ultimately show ?thesis using Suc.IH l3 wraps_redircmd [OF Suc.prems(3)] by blast
  qed
qed (simp add: parseredirs.simps)

lemma wraps_EXEC:
  assumes "wraps line f" and "\<forall>w \<in> set argv. word_at line w" and "suffix s line"
  shows "(\<forall>w \<in> set_cmd (f (EXEC argv)). word_at line w) \<and> suffix (skip s) line"
proof
  show "\<forall>w \<in> set_cmd (f (EXEC argv)). word_at line w"
    using assms(2) by (intro assms(1) [unfolded wraps_def, THEN spec, THEN mp]) simp
  show "suffix (skip s) line" by (rule suffix_order.trans [OF suffix_skip assms(3)])
qed

lemma parseargs_words:
  "parseargs n argv f s = Ok (c, s') \<Longrightarrow> suffix s line \<Longrightarrow> wraps line f \<Longrightarrow> \<forall>w \<in> set argv. word_at line w \<Longrightarrow>
   (\<forall>w \<in> set_cmd c. word_at line w) \<and> suffix s' line"
proof (induction n arbitrary: argv f s)
  case 0
  from 0(1) show ?case
    by (cases rule: parseargs_cases) (use 0(2-4) wraps_EXEC [of line f argv s] in simp_all)
next
  case (Suc n)
  from Suc.prems(1) show ?case
  proof (cases rule: parseargs_cases)
    case stop
    then show ?thesis using Suc.prems(2-4) wraps_EXEC [of line f argv s] by simp
  next
    case (more m w s2 g s3)
    have l: "suffix (skip s) line" using suffix_skip Suc.prems(2) by (rule suffix_order.trans)
    have l2: "suffix s2 line" using gettoken_suffix [OF more(2)] l by (rule suffix_order.trans)
    have g: "wraps line g \<and> suffix s3 line" by (rule parseredirs_words [OF more(4) l2 Suc.prems(3)])
    have "word_at line w" by (rule gettoken_word [OF more(2) l])
    with g more Suc.prems(4) Suc.IH [of "argv @ [w]" g s3] show ?thesis by auto
  qed
qed

lemma parseback_words:
  "parseback n c s = Ok (d, s') \<Longrightarrow> suffix s line \<Longrightarrow> set_cmd d = set_cmd c \<and> suffix s' line"
proof (induction n arbitrary: c s)
  case (Suc n)
  obtain b where b: "peek s [38] = (b, skip s)" by (simp add: peek_def Let_def)
  obtain tok w s2 where g: "gettoken (skip s) = (tok, w, s2)" by (cases "gettoken (skip s)") auto
  have l: "suffix (skip s) line" using suffix_skip Suc.prems(2) by (rule suffix_order.trans)
  have l2: "suffix s2 line" using gettoken_suffix [OF g] l by (rule suffix_order.trans)
  show ?case using Suc.prems Suc.IH [of "BACK c" s2] b g l l2 by (auto simp: parseback.simps split: if_splits)
qed (simp add: parseback.simps)

lemma parseback_imp: "parseback n c s = Ok (d, s') \<Longrightarrow> suffix s line \<longrightarrow> set_cmd d = set_cmd c \<and> suffix s' line"
  using parseback_words by blast

lemma parse_words_imp:
  "parseline n s = Ok (c, s') \<Longrightarrow> suffix s line \<longrightarrow> (\<forall>w \<in> set_cmd c. word_at line w) \<and> suffix s' line"
  "parsepipe n s = Ok (c, s') \<Longrightarrow> suffix s line \<longrightarrow> (\<forall>w \<in> set_cmd c. word_at line w) \<and> suffix s' line"
  "parseblock n s = Ok (c, s') \<Longrightarrow> suffix s line \<longrightarrow> (\<forall>w \<in> set_cmd c. word_at line w) \<and> suffix s' line"
  "parseexec n s = Ok (c, s') \<Longrightarrow> suffix s line \<longrightarrow> (\<forall>w \<in> set_cmd c. word_at line w) \<and> suffix s' line"
proof (induction n arbitrary: c s s')
  case (Suc n)
  have t: "suffix s line \<longrightarrow> suffix s2 line" if "gettoken (skip s) = (tok, w, s2)" for tok w s s2
    using gettoken_suffix [OF that(1)] suffix_skip by (meson suffix_order.trans)
  have k: "suffix s line \<Longrightarrow> suffix (skip s) line" for s
    by (rule suffix_order.trans [OF suffix_skip])
  have r: "suffix s line \<longrightarrow> wraps line g \<and> suffix s' line" if "parseredirs m (\<lambda>c. c) s = Ok (g, s')" for m g s s'
    using parseredirs_words [OF that] by (auto simp: wraps_def)
  have a: "suffix s line \<and> wraps line f \<longrightarrow> (\<forall>w \<in> set_cmd c. word_at line w) \<and> suffix s' line"
    if "parseargs m [] f s = Ok (c, s')" for m f s c s'
    using parseargs_words [OF that] by auto
  have w: "wraps line f \<Longrightarrow> \<forall>w \<in> set_cmd c. word_at line w \<Longrightarrow> \<forall>w \<in> set_cmd (f c). word_at line w" for f c
    by (simp add: wraps_def)
  {
    case 1
    then show ?case
      by (auto simp: Let_def peek_def k elim!: bindR_OkE dest!: t Suc(1,2) parseback_imp [where line = line]
          split: if_splits prod.splits)
  next
    case 2
    then show ?case
      by (auto simp: Let_def peek_def k elim!: bindR_OkE dest!: t Suc(2,4) split: if_splits prod.splits)
  next
    case 3
    then show ?case
      by (auto simp: Let_def peek_def k elim!: bindR_OkE dest!: t r Suc(1) split: if_splits prod.splits)
        (use w in blast)
  next
    case 4
    then show ?case
      by (auto simp: Let_def peek_def k elim!: bindR_OkE dest!: r a Suc(3) split: if_splits prod.splits)
  }
qed simp_all

lemma nulterminate_length [simp]: "length (nulterminate line c buf) = length buf"
proof (induction c arbitrary: buf)
  case (EXEC argv)
  show ?case by (simp, induction argv arbitrary: buf) (simp_all add: terminate_def)
qed (simp_all add: terminate_def)

lemma fold_terminate_nth:
  "i < length buf \<Longrightarrow> fold (terminate line) vs buf ! i =
     (if \<exists>w \<in> set vs. i = length line - length (snd w) then 0 else buf ! i)"
  by (induction vs arbitrary: buf) (auto simp: terminate_def nth_list_update_if)

lemma nulterminate_nth:
  "i < length buf \<Longrightarrow> nulterminate line c buf ! i =
     (if \<exists>w \<in> set_cmd c. i = length line - length (snd w) then 0 else buf ! i)"
proof (induction c arbitrary: buf)
  case (EXEC argv)
  then show ?case by (simp add: fold_terminate_nth)
next
  case (REDIR c w m f)
  then show ?case by (auto simp: terminate_def nth_list_update_if)
qed auto

lemma cstr_zero: "0 \<notin> set v \<Longrightarrow> cstr (v @ 0 # xs) = v"
  by (induction v) auto

text \<open>A null byte is never put into a word.\<close>

lemma word_end_outside:
  assumes w: "word_at line w" and v: "word_at line v" and i: "length (snd w) < i" "i \<le> length (fst w)"
  shows "length line - i \<noteq> length line - length (snd v)"
proof
  assume e: "length line - i = length line - length (snd v)"
  obtain x where x: "fst w = x @ snd w" "\<forall>c \<in> set x. \<not> ws c \<and> \<not> symb c" and sw: "suffix (fst w) line"
    using w by (auto simp: word_at_def)
  obtain y where y: "snd v = [] \<or> ws (hd (snd v)) \<or> symb (hd (snd v))" "fst v = y @ snd v" and sv: "suffix (fst v) line"
    using v by (auto simp: word_at_def)
  obtain p where p: "line = p @ x @ snd w" using sw x(1) by (auto simp: suffix_def)
  obtain q where q: "line = q @ snd v" using sv y(2) by (auto simp: suffix_def)
  have n: "length line = length q + length (snd v)" "length line = length p + length (fst w)"
    unfolding x(1) by (metis q length_append, metis p length_append)
  have l: "i = length (snd v)" using e i n by linarith
  then have ne: "snd v \<noteq> []" using i by auto
  have "line ! length q = hd (snd v)" using q ne by (simp add: nth_append hd_conv_nth)
  moreover have "length q = length p + (length (fst w) - i)" using n l i by linarith
  moreover have "line ! (length p + j) \<in> set x" if "j < length x" for j
    using p that by (simp add: nth_append)
  moreover have "length (fst w) - i < length x" using i x(1) by simp
  ultimately show False using y(1) ne x(2) by metis
qed

text \<open>
  C20. When \<open>parsecmd\<close> succeeds, every word of the command is a string of the buffer: read from the word's
  first byte up to the null byte that \<open>nulterminate\<close> wrote, it is exactly the token that was scanned, a
  nonempty run of bytes of the line without blanks and symbols.
\<close>

theorem parsecmd_words:
  assumes "parsecmd line = Ok (c, buf)" and "0 \<notin> set line" and "w \<in> set_cmd c"
  shows "\<exists>v. fst w = v @ snd w \<and> suffix (fst w) line \<and> v \<noteq> [] \<and> (\<forall>x \<in> set v. \<not> ws x \<and> \<not> symb x) \<and>
    cstr (drop (length line - length (fst w)) buf) = v"
proof -
  obtain s where "parseline (4 * length line + 4) line = Ok (c, s)" and buf: "buf = nulterminate line c (line @ [0])"
    using assms(1) by (auto simp: parsecmd_def Let_def elim!: bindR_OkE split: if_splits prod.splits)
  then have words: "\<forall>w \<in> set_cmd c. word_at line w" using parse_words_imp(1) by blast
  then have w: "word_at line w" using assms(3) by blast
  then obtain v p where v: "fst w = v @ snd w" "v \<noteq> []" "\<forall>x \<in> set v. \<not> ws x \<and> \<not> symb x" "line = p @ v @ snd w"
    and sw: "suffix (fst w) line" by (auto simp: word_at_def suffix_def)
  have l: "length buf = Suc (length line)" by (simp add: buf)
  have "buf ! (length p + i) = v ! i" if i: "i < length v" for i
  proof -
    have e: "length p + i = length line - (length (fst w) - i)" using v(1,4) i by simp
    have "length p + i \<noteq> length line - length (snd u)" if "u \<in> set_cmd c" for u
      unfolding e using words that v(1) i by (intro word_end_outside [OF w]) auto
    then show ?thesis using i v(4) by (simp add: buf nulterminate_nth nth_append)
  qed
  then have tk: "take (length v) (drop (length p) buf) = v"
    using l v(4) by (intro nth_equalityI) simp_all
  have "buf ! (length p + length v) = 0"
    using v(4) assms(3) by (auto simp: buf nulterminate_nth)
  then have z: "drop (length p) buf ! length v = 0" using l v(4) by simp
  have "drop (length p) buf = take (length v) (drop (length p) buf) @ drop (length p) buf ! length v #
      drop (Suc (length v)) (drop (length p) buf)"
    by (rule id_take_nth_drop) (use l v(4) in simp)
  then have "drop (length p) buf = v @ 0 # drop (Suc (length v)) (drop (length p) buf)" unfolding tk z .
  moreover have "0 \<notin> set v" using assms(2) v(4) by auto
  ultimately have "cstr (drop (length p) buf) = v" by (metis cstr_zero)
  moreover have "length p = length line - length (fst w)" using v(1,4) by simp
  ultimately show ?thesis using v(1-3) sw by metis
qed

theorem parsecmd_words_witness:
  "\<exists>c buf. parsecmd [108, 115, 62, 102] = Ok (c, buf) \<and> ([102], []) \<in> set_cmd c \<and> cstr (drop 3 buf) = [102]"
proof -
  let ?l = "[108, 115, 62, 102] :: uchar list"
  have p: "parsecmd ?l = Ok (REDIR (EXEC [(?l, [62, 102])]) ([102], []) 513 1, [108, 115, 0, 102, 0])"
    by code_simp
  from parsecmd_words [OF p, of "([102], [])"] have "cstr (drop 3 [108, 115, 0, 102, 0 :: uchar]) = [102]"
    by simp
  with p show ?thesis by (intro exI conjI) (rule p, simp_all)
qed

subsection \<open>Printing and parsing\<close>

text \<open>
  A command as a line, with parentheses around every part that is not a simple command. Words are nonempty
  and have no blanks, symbols or null bytes; a simple command has at most nine of them.
\<close>

definition word_ok :: "uchar list \<Rightarrow> bool" where
  "word_ok w \<longleftrightarrow> w \<noteq> [] \<and> (\<forall>c \<in> set w. \<not> ws c \<and> \<not> symb c \<and> c \<noteq> 0)"

primrec cmd_ok :: "uchar list cmd \<Rightarrow> bool" where
  "cmd_ok (EXEC argv) \<longleftrightarrow> length argv < MAXARGS \<and> list_all word_ok argv"
| "cmd_ok (REDIR c w m f) \<longleftrightarrow> cmd_ok c \<and> word_ok w \<and> ((m, f) = (0, 0) \<or> (m, f) = (0x201, 1))"
| "cmd_ok (PIPE l r) \<longleftrightarrow> cmd_ok l \<and> cmd_ok r"
| "cmd_ok (LIST l r) \<longleftrightarrow> cmd_ok l \<and> cmd_ok r"
| "cmd_ok (BACK c) \<longleftrightarrow> cmd_ok c"

primrec show_cmd :: "uchar list cmd \<Rightarrow> uchar list" where
  "show_cmd (EXEC argv) = concat (map (\<lambda>w. w @ [32]) argv)"
| "show_cmd (REDIR c w m f) = 40 # show_cmd c @ 41 # (if f = 0 then 60 else 62) # w @ [32]"
| "show_cmd (PIPE l r) = 40 # show_cmd l @ 41 # 124 # 40 # show_cmd r @ [41]"
| "show_cmd (LIST l r) = 40 # show_cmd l @ 41 # 59 # 40 # show_cmd r @ [41]"
| "show_cmd (BACK c) = 40 # show_cmd c @ [41, 38]"

definition text_of :: "word_ptr \<Rightarrow> uchar list" where
  "text_of w = take (length (fst w) - length (snd w)) (fst w)"

lemma text_of_simps [simp]: "text_of (v @ r, r) = v"
  by (simp add: text_of_def)

lemma char_classes [simp]:
  "ws 32" "\<not> ws 40" "\<not> ws 41" "\<not> ws 60" "\<not> ws 62" "\<not> ws 124" "\<not> ws 59" "\<not> ws 38"
  "symb 40" "symb 41" "symb 60" "symb 62" "symb 124" "symb 59" "symb 38"
  by (simp_all add: ws_def symb_def whitespace_def symbols_def)

lemma skip_word: "word_ok w \<Longrightarrow> skip (w @ s) = w @ s"
  by (cases w) (auto simp: word_ok_def skip_simps)

lemma gettoken_word_ok:
  assumes "word_ok w" and "ws c \<or> symb c"
  shows "gettoken (w @ c # s) = (97, (w @ c # s, c # s), skip (c # s))"
proof -
  have "word_end (w @ c # s) = c # s"
    using assms by (auto simp: word_end_def word_ok_def intro: dropWhile_append2 [THEN trans])
  moreover have "deref (w @ c # s) \<noteq> 0" "\<not> symb (deref (w @ c # s))"
    using assms(1) by (cases w; auto simp: word_ok_def deref_def)+
  moreover have "\<not> symb x \<longleftrightarrow> \<not> (x = 124 \<or> x = 40 \<or> x = 41 \<or> x = 59 \<or> x = 38 \<or> x = 60) \<and> x \<noteq> 62" for x
    by (auto simp: symb_def symbols_def)
  ultimately show ?thesis using skip_word [OF assms(1)] by (simp add: gettoken_def Let_def)
qed

lemma gettoken_symbols [simp]:
  "gettoken (40 # s) = (40, (40 # s, s), skip s)" "gettoken (41 # s) = (41, (41 # s, s), skip s)"
  "gettoken (124 # s) = (124, (124 # s, s), skip s)" "gettoken (59 # s) = (59, (59 # s, s), skip s)"
  "gettoken (38 # s) = (38, (38 # s, s), skip s)" "gettoken (60 # s) = (60, (60 # s, s), skip s)"
  by (simp_all add: gettoken_def skip_simps deref_def)

lemma gettoken_gt: "deref s \<noteq> 62 \<Longrightarrow> gettoken (62 # s) = (62, (62 # s, s), skip s)"
  by (simp add: gettoken_def skip_simps deref_def)

lemma peek_Cons: "\<not> ws c \<Longrightarrow> peek (c # s) toks = (c \<noteq> 0 \<and> strchr toks c \<noteq> None, c # s)"
  by (simp add: peek_def skip_simps deref_def)

lemma peek_Nil: "peek [] toks = (False, [])"
  by (simp add: peek_def skip_simps deref_def)

text \<open>What follows a command inside parentheses, or at the end of the line.\<close>

definition closed :: "uchar list \<Rightarrow> bool" where
  "closed s \<longleftrightarrow> s = [] \<or> hd s = 41"

lemma closed_cases: "closed s \<Longrightarrow> (s = [] \<Longrightarrow> P) \<Longrightarrow> (\<And>r. s = 41 # r \<Longrightarrow> P) \<Longrightarrow> P"
  by (cases s) (auto simp: closed_def)

lemma show_cmd_skip: "cmd_ok c \<Longrightarrow> closed s \<Longrightarrow> skip (show_cmd c @ s) = show_cmd c @ s"
proof (cases c)
  case (EXEC argv)
  assume "cmd_ok c" "closed s"
  with EXEC show ?thesis by (cases argv) (auto simp: skip_word elim!: closed_cases simp: skip_simps)
qed (simp_all add: skip_simps)

definition plain :: "uchar list \<Rightarrow> bool" where
  "plain s \<longleftrightarrow> skip s = s \<and> deref s \<noteq> 60 \<and> deref s \<noteq> 62"

lemma parseredirs_plain: "plain s \<Longrightarrow> parseredirs (Suc n) f s = Ok (f, s)"
  by (simp add: parseredirs.simps plain_def peek_def Let_def)

lemma plain_simps [simp]:
  "plain (40 # s)" "plain (41 # s)" "plain (124 # s)" "plain (59 # s)" "plain (38 # s)" "plain []"
  by (simp_all add: plain_def skip_simps deref_def)

lemma plain_closed: "closed s \<Longrightarrow> plain s"
  by (auto elim!: closed_cases)

lemma word_first: "word_ok w \<Longrightarrow> \<not> ws (deref (w @ s)) \<and> \<not> symb (deref (w @ s)) \<and> deref (w @ s) \<noteq> 0"
  by (cases w) (auto simp: word_ok_def deref_def)

lemma plain_show: "cmd_ok c \<Longrightarrow> closed s \<Longrightarrow> plain (show_cmd c @ s)"
proof (cases c)
  case (EXEC argv)
  assume c: "cmd_ok c" "closed s"
  show ?thesis
  proof (cases argv)
    case (Cons w vs)
    with c EXEC word_first [of w] show ?thesis
      by (auto simp: plain_def skip_word symb_def symbols_def)
  qed (use c EXEC plain_closed in simp)
qed simp_all

lemma parseargs_show:
  assumes "list_all word_ok vs" and "length argv + length vs \<le> 9" and "closed s"
  shows "\<exists>ps. parseargs (9 - length argv) argv f (show_cmd (EXEC vs) @ s) = Ok (f (EXEC (argv @ ps)), s) \<and>
    map text_of ps = vs"
  using assms
proof (induction vs arbitrary: argv)
  case Nil
  from Nil.prems(3) have "parseargs (9 - length argv) argv f s = Ok (f (EXEC argv), s)"
    by (subst parseargs.simps)
      (auto elim!: closed_cases simp: peek_Nil peek_Cons gettoken_def Let_def skip_simps deref_def)
  then show ?case by (intro exI [of _ "[]"]) simp
next
  case (Cons v vs)
  let ?R = "show_cmd (EXEC vs) @ s" and ?w = "(v @ 32 # show_cmd (EXEC vs) @ s, 32 # show_cmd (EXEC vs) @ s)"
  have v: "word_ok v" and ok: "cmd_ok (EXEC vs)" using Cons.prems(1,2) by simp_all
  have R: "skip ?R = ?R" by (rule show_cmd_skip [OF ok Cons.prems(3)])
  have p: "peek (v @ 32 # ?R) [124, 41, 38, 59] = (False, v @ 32 # ?R)"
    using word_first [OF v, of "32 # ?R"] by (auto simp: peek_def skip_word [OF v] symb_def symbols_def)
  have g: "gettoken (v @ 32 # ?R) = (97, ?w, ?R)"
    using gettoken_word_ok [OF v, of 32 ?R] R by (simp add: skip_simps)
  obtain m where m: "9 - length argv = Suc m" "m = 9 - length (argv @ [?w])"
    using Cons.prems(2) by (cases "9 - length argv") auto
  have "parseargs (9 - length argv) argv f (v @ 32 # ?R) = parseargs m (argv @ [?w]) f ?R"
    unfolding m(1) by (subst parseargs.simps) (simp add: p g parseredirs_plain plain_show [OF ok Cons.prems(3)] del: show_cmd.simps)
  moreover obtain ps where "parseargs m (argv @ [?w]) f ?R = Ok (f (EXEC ((argv @ [?w]) @ ps)), s)" "map text_of ps = vs"
    using Cons.IH [of "argv @ [?w]"] Cons.prems m(2) by auto
  ultimately show ?case by (intro exI [of _ "?w # ps"]) simp
qed

lemma parseexec_block:
  assumes line: "\<And>m. 4 * length (show_cmd c @ 41 # R) + 4 \<le> m \<Longrightarrow>
      \<exists>pc. parseline m (show_cmd c @ 41 # R) = Ok (pc, 41 # R) \<and> map_cmd text_of pc = c"
    and n: "4 * length (40 # show_cmd c @ 41 # R) + 2 \<le> n" and ok: "cmd_ok c"
  shows "\<exists>pc. map_cmd text_of pc = c \<and> parseexec n (40 # show_cmd c @ 41 # R) =
    bindR (parseredirs (Suc (length (skip R))) (\<lambda>c. c) (skip R)) (\<lambda>(f, s). Ok (f pc, s))"
proof -
  obtain m where m: "n = Suc (Suc m)" "4 * length (show_cmd c @ 41 # R) + 4 \<le> m"
    using n by (cases n; cases "n - 1") auto
  obtain pc where "parseline m (show_cmd c @ 41 # R) = Ok (pc, 41 # R)" "map_cmd text_of pc = c"
    using line [OF m(2)] by blast
  moreover have "skip (show_cmd c @ 41 # R) = show_cmd c @ 41 # R"
    using ok by (rule show_cmd_skip) (simp add: closed_def)
  ultimately show ?thesis by (intro exI [of _ pc]) (simp add: m(1) peek_Cons)
qed

lemma parseback_plain: "skip s = s \<Longrightarrow> deref s \<noteq> 38 \<Longrightarrow> parseback (Suc n) c s = Ok (c, s)"
  by (simp add: parseback.simps peek_def Let_def)

text \<open>The last steps of \<open>parseline\<close> and \<open>parsepipe\<close> before a closing parenthesis.\<close>

lemma closed_stops:
  assumes "closed s"
  shows "peek s [59] = (False, s)" "peek s [124] = (False, s)" "parseback (Suc n) c s = Ok (c, s)" "skip s = s"
  using assms by (auto elim!: closed_cases simp: peek_Nil peek_Cons skip_simps deref_def intro!: parseback_plain)

definition parses :: "uchar list cmd \<Rightarrow> bool" where
  "parses c \<longleftrightarrow> (\<forall>n s. closed s \<longrightarrow> 4 * length (show_cmd c @ s) + 4 \<le> n \<longrightarrow>
     (\<exists>pc. parseline n (show_cmd c @ s) = Ok (pc, s) \<and> map_cmd text_of pc = c))"

lemma block:
  assumes "parses c" and "cmd_ok c" and "4 * length (40 # show_cmd c @ 41 # R) + 2 \<le> n"
  obtains pc where "map_cmd text_of pc = c" "parseexec n (40 # show_cmd c @ 41 # R) =
    bindR (parseredirs (Suc (length (skip R))) (\<lambda>c. c) (skip R)) (\<lambda>(f, s). Ok (f pc, s))"
  using parseexec_block [OF _ assms(3,2)] assms(1) by (force simp: parses_def closed_def)

lemma parses_EXEC: "cmd_ok (EXEC argv) \<Longrightarrow> parses (EXEC argv)"
  unfolding parses_def
proof (intro allI impI)
  fix n s
  assume ok: "cmd_ok (EXEC argv)" and s: "closed s" and "4 * length (show_cmd (EXEC argv) @ s) + 4 \<le> n"
  then obtain m where n: "n = Suc (Suc (Suc m))" by (cases n; cases "n - 1"; cases "n - 2") auto
  let ?l = "show_cmd (EXEC argv) @ s"
  have p: "plain ?l" by (rule plain_show [OF ok s])
  have "peek ?l [40] = (False, ?l)"
    using p ok s word_first [of "hd argv"]
    by (cases argv) (auto simp: plain_def peek_def symb_def symbols_def deref_def elim!: closed_cases)
  moreover obtain ps where "parseargs 9 [] (\<lambda>c. c) ?l = Ok (EXEC ps, s)" "map text_of ps = argv"
    using parseargs_show [of argv "[]" s "\<lambda>c. c"] ok s by auto
  ultimately show "\<exists>pc. parseline n ?l = Ok (pc, s) \<and> map_cmd text_of pc = EXEC argv"
    using parseredirs_plain [OF p] closed_stops [OF s]
    by (intro exI [of _ "EXEC ps"]) (simp add: n del: show_cmd.simps)
qed

lemma parses_PIPE:
  assumes "parses l" and "parses r" and "cmd_ok l" and "cmd_ok r"
  shows "parses (PIPE l r)"
  unfolding parses_def
proof (intro allI impI)
  fix n s
  assume s: "closed s" and f: "4 * length (show_cmd (PIPE l r) @ s) + 4 \<le> n"
  then obtain m where n: "n = Suc (Suc (Suc m))" by (cases n; cases "n - 1"; cases "n - 2") auto
  let ?R = "124 # 40 # show_cmd r @ 41 # s"
  obtain pl where l: "map_cmd text_of pl = l" "parseexec (Suc m) (40 # show_cmd l @ 41 # ?R) = Ok (pl, ?R)"
    using block [OF assms(1,3), of ?R "Suc m"] f n by (auto simp: skip_simps parseredirs_plain)
  obtain pr where r: "map_cmd text_of pr = r" "parseexec m (40 # show_cmd r @ 41 # s) = Ok (pr, s)"
    using block [OF assms(2,4), of s m] f n
    by (auto simp: parseredirs_plain plain_closed [OF s] closed_stops [OF s])
  show "\<exists>pc. parseline n (show_cmd (PIPE l r) @ s) = Ok (pc, s) \<and> map_cmd text_of pc = PIPE l r"
    using l r closed_stops [OF s] by (intro exI [of _ "PIPE pl pr"]) (simp add: n peek_Cons skip_simps)
qed

lemma parses_LIST:
  assumes "parses l" and "parses r" and "cmd_ok l" and "cmd_ok r"
  shows "parses (LIST l r)"
  unfolding parses_def
proof (intro allI impI)
  fix n s
  assume s: "closed s" and f: "4 * length (show_cmd (LIST l r) @ s) + 4 \<le> n"
  then obtain m where n: "n = Suc (Suc (Suc m))" by (cases n; cases "n - 1"; cases "n - 2") auto
  let ?R = "59 # 40 # show_cmd r @ 41 # s"
  obtain pl where l: "map_cmd text_of pl = l" "parseexec (Suc m) (40 # show_cmd l @ 41 # ?R) = Ok (pl, ?R)"
    using block [OF assms(1,3), of ?R "Suc m"] f n by (auto simp: skip_simps parseredirs_plain)
  obtain pr where r: "map_cmd text_of pr = r" "parseexec m (40 # show_cmd r @ 41 # s) = Ok (pr, s)"
    using block [OF assms(2,4), of s m] f n
    by (auto simp: parseredirs_plain plain_closed [OF s] closed_stops [OF s])
  have "parseback (Suc k) c ?R = Ok (c, ?R)" for k c by (rule parseback_plain) (simp_all add: skip_simps deref_def)
  then show "\<exists>pc. parseline n (show_cmd (LIST l r) @ s) = Ok (pc, s) \<and> map_cmd text_of pc = LIST l r"
    using l r closed_stops [OF s] by (intro exI [of _ "LIST pl pr"]) (simp add: n peek_Cons skip_simps)
qed

lemma parses_BACK:
  assumes "parses c" and "cmd_ok c"
  shows "parses (BACK c)"
  unfolding parses_def
proof (intro allI impI)
  fix n s
  assume s: "closed s" and f: "4 * length (show_cmd (BACK c) @ s) + 4 \<le> n"
  then obtain m where n: "n = Suc (Suc m)" by (cases n; cases "n - 1") auto
  obtain pc where l: "map_cmd text_of pc = c" "parseexec m (40 # show_cmd c @ 41 # 38 # s) = Ok (pc, 38 # s)"
    using block [OF assms, of "38 # s" m] f n by (auto simp: skip_simps parseredirs_plain)
  have "parseback (Suc (Suc k)) d (38 # s) = Ok (BACK d, s)" for k d
    using closed_stops [OF s] by (subst parseback.simps) (simp add: peek_Cons)
  then show "\<exists>pc. parseline n (show_cmd (BACK c) @ s) = Ok (pc, s) \<and> map_cmd text_of pc = BACK c"
    using l closed_stops [OF s] by (intro exI [of _ "BACK pc"]) (simp add: n peek_Cons)
qed

lemma parses_REDIR:
  assumes "parses c" and ok: "cmd_ok (REDIR c w m f)"
  shows "parses (REDIR c w m f)"
  unfolding parses_def
proof (intro allI impI)
  fix n s
  let ?o = "if f = 0 then 60 else 62 :: uchar" and ?v = "(w @ 32 # s, 32 # s)"
  assume s: "closed s" and b: "4 * length (show_cmd (REDIR c w m f) @ s) + 4 \<le> n"
  then obtain k where n: "n = Suc (Suc k)" by (cases n; cases "n - 1") auto
  have w: "word_ok w" and c: "cmd_ok c" and mf: "(m, f) = (0, 0) \<or> (m, f) = (0x201, 1)" using ok by auto
  have g: "gettoken (?o # w @ 32 # s) = (?o, (?o # w @ 32 # s, w @ 32 # s), w @ 32 # s)"
    using word_first [OF w, of "32 # s"] skip_word [OF w] gettoken_gt [of "w @ 32 # s"] by (auto simp: symb_def symbols_def)
  have h: "gettoken (w @ 32 # s) = (97, ?v, s)"
    using gettoken_word_ok [OF w, of 32 s] closed_stops [OF s] by (simp add: skip_simps)
  have p: "peek (?o # w @ 32 # s) [60, 62] = (True, ?o # w @ 32 # s)" by (simp add: peek_Cons)
  have "parseredirs (Suc (Suc j)) (\<lambda>c. c) (?o # w @ 32 # s) = Ok (\<lambda>c. redircmd ?o ?v c, s)" for j
    by (subst parseredirs.simps) (simp only: p g h Let_def prod.case parseredirs_plain [OF plain_closed [OF s]] if_True simp_thms if_False)
  moreover have "skip (?o # w @ 32 # s) = ?o # w @ 32 # s" by (simp add: skip_simps)
  ultimately obtain pc where "map_cmd text_of pc = c"
    "parseexec k (40 # show_cmd c @ 41 # ?o # w @ 32 # s) = Ok (redircmd ?o ?v pc, s)"
    using block [OF assms(1) c, of "?o # w @ 32 # s" k] b n by auto
  then show "\<exists>pc. parseline n (show_cmd (REDIR c w m f) @ s) = Ok (pc, s) \<and> map_cmd text_of pc = REDIR c w m f"
    using closed_stops [OF s] mf by (intro exI [of _ "redircmd ?o ?v pc"]) (auto simp: n redircmd_def)
qed

text \<open>
  C21. The parser inverts the printer: every command that can be written at all, printed as a line and
  parsed again, is the same command with the same words.
\<close>

theorem parsecmd_show_cmd:
  assumes "cmd_ok c"
  shows "\<exists>pc buf. parsecmd (show_cmd c) = Ok (pc, buf) \<and> map_cmd text_of pc = c"
proof -
  have "parses c" using assms
    by (induction c) (simp_all add: parses_EXEC parses_REDIR parses_PIPE parses_LIST parses_BACK)
  then obtain pc where "parseline (4 * length (show_cmd c) + 4) (show_cmd c) = Ok (pc, [])" "map_cmd text_of pc = c"
    by (force simp: parses_def closed_def)
  then show ?thesis by (simp add: parsecmd_def peek_Nil)
qed

theorem parsecmd_show_cmd_witness:
  "\<exists>pc buf. parsecmd [40, 40, 97, 32, 41, 60, 102, 32, 41, 124, 40, 98, 32, 99, 32, 41] = Ok (pc, buf) \<and>
     map_cmd text_of pc = PIPE (REDIR (EXEC [[97]]) [102] 0 0) (EXEC [[98], [99]])"
  using parsecmd_show_cmd [of "PIPE (REDIR (EXEC [[97]]) [102] 0 0) (EXEC [[98], [99]])"]
  by (simp add: word_ok_def ws_def symb_def whitespace_def symbols_def)

end
