(* ===== verification/ShRun.thy ===== *)
theory ShRun
  imports Sh
begin

section \<open>The shell runs commands: sh.c\<close>

text \<open>
  A program is a tree of system calls: each call has a continuation that takes what the call returns, the
  value and, for \<open>pipe\<close>, the two descriptors. \<open>exit\<close> ends it, \<open>exec\<close> comes back only if it
  fails, and after \<open>fork\<close> the same continuation runs in both processes. The words of a command are
  strings here, as \<open>nulterminate\<close> made them. A program that writes outside an array is \<open>Undefined\<close>, one that waits
  for a line that has not come yet is \<open>Reading\<close>. The lines come from \<open>gets\<close>, the end of the list
  being the end of the file.
\<close>

datatype call =
    CExec "uchar list" "uchar list list"
  | COpen "uchar list" int
  | CClose int
  | CDup int
  | CPipe
  | CFork
  | CWait
  | CChdir "uchar list"
  | CPrintf int "uchar list"

datatype prog = Exit | Undefined | Reading | Sys call "int \<times> int \<times> int \<Rightarrow> prog"

definition panic :: "uchar list \<Rightarrow> prog" where
  "panic s = Sys (CPrintf 2 (s @ [10])) (\<lambda>_. Exit)"

definition fork1 :: "(int \<Rightarrow> prog) \<Rightarrow> prog" where
  "fork1 k = Sys CFork (\<lambda>(pid, _). if pid = - 1 then panic (str ''fork'') else k pid)"

primrec runcmd :: "uchar list cmd \<Rightarrow> prog" where
  "runcmd (EXEC argv) =
     (if argv = [] then Exit
      else Sys (CExec (hd argv) argv) (\<lambda>_.
           Sys (CPrintf 2 (str ''exec '' @ hd argv @ str '' failed'' @ [10])) (\<lambda>_. Exit)))"
| "runcmd (REDIR c w m f) =
     Sys (CClose f) (\<lambda>_.
     Sys (COpen w m) (\<lambda>(r, _).
       if r < 0 then Sys (CPrintf 2 (str ''open '' @ w @ str '' failed'' @ [10])) (\<lambda>_. Exit)
       else runcmd c))"
| "runcmd (LIST l r) = fork1 (\<lambda>pid. if pid = 0 then runcmd l else Sys CWait (\<lambda>_. runcmd r))"
| "runcmd (PIPE l r) =
     Sys CPipe (\<lambda>(v, p0, p1).
       if v < 0 then panic (str ''pipe'')
       else
         fork1 (\<lambda>pid.
           if pid = 0 then
             Sys (CClose 1) (\<lambda>_. Sys (CDup p1) (\<lambda>_.
             Sys (CClose p0) (\<lambda>_. Sys (CClose p1) (\<lambda>_. runcmd l))))
           else
             fork1 (\<lambda>pid.
               if pid = 0 then
                 Sys (CClose 0) (\<lambda>_. Sys (CDup p0) (\<lambda>_.
                 Sys (CClose p0) (\<lambda>_. Sys (CClose p1) (\<lambda>_. runcmd r))))
               else
                 Sys (CClose p0) (\<lambda>_. Sys (CClose p1) (\<lambda>_.
                 Sys CWait (\<lambda>_. Sys CWait (\<lambda>_. Exit)))))))"
| "runcmd (BACK c) = fork1 (\<lambda>pid. if pid = 0 then runcmd c else Exit)"

text \<open>The child that runs a line. What is printed of leftovers is left out.\<close>

definition runline :: "uchar list \<Rightarrow> prog" where
  "runline buf =
     (case parsecmd buf of
        Ok (c, _) \<Rightarrow> runcmd (map_cmd text_of c)
      | Panic m \<Rightarrow> panic (str m)
      | _ \<Rightarrow> Exit)"

fun sh_loop :: "uchar list list \<Rightarrow> prog" where
  "sh_loop [] = Sys (CPrintf 2 (str ''$ '')) (\<lambda>_. Exit)"
| "sh_loop (buf # lines) =
     Sys (CPrintf 2 (str ''$ '')) (\<lambda>_.
       if buf = [] then Exit
       else if take 3 buf = str ''cd '' then
         Sys (CChdir (drop 3 (butlast buf))) (\<lambda>(r, _).
           if r < 0 then
             Sys (CPrintf 2 (str ''cannot cd '' @ drop 3 (butlast buf) @ [10])) (\<lambda>_. sh_loop lines)
           else sh_loop lines)
       else
         fork1 (\<lambda>pid. if pid = 0 then runline buf else Sys CWait (\<lambda>_. sh_loop lines)))"

text \<open>
  The first loop of \<open>main\<close>: the console is opened until a descriptor above 2 comes back. Descriptors
  are distinct, so that four rounds are enough.
\<close>

fun open_console :: "nat \<Rightarrow> prog \<Rightarrow> prog" where
  "open_console 0 k = k"
| "open_console (Suc n) k =
     Sys (COpen (str ''console'') 2) (\<lambda>(fd, _).
       if 0 \<le> fd then if 3 \<le> fd then Sys (CClose fd) (\<lambda>_. k) else open_console n k else k)"

definition sh_main :: "uchar list list \<Rightarrow> prog" where
  "sh_main lines = open_console 4 (sh_loop lines)"

subsection \<open>Descriptors\<close>

text \<open>
  What the calls do to the descriptors of a process: a new descriptor is the lowest free one, and a failing
  call changes nothing. \<open>execs p T argv T'\<close> says that a process of program \<open>p\<close>, started with the
  descriptors \<open>T\<close>, calls \<open>exec\<close> with the arguments \<open>argv\<close> and the descriptors \<open>T'\<close>.
\<close>

datatype obj = Console | File "uchar list" int | PipeR nat | PipeW nat

type_synonym fds = "nat \<rightharpoonup> obj"

definition lowest :: "fds \<Rightarrow> nat" where
  "lowest T = (LEAST n. T n = None)"

inductive execs :: "prog \<Rightarrow> fds \<Rightarrow> uchar list list \<Rightarrow> fds \<Rightarrow> bool" where
  ex_exec: "execs (Sys (CExec path argv) k) T argv T"
| ex_failed: "execs (k ans) T argv T' \<Longrightarrow> execs (Sys (CExec path argv') k) T argv T'"
| ex_open: "execs (k (int (lowest T), x)) (T(lowest T \<mapsto> File path m)) argv T' \<Longrightarrow> execs (Sys (COpen path m) k) T argv T'"
| ex_open_fails: "r < 0 \<Longrightarrow> execs (k (r, x)) T argv T' \<Longrightarrow> execs (Sys (COpen path m) k) T argv T'"
| ex_close: "execs (k ans) (T(n := None)) argv T' \<Longrightarrow> execs (Sys (CClose (int n)) k) T argv T'"
| ex_dup: "T n = Some b \<Longrightarrow> execs (k (int (lowest T), x)) (T(lowest T \<mapsto> b)) argv T' \<Longrightarrow>
    execs (Sys (CDup (int n)) k) T argv T'"
| ex_pipe: "T1 = T(lowest T \<mapsto> PipeR i) \<Longrightarrow>
    execs (k (0, int (lowest T), int (lowest T1))) (T1(lowest T1 \<mapsto> PipeW i)) argv T' \<Longrightarrow>
    execs (Sys CPipe k) T argv T'"
| ex_pipe_fails: "r < 0 \<Longrightarrow> execs (k (r, x)) T argv T' \<Longrightarrow> execs (Sys CPipe k) T argv T'"
| ex_fork: "execs (k (pid, x)) T argv T' \<Longrightarrow> execs (Sys CFork k) T argv T'"
| ex_wait: "execs (k ans) T argv T' \<Longrightarrow> execs (Sys CWait k) T argv T'"
| ex_chdir: "execs (k ans) T argv T' \<Longrightarrow> execs (Sys (CChdir path) k) T argv T'"
| ex_printf: "execs (k ans) T argv T' \<Longrightarrow> execs (Sys (CPrintf n s) k) T argv T'"

inductive_cases execs_ExitE [elim!]: "execs Exit T argv T'"
inductive_cases execs_UndefinedE [elim!]: "execs Undefined T argv T'"
inductive_cases execs_ReadingE [elim!]: "execs Reading T argv T'"
inductive_cases execs_ChdirE: "execs (Sys (CChdir path) k) T argv T'"
inductive_cases execs_ExecE: "execs (Sys (CExec path args) k) T argv T'"
inductive_cases execs_OpenE: "execs (Sys (COpen path m) k) T argv T'"
inductive_cases execs_CloseE: "execs (Sys (CClose n) k) T argv T'"
inductive_cases execs_DupE: "execs (Sys (CDup n) k) T argv T'"
inductive_cases execs_PipeE: "execs (Sys CPipe k) T argv T'"
inductive_cases execs_ForkE: "execs (Sys CFork k) T argv T'"
inductive_cases execs_WaitE: "execs (Sys CWait k) T argv T'"
inductive_cases execs_PrintfE: "execs (Sys (CPrintf n s) k) T argv T'"

text \<open>
  What a command means: which programs run, and with what descriptors 0 and 1. A redirection replaces one
  of them; in a pipeline, the output of the left command and the input of the right one are the two ends
  of a pipe.
\<close>

inductive means :: "uchar list cmd \<Rightarrow> fds \<Rightarrow> uchar list list \<Rightarrow> fds \<Rightarrow> bool" where
  m_exec: "argv \<noteq> [] \<Longrightarrow> means (EXEC argv) T argv T"
| m_redir: "means c (T(nat f \<mapsto> File w m)) argv T' \<Longrightarrow> means (REDIR c w m f) T argv T'"
| m_list1: "means l T argv T' \<Longrightarrow> means (LIST l r) T argv T'"
| m_list2: "means r T argv T' \<Longrightarrow> means (LIST l r) T argv T'"
| m_pipe1: "means l (T(1 \<mapsto> PipeW i)) argv T' \<Longrightarrow> means (PIPE l r) T argv T'"
| m_pipe2: "means r (T(0 \<mapsto> PipeR i)) argv T' \<Longrightarrow> means (PIPE l r) T argv T'"
| m_back: "means c T argv T' \<Longrightarrow> means (BACK c) T argv T'"

text \<open>Descriptors 0, 1 and 2 are open and no others.\<close>

definition standard :: "fds \<Rightarrow> bool" where
  "standard T \<longleftrightarrow> dom T = {0, 1, 2}"

lemma lowest_eq: "T n = None \<Longrightarrow> (\<And>m. m < n \<Longrightarrow> T m \<noteq> None) \<Longrightarrow> lowest T = n"
  unfolding lowest_def by (rule Least_equality) (assumption, meson not_le)

lemma standard_iff: "standard T \<longleftrightarrow> (\<forall>n. T n \<noteq> None \<longleftrightarrow> n < 3)"
proof -
  have "{0, 1, 2} = {n::nat. n < 3}" by auto
  then show ?thesis by (auto simp: standard_def dom_def set_eq_iff)
qed

lemma standard_free: "standard T \<Longrightarrow> 3 \<le> n \<Longrightarrow> T n = None"
  by (metis standard_iff not_le)

lemma lowest_standard: "standard T \<Longrightarrow> lowest T = 3"
  by (rule lowest_eq) (metis standard_iff less_irrefl, metis standard_iff)

lemma lowest_pipe: "standard T \<Longrightarrow> lowest (T(3 \<mapsto> b)) = 4"
proof (rule lowest_eq)
  assume T: "standard T"
  show "(T(3 \<mapsto> b)) 4 = None" using standard_free [OF T, of 4] by simp
  show "(T(3 \<mapsto> b)) m \<noteq> None" if "m < 4" for m
    using that T [unfolded standard_iff, rule_format, of m] by (auto simp: less_Suc_eq eval_nat_numeral)
qed

text \<open>A standard descriptor that was closed is the next one to be opened.\<close>

lemma lowest_closed: "standard T \<Longrightarrow> n < 3 \<Longrightarrow> (\<And>m. m < 3 \<Longrightarrow> U m = T m) \<Longrightarrow> lowest (U(n := None)) = n"
  by (rule lowest_eq) (simp, metis standard_iff fun_upd_other less_irrefl less_trans)

lemma standard_upd: "standard T \<Longrightarrow> n < 3 \<Longrightarrow> standard (T(n \<mapsto> b))"
  by (auto simp: standard_iff)

lemma execs_panicE [elim!]: "execs (panic s) T argv T' \<Longrightarrow> P"
  by (auto simp: panic_def elim: execs_PrintfE)

lemma execs_fork1E: "execs (fork1 k) T argv T' \<Longrightarrow> (\<And>pid. execs (k pid) T argv T' \<Longrightarrow> P) \<Longrightarrow> P"
  by (auto simp: fork1_def elim!: execs_ForkE split: if_splits)

lemma execs_CloseD: "execs (Sys (CClose (int n)) k) T argv T' \<Longrightarrow> \<exists>ans. execs (k ans) (T(n := None)) argv T'"
  by (erule execs_CloseE) auto

lemma execs_DupD:
  "execs (Sys (CDup (int n)) k) T argv T' \<Longrightarrow> T n = Some b \<Longrightarrow>
   \<exists>x. execs (k (int (lowest T), x)) (T(lowest T \<mapsto> b)) argv T'"
  by (erule execs_DupE) auto

text \<open>The redirections are of descriptors 0 and 1, as the parser makes them.\<close>

primrec redirs_ok :: "'w cmd \<Rightarrow> bool" where
  "redirs_ok (EXEC argv) \<longleftrightarrow> True"
| "redirs_ok (REDIR c w m f) \<longleftrightarrow> redirs_ok c \<and> (f = 0 \<or> f = 1)"
| "redirs_ok (PIPE l r) \<longleftrightarrow> redirs_ok l \<and> redirs_ok r"
| "redirs_ok (LIST l r) \<longleftrightarrow> redirs_ok l \<and> redirs_ok r"
| "redirs_ok (BACK c) \<longleftrightarrow> redirs_ok c"

text \<open>One side of a pipeline: descriptor \<open>n\<close> becomes an end of the pipe, both ends are closed.\<close>

lemma execs_side:
  assumes T: "standard T" and n: "n < 3" and e: "e = 3 \<or> e = 4"
    and U: "U = T(3 \<mapsto> PipeR i, 4 \<mapsto> PipeW i)"
    and run: "execs (Sys (CClose (int n)) (\<lambda>_. Sys (CDup (int e)) (\<lambda>_. Sys (CClose 3) (\<lambda>_. Sys (CClose 4) (\<lambda>_. p))))) U argv T'"
  shows "execs p (T(n \<mapsto> (if e = 3 then PipeR i else PipeW i))) argv T'"
proof -
  define b where "b = (if e = 3 then PipeR i else PipeW i)"
  have l: "lowest (U(n := None)) = n" by (rule lowest_closed [OF T n]) (simp add: U)
  have ue: "(U(n := None)) e = Some b" using n e by (auto simp: U b_def)
  from execs_CloseD [OF run]
  have "execs (Sys (CDup (int e)) (\<lambda>_. Sys (CClose (int 3)) (\<lambda>_. Sys (CClose (int 4)) (\<lambda>_. p)))) (U(n := None)) argv T'"
    by simp
  from execs_DupD [OF this ue]
  have "execs (Sys (CClose (int 3)) (\<lambda>_. Sys (CClose (int 4)) (\<lambda>_. p))) (U(n := None, n \<mapsto> b)) argv T'"
    unfolding l by (elim exE)
  then have "execs p (U(n := None, n \<mapsto> b, 3 := None, 4 := None)) argv T'"
    by (blast dest: execs_CloseD)
  moreover have "U(n := None, n \<mapsto> b, 3 := None, 4 := None) = T(n \<mapsto> b)"
    using n standard_free [OF T] by (auto simp: U fun_eq_iff)
  ultimately show ?thesis unfolding b_def by metis
qed

lemma execs_parentE:
  "execs (Sys (CClose p0) (\<lambda>_. Sys (CClose p1) (\<lambda>_. Sys CWait (\<lambda>_. Sys CWait (\<lambda>_. Exit))))) T argv T' \<Longrightarrow> P"
  by (elim execs_CloseE execs_WaitE execs_ExitE)

lemma runcmd_means:
  "standard T \<Longrightarrow> redirs_ok c \<Longrightarrow> execs (runcmd c) T argv T' \<Longrightarrow> means c T argv T' \<and> standard T'"
proof (induction c arbitrary: T)
  case (EXEC args)
  then show ?case by (auto elim!: execs_ExecE execs_PrintfE intro: m_exec split: if_splits)
next
  case (REDIR c w m f)
  obtain n where n: "f = int n" "n < 2" using REDIR.prems(2) by (cases "f = 0") (auto intro: that [of 0] that [of 1])
  have l: "lowest (T(n := None)) = n" by (rule lowest_closed [OF REDIR.prems(1)]) (use n in simp_all)
  have "execs (runcmd c) (T(n \<mapsto> File w m)) argv T'"
    using REDIR.prems(3) l unfolding n(1) runcmd.simps
    by (auto dest!: execs_CloseD elim!: execs_OpenE execs_PrintfE split: if_splits)
  moreover have "standard (T(n \<mapsto> File w m))" using standard_upd [OF REDIR.prems(1)] n(2) by simp
  ultimately have "means c (T(nat f \<mapsto> File w m)) argv T' \<and> standard T'"
    using REDIR.IH REDIR.prems(2) n(1) by simp
  then show ?case by (blast intro: m_redir)
next
  case (LIST l r)
  from LIST.prems(3) have "execs (runcmd l) T argv T' \<or> execs (runcmd r) T argv T'"
    by (auto elim!: execs_fork1E execs_WaitE split: if_splits)
  with LIST show ?case by (auto intro: m_list1 m_list2)
next
  case (BACK c)
  from BACK.prems(3) have "execs (runcmd c) T argv T'" by (auto elim!: execs_fork1E split: if_splits)
  with BACK show ?case by (auto intro: m_back)
next
  case (PIPE l r)
  note T = PIPE.prems(1)
  let ?U = "\<lambda>i. T(3 \<mapsto> PipeR i, 4 \<mapsto> PipeW i)"
  let ?side = "\<lambda>n e c. Sys (CClose (int n)) (\<lambda>_. Sys (CDup (int e)) (\<lambda>_. Sys (CClose 3) (\<lambda>_. Sys (CClose 4) (\<lambda>_. runcmd c))))"
  from PIPE.prems(3) obtain i where "execs (?side 1 4 l) (?U i) argv T' \<or> execs (?side 0 3 r) (?U i) argv T'"
    by (auto simp: lowest_standard [OF T] lowest_pipe [OF T] elim!: execs_PipeE execs_fork1E execs_parentE
        split: if_splits) blast+
  then have "execs (runcmd l) (T(1 \<mapsto> PipeW i)) argv T' \<or> execs (runcmd r) (T(0 \<mapsto> PipeR i)) argv T'"
    using execs_side [OF T, of 1 4 "?U i" i] execs_side [OF T, of 0 3 "?U i" i] by auto
  moreover have "standard (T(1 \<mapsto> PipeW i))" "standard (T(0 \<mapsto> PipeR i))" by (rule standard_upd [OF T]; simp)+
  moreover have "redirs_ok l" "redirs_ok r" using PIPE.prems(2) by simp_all
  ultimately show ?case using PIPE.IH by (blast intro: m_pipe1 m_pipe2)
qed

text \<open>
  C22. The shell wires descriptors as the command says. Started with descriptors 0, 1 and 2 open and no
  others, every process of \<open>runcmd\<close> that calls \<open>exec\<close> does it for a simple command of the line, with
  the input and output that the redirections and pipes around that command give it. It too has
  descriptors 0, 1 and 2 open and no others: no end of a pipe leaks, so that a reader sees the end
  of the file when the writer is done.
\<close>

theorem runcmd_wires:
  assumes "standard T" and "redirs_ok c" and "execs (runcmd c) T argv T'"
  shows "means c T argv T' \<and> standard T'"
  by (rule runcmd_means [OF assms])

theorem runcmd_wires_witness:
  "means (PIPE (EXEC [[97]]) (EXEC [[98]])) (\<lambda>n. if n < 3 then Some Console else None) [[98]]
     ((\<lambda>n. if n < 3 then Some Console else None)(0 \<mapsto> PipeR 7)) \<and>
   standard ((\<lambda>n. if n < 3 then Some Console else None)(0 \<mapsto> PipeR 7))"
proof -
  let ?T = "\<lambda>n::nat. if n < 3 then Some Console else None" and ?c = "PIPE (EXEC [[97]]) (EXEC [[98]]) :: uchar list cmd"
  have T: "standard ?T" by (simp add: standard_iff)
  let ?U = "?T(3 \<mapsto> PipeR 7, 4 \<mapsto> PipeW 7)"
  have l: "lowest (?U(0 := None)) = 0" by (rule lowest_eq) simp_all
  have u: "?U(0 := None, 0 \<mapsto> PipeR 7, 3 := None, 4 := None) = ?T(0 \<mapsto> PipeR 7)" by (auto simp: fun_eq_iff)
  have "execs (runcmd (EXEC [[98]])) (?U(0 := None, 0 \<mapsto> PipeR 7, 3 := None, 4 := None)) [[98]] (?T(0 \<mapsto> PipeR 7))"
    unfolding u by (simp add: ex_exec)
  then have "execs (Sys (CClose (int 0)) (\<lambda>_. Sys (CDup (int 3)) (\<lambda>_. Sys (CClose (int 3)) (\<lambda>_.
      Sys (CClose (int 4)) (\<lambda>_. runcmd (EXEC [[98]])))))) ?U [[98]] (?T(0 \<mapsto> PipeR 7))"
    by (intro ex_close ex_dup [where b = "PipeR 7" and x = "(0, 0)"]) (simp, unfold l, assumption)
  then have "execs (runcmd ?c) ?T [[98]] (?T(0 \<mapsto> PipeR 7))"
    unfolding runcmd.simps(4) fork1_def
    by (intro ex_pipe [where i = 7, OF refl])
      (simp add: lowest_standard [OF T] lowest_pipe [OF T] ex_fork [where pid = 1] ex_fork [where pid = 0])
  from runcmd_wires [OF T _ this] show ?thesis by simp
qed

end
