(* ===== verification/Lsh.thy ===== *)
theory Lsh
  imports ShRun
begin

section \<open>The second shell: lsh.c\<close>

text \<open>
  Lines are strings without their terminator, as \<open>gets\<close> delivers them. The arrays of a command have 64 places;
  a write beyond them is undefined. \<open>lsh_cwd\<close> is the state of the shell, passed along.
\<close>

subsection \<open>Tokens\<close>

fun strcspn :: "uchar list \<Rightarrow> uchar list \<Rightarrow> nat" where
  "strcspn [] chars = 0"
| "strcspn (c # s) chars = (if c \<in> set chars then 0 else Suc (strcspn s chars))"

fun strtok :: "uchar list \<Rightarrow> uchar list \<Rightarrow> (uchar list \<times> uchar list) option" where
  "strtok delim [] = None"
| "strtok delim (ch # s) =
     (if strchr delim ch \<noteq> None then strtok delim s
      else let n = strcspn (ch # s) delim in Some (take n (ch # s), drop (Suc n) (ch # s)))"

definition LSH_TOK_DELIM :: "uchar list" where
  "LSH_TOK_DELIM = [32, 9, 13, 10, 7]"

lemma strtok_shorter: "strtok delim s = Some (t, r) \<Longrightarrow> length r < length s"
proof (induction delim s rule: strtok.induct)
  case (2 delim ch s)
  then show ?case by (fastforce simp: Let_def split: if_splits)
qed simp

function tokens :: "uchar list \<Rightarrow> uchar list list" where
  "tokens s = (case strtok LSH_TOK_DELIM s of None \<Rightarrow> [] | Some (t, r) \<Rightarrow> t # tokens r)"
  by pat_completeness auto
termination
  by (relation "measure length") (auto dest: strtok_shorter)

declare tokens.simps [simp del]





subsection \<open>The name of the current directory\<close>

abbreviation (input) LSH_PATH_MAX :: nat where "LSH_PATH_MAX \<equiv> 128"

definition lsh_join_paths :: "uchar list \<Rightarrow> uchar list \<Rightarrow> uchar list" where
  "lsh_join_paths base add =
     (if hd0 add = 47 then take (LSH_PATH_MAX - 1) add
      else
        let out = take (LSH_PATH_MAX - 1) base;
            out = (if out = [] then [47]
                   else if last out \<noteq> 47 \<and> length out < LSH_PATH_MAX - 1 then out @ [47] else out)
        in out @ take (LSH_PATH_MAX - 1 - length out) add)"

text \<open>
  The loop over \<open>pathbuf\<close>, which ends in a zero; a segment is the index of its first byte. The zero that ends
  a segment is written over the slash behind it.
\<close>

definition span_from :: "(uchar \<Rightarrow> bool) \<Rightarrow> uchar list \<Rightarrow> nat \<Rightarrow> nat" where
  "span_from P p i = i + length (takeWhile P (drop i p))"

definition string_at :: "uchar list \<Rightarrow> nat \<Rightarrow> uchar list" where
  "string_at p i = takeWhile (\<lambda>c. c \<noteq> 0) (drop i p)"

lemma norm_progress:
  assumes "\<not> length p \<le> span_from (\<lambda>c. c = 47) p i" and "p ! span_from (\<lambda>c. c = 47) p i \<noteq> 0"
  shows "length p - span_from (\<lambda>c. c \<noteq> 0 \<and> c \<noteq> 47) p (span_from (\<lambda>c. c = 47) p i) < length p - i"
proof -
  define start where "start = span_from (\<lambda>c. c = 47) p i"
  have s: "start < length p" "p ! start \<noteq> 0" "i \<le> start" using assms by (auto simp: start_def span_from_def)
  have "length (takeWhile (\<lambda>c. c = 47) (drop i p)) < length (drop i p)"
    using s(1) unfolding start_def span_from_def length_drop by linarith
  then have "\<not> p ! start = 47"
    using nth_length_takeWhile [of "\<lambda>c. c = 47" "drop i p"] by (simp add: start_def span_from_def)
  then have "takeWhile (\<lambda>c. c \<noteq> 0 \<and> c \<noteq> 47) (drop start p) \<noteq> []"
    using s by (subst Cons_nth_drop_Suc [symmetric]) auto
  then have "start < span_from (\<lambda>c. c \<noteq> 0 \<and> c \<noteq> 47) p start" by (simp add: span_from_def)
  then show ?thesis using s unfolding start_def [symmetric] by linarith
qed

function norm_loop :: "uchar list \<Rightarrow> nat \<Rightarrow> nat list \<Rightarrow> uchar list \<times> nat list" where
  "norm_loop p i segs =
     (if length p \<le> i \<or> p ! i = 0 then (p, segs)
      else
        let start = span_from (\<lambda>c. c = 47) p i in
        if length p \<le> start \<or> p ! start = 0 then (p, segs)
        else
          let e = span_from (\<lambda>c. c \<noteq> 0 \<and> c \<noteq> 47) p start;
              p' = p[e := 0];
              name = string_at p' start;
              segs' = (if name = [] \<or> name = str ''.'' then segs
                       else if name = str ''..'' then butlast segs
                       else if length segs < 64 then segs @ [start] else segs)
          in norm_loop p' e segs')"
  by pat_completeness auto
termination
  by (relation "measure (\<lambda>(p, i, segs). length p - i)") (auto intro: norm_progress)

declare norm_loop.simps [simp del]

fun norm_out :: "uchar list list \<Rightarrow> uchar list \<Rightarrow> uchar list" where
  "norm_out [] out = out"
| "norm_out (s # ss) out =
     (let out = (if length out < LSH_PATH_MAX - 1 then out @ [47] else out)
      in norm_out ss (out @ take (LSH_PATH_MAX - 1 - length out) s))"

definition lsh_normalize_path :: "uchar list \<Rightarrow> uchar list \<Rightarrow> uchar list" where
  "lsh_normalize_path base input =
     (let pathbuf = take (LSH_PATH_MAX - 1) (lsh_join_paths base input) @ [0];
          (p, segs) = norm_loop pathbuf 0 []
      in if segs = [] then [47] else norm_out (map (string_at p) segs) [])"

subsection \<open>Commands\<close>











subsection \<open>Tokens are words\<close>

lemma strcspn_word: "\<forall>c \<in> set w. c \<notin> set D \<Longrightarrow> strcspn (w @ r) D = length w + strcspn r D"
  by (induction w) auto

lemma strchr_delim: "strchr LSH_TOK_DELIM c = None \<longleftrightarrow> c \<notin> set LSH_TOK_DELIM"
  by (simp add: LSH_TOK_DELIM_def)

definition is_word :: "uchar list \<Rightarrow> bool" where
  "is_word w \<longleftrightarrow> w \<noteq> [] \<and> (\<forall>c \<in> set w. c \<notin> set LSH_TOK_DELIM)"

definition blank :: "uchar list \<Rightarrow> bool" where
  "blank s \<longleftrightarrow> (\<forall>c \<in> set s. c \<in> set LSH_TOK_DELIM)"

text \<open>A line as words, each with the blanks before it.\<close>

fun layout :: "(uchar list \<times> uchar list) list \<Rightarrow> uchar list" where
  "layout [] = []"
| "layout ((gap, w) # xs) = gap @ w @ layout xs"

lemma strtok_blank: "blank gap \<Longrightarrow> strtok LSH_TOK_DELIM (gap @ s) = strtok LSH_TOK_DELIM s"
  by (induction gap) (auto simp: blank_def strchr_delim)

lemma strtok_word:
  assumes w: "is_word w" and r: "r = [] \<or> hd r \<in> set LSH_TOK_DELIM"
  shows "strtok LSH_TOK_DELIM (w @ r) = Some (w, drop 1 r)"
proof -
  obtain ch s where ch: "w = ch # s" using w by (cases w) (auto simp: is_word_def)
  have "strcspn r LSH_TOK_DELIM = 0" using r by (cases r) auto
  then have n: "strcspn (w @ r) LSH_TOK_DELIM = length w"
    using strcspn_word [of w LSH_TOK_DELIM r] w by (auto simp: is_word_def)
  have "strchr LSH_TOK_DELIM ch = None" using w ch by (auto simp: strchr_delim is_word_def)
  then show ?thesis using n unfolding ch by (simp add: Let_def)
qed

lemma tokens_blank: "blank s \<Longrightarrow> tokens s = []"
  using strtok_blank [of s "[]"] by (subst tokens.simps) simp

lemma tokens_word:
  "blank gap \<Longrightarrow> is_word w \<Longrightarrow> r = [] \<or> hd r \<in> set LSH_TOK_DELIM \<Longrightarrow> tokens (gap @ w @ r) = w # tokens (drop 1 r)"
  by (subst tokens.simps) (simp add: strtok_blank strtok_word)

text \<open>
  C31. The tokenizer of the second shell finds exactly the words of a line, whatever the blanks between them and
  at the two ends.
\<close>

theorem lsh_tokens_layout:
  assumes "\<forall>(gap, w) \<in> set xs. blank gap \<and> is_word w" and "\<forall>(gap, w) \<in> set (tl xs). gap \<noteq> []" and "blank trail"
  shows "tokens (layout xs @ trail) = map snd xs"
  using assms
proof (induction "length xs" arbitrary: xs trail)
  case 0
  then show ?case by (simp add: tokens_blank)
next
  case (Suc n)
  then obtain gap w ys where xs: "xs = (gap, w) # ys" by (cases xs) auto
  have w: "blank gap" "is_word w" using Suc.prems(1) xs by auto
  show ?case
  proof (cases ys)
    case Nil
    have "trail = [] \<or> hd trail \<in> set LSH_TOK_DELIM" "blank (drop 1 trail)"
      using Suc.prems(3) by (cases trail; auto simp: blank_def)+
    then show ?thesis using tokens_word [OF w, of trail] by (simp add: xs Nil tokens_blank)
  next
    case (Cons y zs)
    obtain g v where y: "y = (g, v)" by (cases y)
    have g: "g \<noteq> []" "blank g" "is_word v" using Suc.prems(1,2) by (auto simp: xs Cons y)
    have "tokens (layout ((tl g, v) # zs) @ trail) = map snd ((tl g, v) # zs)"
      by (rule Suc.hyps(1)) (use Suc g in \<open>auto simp: xs Cons y blank_def dest: list.set_sel(2)\<close>)
    moreover have "hd (g @ v @ layout zs @ trail) \<in> set LSH_TOK_DELIM" using g by (cases g) (auto simp: blank_def)
    moreover have "drop 1 (g @ v @ layout zs @ trail) = tl g @ v @ layout zs @ trail" using g(1) by (cases g) auto
    ultimately show ?thesis using tokens_word [OF w, of "g @ v @ layout zs @ trail"] by (simp add: xs Cons y)
  qed
qed

theorem lsh_tokens_layout_witness:
  "tokens [32, 97, 98, 32, 9, 99, 10] = [[97, 98], [99]]"
  using lsh_tokens_layout [of "[([32], [97, 98]), ([32, 9], [99])]" "[10]"]
  by (simp add: is_word_def blank_def LSH_TOK_DELIM_def)

subsection \<open>The name that \<^verbatim>\<open>pwd\<close> prints\<close>

lemma takeWhile_stop: "\<forall>x \<in> set xs. P x \<Longrightarrow> \<not> P y \<Longrightarrow> takeWhile P (xs @ y # ys) = xs"
  by (induction xs) auto

text \<open>The first round of the loop writes a zero where the second would start.\<close>

lemma norm_loop_one:
  assumes z: "0 \<notin> set P" and c: "c1 = takeWhile (\<lambda>c. c \<noteq> 47) (dropWhile (\<lambda>c. c = 47) P)"
  obtains p start where "norm_loop (P @ [0]) 0 [] = (p, if c1 = [] \<or> c1 = str ''.'' \<or> c1 = str ''..'' then [] else [start])"
    "string_at p start = c1"
proof -
  define sl where "sl = takeWhile (\<lambda>c. c = 47) P"
  define Q where "Q = dropWhile (\<lambda>c. c = 47) P"
  define R where "R = dropWhile (\<lambda>c. c \<noteq> 47) Q"
  have P: "P = sl @ Q" "Q = c1 @ R" by (simp_all add: sl_def Q_def R_def c)
  have sl: "\<forall>x \<in> set sl. x = 47" by (auto simp: sl_def dest: set_takeWhileD)
  have nz: "0 \<notin> set Q" "0 \<notin> set c1" "0 \<notin> set R" using z P by auto
  have c1: "\<forall>x \<in> set c1. x \<noteq> 0 \<and> x \<noteq> 47" using nz(2) by (auto simp: c dest: set_takeWhileD)
  have hQ: "Q = [] \<or> hd Q \<noteq> 47" using hd_dropWhile [of "\<lambda>c. c = 47" P] by (auto simp: Q_def)
  have hR: "R = [] \<or> hd R = 47" using hd_dropWhile [of "\<lambda>c. c \<noteq> 47" Q] by (auto simp: R_def)
  have start: "span_from (\<lambda>c. c = 47) (P @ [0]) 0 = length sl"
  proof (cases Q)
    case Nil
    then show ?thesis using takeWhile_stop [of sl "\<lambda>c. c = 47" 0 "[]"] sl by (simp add: span_from_def P)
  next
    case (Cons q qs)
    then show ?thesis using takeWhile_stop [of sl "\<lambda>c. c = 47" q "qs @ [0]"] sl hQ by (simp add: span_from_def P)
  qed
  show thesis
  proof (cases "Q = []")
    case True
    have "norm_loop (P @ [0]) 0 [] = (P @ [0], [])"
      using start True by (subst norm_loop.simps) (simp add: P Let_def nth_append)
    moreover have "c1 = []" "string_at (P @ [0]) (length P) = []" using True P(2) by (simp_all add: string_at_def)
    ultimately show ?thesis using that [of "P @ [0]" "length P"] by simp
  next
    case False
    then have c1n: "c1 \<noteq> []" using hQ by (simp add: c Q_def [symmetric] takeWhile_eq_Nil_iff)
    obtain x xs where R0: "R @ [0] = x # xs" "x = 0 \<or> x = 47" using hR by (cases R) auto
    have p: "P @ [0] = sl @ c1 @ x # xs" using P R0 by simp
    let ?p = "sl @ c1 @ 0 # xs"
    have e: "span_from (\<lambda>c. c \<noteq> 0 \<and> c \<noteq> 47) (P @ [0]) (length sl) = length sl + length c1"
      using takeWhile_stop [of c1 "\<lambda>c. c \<noteq> 0 \<and> c \<noteq> 47" x xs] c1 R0(2) by (auto simp: span_from_def p)
    have upd: "(P @ [0])[length sl + length c1 := 0] = ?p" by (simp add: p list_update_append)
    have name: "string_at ?p (length sl) = c1"
      using takeWhile_stop [of c1 "\<lambda>c. c \<noteq> 0" 0 xs] c1 by (simp add: string_at_def)
    have "P \<noteq> []" using False P(1) by simp
    then have p0: "(P @ [0]) ! 0 \<noteq> 0" using z by (cases P) auto
    have ps: "(P @ [0]) ! length sl \<noteq> 0" "length sl < length (P @ [0])"
      using c1 c1n by (cases c1; simp add: p nth_append)+
    have last: "norm_loop ?p (length sl + length c1) segs = (?p, segs)" for segs
      by (subst norm_loop.simps) (simp add: nth_append)
    have "norm_loop (P @ [0]) 0 [] = (?p, if c1 = [] \<or> c1 = str ''.'' \<or> c1 = str ''..'' then [] else [length sl])"
      by (subst norm_loop.simps, unfold Let_def start e upd name last) (use p0 ps in simp)
    then show ?thesis using that name by blast
  qed
qed

text \<open>
  C32. After a change of directory, the name the shell keeps for \<^verbatim>\<open>pwd\<close> is a slash and the first component of the path it
  has put together, nothing more: \<^verbatim>\<open>cd a/b\<close> in the root gives \<^verbatim>\<open>/a\<close>.
\<close>

theorem lsh_pwd_first_component:
  assumes "0 \<notin> set base" and "0 \<notin> set input"
  shows "lsh_normalize_path base input =
    (let c1 = takeWhile (\<lambda>c. c \<noteq> 47) (dropWhile (\<lambda>c. c = 47) (lsh_join_paths base input))
     in if c1 = [] \<or> c1 = str ''.'' \<or> c1 = str ''..'' then [47] else 47 # take 126 c1)"
proof -
  let ?P = "lsh_join_paths base input"
  have z: "0 \<notin> set ?P" using assms by (auto simp: lsh_join_paths_def Let_def dest!: in_set_takeD split: if_splits)
  have "length ?P \<le> 127" by (auto simp: lsh_join_paths_def Let_def)
  then have tk: "take (LSH_PATH_MAX - 1) ?P = ?P" by simp
  obtain p start where n: "norm_loop (?P @ [0]) 0 [] =
      (p, if takeWhile (\<lambda>c. c \<noteq> 47) (dropWhile (\<lambda>c. c = 47) ?P) = [] \<or>
        takeWhile (\<lambda>c. c \<noteq> 47) (dropWhile (\<lambda>c. c = 47) ?P) = str ''.'' \<or>
        takeWhile (\<lambda>c. c \<noteq> 47) (dropWhile (\<lambda>c. c = 47) ?P) = str ''..'' then [] else [start])"
      "string_at p start = takeWhile (\<lambda>c. c \<noteq> 47) (dropWhile (\<lambda>c. c = 47) ?P)"
    by (rule norm_loop_one [OF z refl])
  show ?thesis unfolding lsh_normalize_path_def Let_def tk n(1) using n(2) by simp
qed

theorem lsh_pwd_first_component_witness:
  "lsh_normalize_path [47] [97, 47, 98] = [47, 97]"
  using lsh_pwd_first_component [of "[47]" "[97, 47, 98]"] by (simp add: lsh_join_paths_def hd0_def str_def)

subsection \<open>What the shell starts\<close>












end
