(* ===== verification/Dll.thy ===== *)
theory Dll
  imports Prelude
begin

section \<open>Circular doubly linked lists\<close>

text \<open>
  Two functions give the successor and the predecessor of every node; a list starts and ends at a
  head that is not one of its elements. \<open>dll f g h xs\<close> says that the elements are \<open>xs\<close>. Taking an element
  out and putting one in at the front are the updates that the buffer cache makes.
\<close>

fun path :: "('a \<Rightarrow> 'a) \<Rightarrow> 'a \<Rightarrow> 'a list \<Rightarrow> 'a \<Rightarrow> bool" where
  "path f x [] y \<longleftrightarrow> f x = y"
| "path f x (z # zs) y \<longleftrightarrow> f x = z \<and> path f z zs y"

definition dll :: "('a \<Rightarrow> 'a) \<Rightarrow> ('a \<Rightarrow> 'a) \<Rightarrow> 'a \<Rightarrow> 'a list \<Rightarrow> bool" where
  "dll f g h xs \<longleftrightarrow> path f h xs h \<and> path g h (rev xs) h \<and> distinct (h # xs)"

lemma path_append [simp]: "path f x (xs @ z # zs) y \<longleftrightarrow> path f x xs z \<and> path f z zs y"
  by (induction xs arbitrary: x) auto

lemma path_cong: "(\<And>z. z \<in> set (x # xs) \<Longrightarrow> f z = f' z) \<Longrightarrow> path f x xs y = path f' x xs y"
  by (induction xs arbitrary: x) auto

lemma path_upd_other: "i \<notin> set (x # xs) \<Longrightarrow> path (f(i := v)) x xs y = path f x xs y"
  by (rule path_cong) auto

text \<open>Changing the successor of the last node of a path.\<close>

lemma path_upd_last: "distinct (x # xs) \<Longrightarrow> path f x xs y \<Longrightarrow> path (f(last (x # xs) := v)) x xs v"
proof (induction xs arbitrary: x)
  case (Cons z zs)
  have "last (x # z # zs) = last (z # zs)" by simp
  moreover have "last (z # zs) \<noteq> x" using Cons.prems(1) last_in_set [of "z # zs"] by auto
  ultimately show ?case using Cons by auto
qed simp

lemma path_last: "path f x xs y \<Longrightarrow> f (last (x # xs)) = y"
  by (induction xs arbitrary: x) auto

lemma path_hd: "path f x xs y \<Longrightarrow> f x = hd (xs @ [y])"
  by (cases xs) auto

text \<open>The neighbours of an element.\<close>

lemma dll_next: "dll f g h (xs @ b # ys) \<Longrightarrow> f b = hd (ys @ [h])"
  by (auto simp: dll_def dest: path_hd)

lemma dll_prev: "dll f g h (xs @ b # ys) \<Longrightarrow> g b = last (h # xs)"
  by (auto simp: dll_def dest!: path_hd simp: hd_append hd_rev)

lemma dll_unlink:
  assumes "dll f g h (xs @ b # ys)"
  shows "dll (f(g b := f b)) (g(f b := g b)) h (xs @ ys)"
proof -
  let ?p = "last (h # xs)" and ?n = "hd (ys @ [h])"
  have d: "distinct (h # xs @ b # ys)" and f: "path f h xs b" "path f b ys h" 
    and g: "path g h (rev ys) b" "path g b (rev xs) h"
    using assms by (auto simp: dll_def)
  have p: "g b = ?p" and n: "f b = ?n" using dll_prev [OF assms] dll_next [OF assms] by simp_all
  have "path (f(?p := ?n)) h (xs @ ys) h"
  proof (cases ys)
    case Nil
    then show ?thesis using path_upd_last [OF _ f(1)] d by simp
  next
    case (Cons y zs)
    have "?p \<in> set (h # xs)" by (rule last_in_set) simp
    then have "?p \<notin> set (y # zs)" using d Cons by (auto simp del: last.simps)
    then have "path (f(?p := y)) y zs h" using f(2) Cons path_upd_other [of ?p y zs f y h] by simp
    moreover have "path (f(?p := y)) h xs y" using path_upd_last [OF _ f(1)] d by simp
    ultimately show ?thesis using Cons by simp
  qed
  moreover have "path (g(?n := ?p)) h (rev ys @ rev xs) h"
  proof (cases xs rule: rev_cases)
    case Nil
    have "last (h # rev ys) = ?n" by (cases ys) simp_all
    then show ?thesis using path_upd_last [OF _ g(1), of h] d Nil by simp
  next
    case (snoc zs y)
    have n': "last (h # rev ys) = ?n" by (cases ys) simp_all
    have "?n \<notin> set (y # rev zs)" using d snoc by (cases ys) auto
    then have "path (g(?n := y)) y (rev zs) h" using g(2) snoc path_upd_other [of ?n y "rev zs" g y h] by simp
    moreover have "path (g(?n := y)) h (rev ys) y" using path_upd_last [OF _ g(1), of y] d n' by simp
    ultimately show ?thesis using snoc by simp
  qed
  ultimately show ?thesis using d unfolding p n by (auto simp: dll_def)
qed

lemma dll_push:
  assumes "dll f g h xs" and b: "b \<notin> set (h # xs)"
  shows "dll ((f(b := f h))(h := b)) ((g(b := h))(f h := b)) h (b # xs)"
proof -
  have d: "distinct (h # xs)" and f: "path f h xs h" and g: "path g h (rev xs) h" using assms(1) by (auto simp: dll_def)
  have n: "f h = hd (xs @ [h])" using path_hd [OF f] .
  have "path ((f(b := f h))(h := b)) b xs h"
  proof (cases xs)
    case Nil
    then show ?thesis using n b by simp
  next
    case (Cons y zs)
    have "path ((f(b := f h))(h := b)) y zs h"
      using f Cons b d by (simp add: path_upd_other)
    then show ?thesis using Cons n b by simp
  qed
  moreover have "path ((g(b := h))(f h := b)) h (rev xs) b"
  proof -
    have "path (g(b := h)) h (rev xs) h" using g b by (subst path_upd_other) auto
    moreover have "f h = last (h # rev xs)" using n by (cases xs) simp_all
    ultimately show ?thesis using path_upd_last [of h "rev xs"] d by simp
  qed
  moreover have "f h \<noteq> b" using n b by (cases xs) auto
  ultimately show ?thesis using b d by (auto simp: dll_def)
qed

end
