(* ===== verification/BioCache.thy ===== *)
theory BioCache
  imports Log Dll
begin

section \<open>The buffer cache is coherent\<close>

text \<open>
  \<open>cache_ok L s\<close> is the invariant of the buffer cache: the buffers form a circular list in the order \<open>L\<close> of
  their last use, no two of them are for the same block, a dirty buffer is valid and a valid buffer that
  is not dirty has the bytes of the disk. \<open>content\<close> is what a reader of the cache sees of a block.
\<close>

unbundle bit_operations_syntax

definition vld :: "buf \<Rightarrow> bool" where "vld x \<longleftrightarrow> bit (b_flags x) 1"
definition dty :: "buf \<Rightarrow> bool" where "dty x \<longleftrightarrow> bit (b_flags x) 2"

lemma flag_tests:
  "b_flags x AND B_VALID = 0 \<longleftrightarrow> \<not> vld x" "b_flags x AND B_DIRTY = 0 \<longleftrightarrow> \<not> dty x"
  using and_exp_eq_0_iff_not_bit [of "b_flags x" 1] and_exp_eq_0_iff_not_bit [of "b_flags x" 2]
  by (simp_all add: vld_def dty_def)

lemma flag_both: "b_flags x AND (B_VALID OR B_DIRTY) = B_VALID \<longleftrightarrow> vld x \<and> \<not> dty x"
proof
  assume e: "b_flags x AND (B_VALID OR B_DIRTY) = B_VALID"
  then have "bit (b_flags x AND 6) 1 = bit (2::uint) 1" "bit (b_flags x AND 6) 2 = bit (2::uint) 2" by simp_all
  then show "vld x \<and> \<not> dty x" by (simp add: vld_def dty_def bit_and_iff)
next
  assume a: "vld x \<and> \<not> dty x"
  show "b_flags x AND (B_VALID OR B_DIRTY) = B_VALID"
  proof (rule bit_word_eqI)
    fix n
    assume "n < LENGTH(32)"
    have "bit (2 ^ 1 :: uint) n \<longleftrightarrow> n = 1" "bit (2 ^ 2 :: uint) n \<longleftrightarrow> n = 2"
      unfolding bit_exp_iff by auto
    then have "bit (B_VALID :: uint) n \<longleftrightarrow> n = 1" "bit (B_DIRTY :: uint) n \<longleftrightarrow> n = 2" by simp_all
    with a show "bit (b_flags x AND (B_VALID OR B_DIRTY)) n = bit B_VALID n"
      unfolding bit_and_iff bit_or_iff by (auto simp: vld_def dty_def)
  qed
qed

lemma flag_updates [simp]:
  "vld (x\<lparr>b_flags := b_flags x OR B_VALID\<rparr>)" "dty (x\<lparr>b_flags := b_flags x OR B_VALID\<rparr>) = dty x"
  "vld (x\<lparr>b_flags := b_flags x OR B_DIRTY\<rparr>) = vld x" "dty (x\<lparr>b_flags := b_flags x OR B_DIRTY\<rparr>)"
  "vld (x\<lparr>b_flags := (b_flags x AND NOT B_DIRTY) OR B_VALID\<rparr>)"
  "\<not> dty (x\<lparr>b_flags := (b_flags x AND NOT B_DIRTY) OR B_VALID\<rparr>)"
  by (simp_all add: vld_def dty_def bit_simps)

lemma flag_other [simp]:
  "vld (x\<lparr>b_refcnt := r\<rparr>) = vld x" "dty (x\<lparr>b_refcnt := r\<rparr>) = dty x"
  "vld (x\<lparr>b_lock := l\<rparr>) = vld x" "dty (x\<lparr>b_lock := l\<rparr>) = dty x"
  "vld (x\<lparr>b_data := d\<rparr>) = vld x" "dty (x\<lparr>b_data := d\<rparr>) = dty x"
  "vld (x\<lparr>b_prev := p\<rparr>) = vld x" "dty (x\<lparr>b_prev := p\<rparr>) = dty x"
  "vld (x\<lparr>b_next := p\<rparr>) = vld x" "dty (x\<lparr>b_next := p\<rparr>) = dty x"
  by (simp_all add: vld_def dty_def)

subsection \<open>The list of buffers\<close>

definition nexts :: "buf list \<Rightarrow> nat \<Rightarrow> nat" where "nexts bs i = b_next (bs ! i)"
definition prevs :: "buf list \<Rightarrow> nat \<Rightarrow> nat" where "prevs bs i = b_prev (bs ! i)"

definition lru :: "buf list \<Rightarrow> nat list \<Rightarrow> bool" where
  "lru bs L \<longleftrightarrow> length bs = Suc NBUF \<and> set L = {..<NBUF} \<and> dll (nexts bs) (prevs bs) NBUF L"

lemma links_upd:
  "i < length bs \<Longrightarrow> nexts (bs[i := x]) = (nexts bs)(i := b_next x)"
  "i < length bs \<Longrightarrow> prevs (bs[i := x]) = (prevs bs)(i := b_prev x)"
  by (auto simp: nexts_def prevs_def fun_eq_iff nth_list_update_if)

text \<open>A change of a buffer that is not about its links.\<close>

lemma lru_upd: "lru bs L \<Longrightarrow> b_next x = b_next (bs ! i) \<Longrightarrow> b_prev x = b_prev (bs ! i) \<Longrightarrow> lru (bs[i := x]) L"
proof (cases "i < length bs")
  case True
  moreover assume "lru bs L" "b_next x = b_next (bs ! i)" "b_prev x = b_prev (bs ! i)"
  moreover have "(nexts bs)(i := b_next (bs ! i)) = nexts bs" "(prevs bs)(i := b_prev (bs ! i)) = prevs bs"
    by (auto simp: nexts_def prevs_def fun_eq_iff)
  ultimately show ?thesis by (simp add: lru_def links_upd)
qed (simp add: list_update_beyond)

text \<open>A walk finds the first buffer in its direction, and comes to an end.\<close>

lemma walk_path:
  assumes "path (\<lambda>i. nx (bs ! i)) x zs NBUF" and "\<forall>z \<in> set zs. z < NBUF" and "length zs < n"
  shows "walk n nx P bs (nx (bs ! x)) = Ok (List.find (\<lambda>i. P (bs ! i)) zs)"
  using assms
proof (induction zs arbitrary: x n)
  case Nil
  then show ?case by (cases n) auto
next
  case (Cons z zs)
  then show ?case by (cases n) (auto simp: less_irrefl)
qed

lemma lru_walks:
  assumes "lru bs L"
  shows "walk (NBUF + 1) b_next P bs (b_next (bs ! NBUF)) = Ok (List.find (\<lambda>i. P (bs ! i)) L)"
    and "walk (NBUF + 1) b_prev P bs (b_prev (bs ! NBUF)) = Ok (List.find (\<lambda>i. P (bs ! i)) (rev L))"
proof -
  have "distinct L" "set L = {..<NBUF}" using assms by (auto simp: lru_def dll_def)
  then have l: "length L = NBUF" using distinct_card [of L] by simp
  have p: "path (\<lambda>i. b_next (bs ! i)) NBUF L NBUF" "path (\<lambda>i. b_prev (bs ! i)) NBUF (rev L) NBUF"
    using assms by (auto simp: lru_def dll_def nexts_def [abs_def] prevs_def [abs_def])
  have m: "\<forall>z \<in> set L. z < NBUF" using assms by (auto simp: lru_def)
  show "walk (NBUF + 1) b_next P bs (b_next (bs ! NBUF)) = Ok (List.find (\<lambda>i. P (bs ! i)) L)"
    by (rule walk_path [OF p(1) m]) (simp add: l)
  show "walk (NBUF + 1) b_prev P bs (b_prev (bs ! NBUF)) = Ok (List.find (\<lambda>i. P (bs ! i)) (rev L))"
    by (rule walk_path [OF p(2)]) (use m l in simp_all)
qed

subsection \<open>The invariant\<close>

definition is_blk :: "uint \<Rightarrow> buf \<Rightarrow> bool" where
  "is_blk b x \<longleftrightarrow> b_dev x = 1 \<and> b_blockno x = b"

definition buf_ok :: "(uint \<Rightarrow> uchar list) \<Rightarrow> buf \<Rightarrow> bool" where
  "buf_ok d x \<longleftrightarrow> length (b_data x) = BSIZE \<and> (dty x \<longrightarrow> vld x) \<and>
     (vld x \<and> \<not> dty x \<and> b_dev x = 1 \<longrightarrow> b_data x = d (b_blockno x))"

definition cache_ok :: "nat list \<Rightarrow> 'z bst_scheme \<Rightarrow> bool" where
  "cache_ok L s \<longleftrightarrow> lru (bcache s) L \<and> (\<forall>b. length (disk s b) = BSIZE) \<and>
     (\<forall>i < NBUF. buf_ok (disk s) (bcache s ! i)) \<and>
     (\<forall>i < NBUF. \<forall>j < NBUF. \<forall>b. is_blk b (bcache s ! i) \<longrightarrow> is_blk b (bcache s ! j) \<longrightarrow> i = j)"

definition content :: "'z bst_scheme \<Rightarrow> uint \<Rightarrow> uchar list" where
  "content s b =
     (case scan (\<lambda>x. is_blk b x \<and> vld x) (take NBUF (bcache s)) of
        Some i \<Rightarrow> b_data (bcache s ! i)
      | None \<Rightarrow> disk s b)"

lemma cache_length: "cache_ok L s \<Longrightarrow> length (bcache s) = Suc NBUF"
  by (simp add: cache_ok_def lru_def)

lemma cache_buf: "cache_ok L s \<Longrightarrow> i < NBUF \<Longrightarrow> buf_ok (disk s) (bcache s ! i)"
  by (simp add: cache_ok_def)

lemma cache_unique:
  "cache_ok L s \<Longrightarrow> i < NBUF \<Longrightarrow> j < NBUF \<Longrightarrow> is_blk b (bcache s ! i) \<Longrightarrow> is_blk b (bcache s ! j) \<Longrightarrow> i = j"
  unfolding cache_ok_def by blast

lemma cache_mem: "cache_ok L s \<Longrightarrow> i \<in> set L \<longleftrightarrow> i < NBUF"
  by (auto simp: cache_ok_def lru_def)

lemma scan_take: "scan P (take n xs) = Some j \<Longrightarrow> n \<le> length xs \<Longrightarrow> j < n \<and> P (xs ! j)"
  using scan_SomeD [of P "take n xs" j] by auto

lemma content_cached:
  assumes ok: "cache_ok L s" and i: "i < NBUF" "is_blk b (bcache s ! i)" "vld (bcache s ! i)"
  shows "content s b = b_data (bcache s ! i)"
proof (cases "scan (\<lambda>x. is_blk b x \<and> vld x) (take NBUF (bcache s))")
  case None
  moreover have "take NBUF (bcache s) ! i \<in> set (take NBUF (bcache s))"
    using i(1) cache_length [OF ok] by (intro nth_mem) simp
  ultimately have "\<not> (is_blk b (take NBUF (bcache s) ! i) \<and> vld (take NBUF (bcache s) ! i))"
    unfolding scan_None_iff by blast
  then show ?thesis using i by simp
next
  case (Some j)
  then have "j < NBUF" "is_blk b (bcache s ! j)"
    using scan_take [OF Some] cache_length [OF ok] by simp_all
  then have "j = i" using cache_unique [OF ok] i by blast
  then show ?thesis using Some by (simp add: content_def)
qed

lemma content_disk:
  assumes "\<And>i. i < NBUF \<Longrightarrow> is_blk b (bcache s ! i) \<Longrightarrow> vld (bcache s ! i) \<Longrightarrow> False" and "length (bcache s) = Suc NBUF"
  shows "content s b = disk s b"
proof (cases "scan (\<lambda>x. is_blk b x \<and> vld x) (take NBUF (bcache s))")
  case (Some j)
  then show ?thesis using scan_take [OF Some] assms by auto
qed (simp add: content_def)

lemma content_length: "cache_ok L s \<Longrightarrow> length (content s b) = BSIZE"
proof (cases "scan (\<lambda>x. is_blk b x \<and> vld x) (take NBUF (bcache s))")
  case None
  then show "cache_ok L s \<Longrightarrow> ?thesis" by (simp add: content_def cache_ok_def)
next
  case (Some j)
  assume ok: "cache_ok L s"
  then have "j < NBUF" using scan_take [OF Some] cache_length [OF ok] by simp
  then show ?thesis using Some cache_buf [OF ok] by (simp add: content_def buf_ok_def)
qed

text \<open>A change of one buffer, possibly with a write of its block, that keeps the invariant.\<close>

lemma cache_step:
  assumes ok: "cache_ok L s" and i: "i < NBUF"
    and bc: "bcache s' = (bcache s)[i := y]" and dk: "disk s' = (if w then (disk s)(b_blockno y := b_data y) else disk s)"
    and links: "b_next y = b_next (bcache s ! i)" "b_prev y = b_prev (bcache s ! i)"
    and y: "buf_ok (disk s') y" and new: "\<And>j b. j < NBUF \<Longrightarrow> j \<noteq> i \<Longrightarrow> is_blk b y \<Longrightarrow> \<not> is_blk b (bcache s ! j)"
    and w: "w \<Longrightarrow> b_dev y = 1"
    and old: "\<And>b. is_blk b (bcache s ! i) \<Longrightarrow> vld (bcache s ! i) \<Longrightarrow> \<not> (is_blk b y \<and> vld y) \<Longrightarrow> content s b = disk s b \<and> \<not> w"
    and wv: "w \<Longrightarrow> vld y"
  shows "cache_ok L s' \<and> content s' = (\<lambda>b. if is_blk b y \<and> vld y then b_data y else content s b)"
proof
  have l: "length (bcache s) = Suc NBUF" by (rule cache_length [OF ok])
  have n: "bcache s' ! j = (if j = i then y else bcache s ! j)" for j
    using i l by (simp add: bc nth_list_update_if)
  have bufs: "buf_ok (disk s') (bcache s' ! j)" if j: "j < NBUF" for j
  proof (cases "j = i")
    case False
    have "w \<Longrightarrow> b_dev (bcache s ! j) = 1 \<Longrightarrow> b_blockno (bcache s ! j) \<noteq> b_blockno y"
      using new [OF j False, of "b_blockno y"] w by (auto simp: is_blk_def)
    then show ?thesis using cache_buf [OF ok j] False by (auto simp: n dk buf_ok_def)
  qed (simp add: n y)
  have "length (disk s' b) = BSIZE" for b using ok y by (auto simp: dk cache_ok_def buf_ok_def)
  moreover have "j = k" if "j < NBUF" "k < NBUF" "is_blk b (bcache s' ! j)" "is_blk b (bcache s' ! k)" for j k b
    using that new cache_unique [OF ok] by (auto simp: n split: if_splits)
  moreover have "lru (bcache s') L" unfolding bc by (rule lru_upd) (use ok links in \<open>simp_all add: cache_ok_def\<close>)
  ultimately show ok': "cache_ok L s'" unfolding cache_ok_def using bufs by blast
  have l': "length (bcache s') = Suc NBUF" by (simp add: bc l)
  show "content s' = (\<lambda>b. if is_blk b y \<and> vld y then b_data y else content s b)"
  proof
    fix b
    show "content s' b = (if is_blk b y \<and> vld y then b_data y else content s b)"
    proof (cases "is_blk b y \<and> vld y")
      case True
      then show ?thesis using content_cached [OF ok' i, of b] by (simp add: n)
    next
      case False
      have db: "disk s' b = disk s b" using False wv w by (auto simp: dk is_blk_def)
      show ?thesis
      proof (cases "\<exists>j < NBUF. is_blk b (bcache s ! j) \<and> vld (bcache s ! j)")
        case True
        then obtain j where j: "j < NBUF" "is_blk b (bcache s ! j)" "vld (bcache s ! j)" by blast
        show ?thesis
        proof (cases "j = i")
          case True
          then have "content s b = disk s b" using old [of b] j False by auto
          moreover have "content s' b = disk s' b"
            by (rule content_disk [OF _ l']) (use False True j cache_unique [OF ok] in \<open>auto simp: n split: if_splits\<close>)
          ultimately show ?thesis using False db by auto
        next
          case False
          with j content_cached [OF ok', of j b] content_cached [OF ok, of j b] \<open>\<not> (is_blk b y \<and> vld y)\<close>
          show ?thesis by (auto simp: n)
        qed
      next
        case none: False
        then have "content s b = disk s b" by (intro content_disk [OF _ l]) blast
        moreover have "content s' b = disk s' b"
          by (rule content_disk [OF _ l']) (use none False in \<open>auto simp: n split: if_splits\<close>)
        ultimately show ?thesis using False db by auto
      qed
    qed
  qed
qed

subsection \<open>Reading a block\<close>

lemma find_SomeD: "List.find P xs = Some i \<Longrightarrow> i \<in> set xs \<and> P i"
  by (metis find_Some_iff nth_mem)

lemma find_NoneD: "List.find P xs = None \<Longrightarrow> x \<in> set xs \<Longrightarrow> \<not> P x"
  by (simp add: find_None_iff)

lemma acquiresleep_buf:
  assumes "acquiresleep (get_lock i) (put_lock i) s = Ok s'"
  obtains lk where "sl_locked (b_lock (bcache s ! i)) = 0" "sl_locked lk \<noteq> 0"
    "s' = upd_buf i (\<lambda>x. x\<lparr>b_lock := lk\<rparr>) s"
proof -
  from assms obtain c where c: "sl_locked (b_lock (bcache s ! i)) = 0"
    "s' = upd_buf i (\<lambda>x. x\<lparr>b_lock := \<lparr>sl_locked = 1, sl_pid = p_pid (procs s ! c)\<rparr>\<rparr>) s"
    by (auto simp: acquiresleep_def get_lock_def put_lock_def myproc_def split: if_splits option.splits)
  show ?thesis by (rule that [OF c(1) _ c(2)]) simp
qed

text \<open>The state above and below the cache; no operation of the cache touches it.\<close>

definition frame :: "'z bst_scheme \<Rightarrow> 'z bst_scheme \<Rightarrow> bool" where
  "frame s s' \<longleftrightarrow> bst.more s' = bst.more s \<and> cpu_proc s' = cpu_proc s \<and> disksize s' = disksize s"

lemma frame_refl [simp]: "frame s s"
  by (simp add: frame_def)

lemma frame_trans: "frame s s' \<Longrightarrow> frame s' s'' \<Longrightarrow> frame s s''"
  by (simp add: frame_def)

text \<open>What \<open>bget\<close> does to the buffer it returns, and to no other.\<close>

lemma bget_effect:
  assumes ok: "cache_ok L s" and g: "bget 1 b s = Ok (i, s')"
  obtains y where "i < NBUF" "s' = s\<lparr>bcache := (bcache s)[i := y]\<rparr>" "is_blk b y" "sl_locked (b_lock y) \<noteq> 0"
    "sl_locked (b_lock (bcache s ! i)) = 0"
    "b_next y = b_next (bcache s ! i)" "b_prev y = b_prev (bcache s ! i)" "b_data y = b_data (bcache s ! i)" "b_refcnt y = b_refcnt (bcache s ! i) + 1"
    "is_blk b (bcache s ! i) \<and> b_flags y = b_flags (bcache s ! i) \<or>
     \<not> dty (bcache s ! i) \<and> b_flags y = 0 \<and> (\<forall>j < NBUF. \<not> is_blk b (bcache s ! j))"
proof -
  have l: "lru (bcache s) L" using ok by (simp add: cache_ok_def)
  let ?hit = "List.find (\<lambda>i. is_blk b (bcache s ! i)) L"
  let ?free = "List.find (\<lambda>i. b_refcnt (bcache s ! i) = 0 \<and> b_flags (bcache s ! i) AND B_DIRTY = 0) (rev L)"
  have n: "i < length (bcache s)" if "i < NBUF" using that cache_length [OF ok] by simp
  show thesis
  proof (cases ?hit)
    case (Some k)
    let ?s1 = "upd_buf k (\<lambda>x. x\<lparr>b_refcnt := b_refcnt x + 1\<rparr>) s"
    have k: "k < NBUF" "is_blk b (bcache s ! k)" using find_SomeD [OF Some] cache_mem [OF ok] by auto
    have a: "acquiresleep (get_lock k) (put_lock k) ?s1 = Ok s'" and ik: "i = k"
      using g Some unfolding bget_def lru_walks [OF l] by (auto simp: is_blk_def elim!: bindR_OkE)
    from a obtain lk where lk: "sl_locked (b_lock (bcache ?s1 ! k)) = 0" "sl_locked lk \<noteq> 0"
      "s' = upd_buf k (\<lambda>x. x\<lparr>b_lock := lk\<rparr>) ?s1" by (rule acquiresleep_buf)
    show thesis
      by (rule that [of "(bcache s ! k)\<lparr>b_refcnt := b_refcnt (bcache s ! k) + 1, b_lock := lk\<rparr>"])
        (use k lk n ik in \<open>simp_all add: upd_buf_def is_blk_def\<close>)
  next
    case None
    then obtain k where f: "?free = Some k"
      using g unfolding bget_def lru_walks [OF l] by (cases ?free) (auto simp: is_blk_def)
    let ?s1 = "upd_buf k (\<lambda>x. x\<lparr>b_dev := 1, b_blockno := b, b_flags := 0, b_refcnt := 1\<rparr>) s"
    have k: "k < NBUF" "\<not> dty (bcache s ! k)" "b_refcnt (bcache s ! k) = 0"
      using find_SomeD [OF f] cache_mem [OF ok] by (auto simp: flag_tests)
    have a: "acquiresleep (get_lock k) (put_lock k) ?s1 = Ok s'" and ik: "i = k"
      using g None f unfolding bget_def lru_walks [OF l] by (auto simp: is_blk_def elim!: bindR_OkE)
    have none: "\<forall>j < NBUF. \<not> is_blk b (bcache s ! j)" using find_NoneD [OF None] cache_mem [OF ok] by blast
    from a obtain lk where lk: "sl_locked (b_lock (bcache ?s1 ! k)) = 0" "sl_locked lk \<noteq> 0"
      "s' = upd_buf k (\<lambda>x. x\<lparr>b_lock := lk\<rparr>) ?s1" by (rule acquiresleep_buf)
    show thesis
      by (rule that [of "(bcache s ! k)\<lparr>b_dev := 1, b_blockno := b, b_flags := 0, b_refcnt := 1, b_lock := lk\<rparr>"])
        (use k lk n ik none in \<open>simp_all add: upd_buf_def is_blk_def\<close>)
  qed
qed

text \<open>It changes no contents.\<close>

lemma bget_keeps:
  assumes ok: "cache_ok L s" and g: "bget 1 b s = Ok (i, s1)"
  shows "cache_ok L s1 \<and> content s1 = content s"
proof -
  from ok g obtain y where y: "i < NBUF" "s1 = s\<lparr>bcache := (bcache s)[i := y]\<rparr>" "is_blk b y" "sl_locked (b_lock y) \<noteq> 0"
    "sl_locked (b_lock (bcache s ! i)) = 0"
    "b_next y = b_next (bcache s ! i)" "b_prev y = b_prev (bcache s ! i)" "b_data y = b_data (bcache s ! i)" "b_refcnt y = b_refcnt (bcache s ! i) + 1"
    "is_blk b (bcache s ! i) \<and> b_flags y = b_flags (bcache s ! i) \<or>
     \<not> dty (bcache s ! i) \<and> b_flags y = 0 \<and> (\<forall>j < NBUF. \<not> is_blk b (bcache s ! j))"
    by (rule bget_effect)
  have len: "i < length (bcache s)" using y(1) cache_length [OF ok] by simp
  have bx: "buf_ok (disk s) (bcache s ! i)" by (rule cache_buf [OF ok y(1)])
  have only: "\<not> is_blk c (bcache s ! j)" if "j < NBUF" "j \<noteq> i" "is_blk c y" for j c
    using y(3,10) cache_unique [OF ok y(1), of j b] that by (auto simp: is_blk_def)
  have s1: "cache_ok L s1 \<and> content s1 = (\<lambda>c. if is_blk c y \<and> vld y then b_data y else content s c)"
  proof (rule cache_step [where w = False, OF ok y(1)])
    show "buf_ok (disk s1) y" using bx y(2,3,8,10) by (auto simp: buf_ok_def vld_def dty_def is_blk_def)
    show "content s c = disk s c \<and> \<not> False" if "is_blk c (bcache s ! i)" "vld (bcache s ! i)" "\<not> (is_blk c y \<and> vld y)" for c
      using that y(3,10) bx content_cached [OF ok y(1), of c]
      by (auto simp: buf_ok_def vld_def dty_def is_blk_def)
  qed (use y only in \<open>simp_all\<close>)
  moreover have "(\<lambda>c. if is_blk c y \<and> vld y then b_data y else content s c) = content s"
    using y(3,8,10) content_cached [OF ok y(1), of b] by (auto simp: fun_eq_iff vld_def is_blk_def)
  ultimately show ?thesis by simp
qed

definition held :: "nat \<Rightarrow> uint \<Rightarrow> 'z bst_scheme \<Rightarrow> bool" where
  "held i b s \<longleftrightarrow> i < NBUF \<and> is_blk b (bcache s ! i) \<and> vld (bcache s ! i) \<and> sl_locked (b_lock (bcache s ! i)) \<noteq> 0"

text \<open>
  \<open>bread\<close> returns the block, held, with its current contents; it changes neither the contents of any block
  nor the disk, nor a buffer that is held.
\<close>

lemma bread_spec:
  assumes ok: "cache_ok L s" and r: "bread 1 b s = Ok (i, s')"
  shows "cache_ok L s' \<and> content s' = content s \<and> held i b s' \<and> b_data (bcache s' ! i) = content s b \<and>
    disk s' = disk s \<and> dwrites s' = dwrites s \<and> frame s s' \<and>
    b_refcnt (bcache s' ! i) = b_refcnt (bcache s ! i) + 1 \<and> (dty (bcache s' ! i) \<longrightarrow> dty (bcache s ! i)) \<and>
    sl_locked (b_lock (bcache s ! i)) = 0 \<and> (\<forall>j. j \<noteq> i \<longrightarrow> bcache s' ! j = bcache s ! j)"
proof -
  obtain s1 where g: "bget 1 b s = Ok (i, s1)"
    and r': "(if b_flags (bcache s1 ! i) AND B_VALID = 0 then bindR (iderw i s1) (\<lambda>s. Ok (i, s)) else Ok (i, s1)) = Ok (i, s')"
    using r by (auto simp: bread_def elim!: bindR_OkE split: if_splits)
  from ok g obtain y where y: "i < NBUF" "s1 = s\<lparr>bcache := (bcache s)[i := y]\<rparr>" "is_blk b y" "sl_locked (b_lock y) \<noteq> 0"
    "sl_locked (b_lock (bcache s ! i)) = 0"
    "b_next y = b_next (bcache s ! i)" "b_prev y = b_prev (bcache s ! i)" "b_data y = b_data (bcache s ! i)" "b_refcnt y = b_refcnt (bcache s ! i) + 1"
    "is_blk b (bcache s ! i) \<and> b_flags y = b_flags (bcache s ! i) \<or>
     \<not> dty (bcache s ! i) \<and> b_flags y = 0 \<and> (\<forall>j < NBUF. \<not> is_blk b (bcache s ! j))"
    by (rule bget_effect)
  have len: "i < length (bcache s)" using y(1) cache_length [OF ok] by simp
  have bx: "buf_ok (disk s) (bcache s ! i)" by (rule cache_buf [OF ok y(1)])
  have only: "\<not> is_blk c (bcache s ! j)" if "j < NBUF" "j \<noteq> i" "is_blk c y" for j c
    using y(3,10) cache_unique [OF ok y(1), of j b] that by (auto simp: is_blk_def)
  have s1: "cache_ok L s1" and c1: "content s1 = content s" using bget_keeps [OF ok g] by auto
  have cv: "vld y \<Longrightarrow> content s b = b_data y"
    using y(3,8,10) content_cached [OF ok y(1), of b] by (auto simp: vld_def)
  show ?thesis
  proof (cases "vld y")
    case True
    then have "s' = s1" using r' y(2) len by (simp add: flag_tests)
    then show ?thesis
      using s1 c1 y True len cv by (auto simp: held_def frame_def dty_def)
  next
    case False
    define z where "z = y\<lparr>b_data := disk s b, b_flags := b_flags y OR B_VALID\<rparr>"
    have nd: "\<not> dty y" using False bx y(10) by (auto simp: buf_ok_def vld_def dty_def)
    have "s' = upd_buf i (\<lambda>x. x\<lparr>b_data := disk s1 (b_blockno x), b_flags := b_flags x OR B_VALID\<rparr>) s1"
      using r' False nd y(2) len by (auto simp: flag_tests flag_both iderw_def Let_def elim!: bindR_OkE split: if_splits)
    then have s': "s' = s1\<lparr>bcache := (bcache s1)[i := z]\<rparr>"
      using y(2,3) len by (simp add: upd_buf_def z_def is_blk_def)
    have z: "is_blk c z \<longleftrightarrow> c = b" "vld z" "\<not> dty z" "b_data z = disk s b" "is_blk c y \<longleftrightarrow> c = b" for c
      using y(3) nd by (auto simp: z_def is_blk_def vld_def dty_def bit_simps)
    have cb: "content s b = disk s b"
    proof (rule content_disk)
      show "False" if "j < NBUF" "is_blk b (bcache s ! j)" "vld (bcache s ! j)" for j
        using that only [of j b] y(3,10) False by (cases "j = i") (auto simp: vld_def)
    qed (rule cache_length [OF ok])
    have zs: "cache_ok L s' \<and> content s' = (\<lambda>c. if is_blk c z \<and> vld z then b_data z else content s1 c)"
    proof (rule cache_step [where w = False and s = s1, OF _ y(1)])
      show "buf_ok (disk s') z" using z(2-4) y(2) ok y(3) by (auto simp: s' buf_ok_def cache_ok_def z_def is_blk_def)
      show "\<not> is_blk c (bcache s1 ! j)" if "j < NBUF" "j \<noteq> i" "is_blk c z" for j c
        using only [of j c] that y(2) z(1,5) by simp
    qed (use s1 s' y(2) len z False in \<open>simp_all add: z_def\<close>)
    have "content s' = content s" using zs z c1 cb by (auto simp: fun_eq_iff)
    moreover have "held i b s'" "b_data (bcache s' ! i) = content s b"
      using y len z cb by (simp_all add: held_def s') (simp add: z_def)
    moreover have "b_refcnt z = b_refcnt (bcache s ! i) + 1" using y by (simp add: z_def)
    ultimately show ?thesis using zs y(2,5) z len by (simp add: s' frame_def)
  qed
qed

subsection \<open>Writing a block, releasing a buffer\<close>

lemma bwrite_spec:
  assumes ok: "cache_ok L s" and h: "held i b s" and d: "length d = BSIZE" and r: "bwrite i (set_data i d s) = Ok s'"
  shows "cache_ok L s' \<and> content s' = (content s)(b := d) \<and> held i b s' \<and> b_data (bcache s' ! i) = d \<and>
    disk s' = (disk s)(b := d) \<and> dwrites s' = (b, d) # dwrites s \<and> frame s s' \<and>
    b_refcnt (bcache s' ! i) = b_refcnt (bcache s ! i) \<and> \<not> dty (bcache s' ! i) \<and>
    (\<forall>j. j \<noteq> i \<longrightarrow> bcache s' ! j = bcache s ! j)"
proof -
  let ?x = "bcache s ! i"
  define y where "y = ?x\<lparr>b_data := d, b_flags := ((b_flags ?x OR B_DIRTY) AND NOT B_DIRTY) OR B_VALID\<rparr>"
  have i: "i < NBUF" "is_blk b ?x" "vld ?x" "sl_locked (b_lock ?x) \<noteq> 0" using h by (auto simp: held_def)
  have len: "i < length (bcache s)" using i(1) cache_length [OF ok] by simp
  have y: "is_blk c y \<longleftrightarrow> c = b" "is_blk c ?x \<longleftrightarrow> c = b" "vld y" "\<not> dty y" "b_data y = d" "b_blockno y = b" "b_dev y = 1" for c
    using i(2) by (auto simp: y_def is_blk_def vld_def dty_def bit_simps)
  define x' where "x' = ?x\<lparr>b_data := d, b_flags := b_flags ?x OR B_DIRTY\<rparr>"
  have x': "dty x'" "b_dev x' = 1" "b_blockno x' = b" "b_data x' = d"
    using i(2) by (simp_all add: x'_def is_blk_def dty_def bit_simps)
  have "upd_buf i (\<lambda>x. x\<lparr>b_flags := b_flags x OR B_DIRTY\<rparr>) (set_data i d s) = s\<lparr>bcache := (bcache s)[i := x']\<rparr>"
    using len by (simp add: upd_buf_def set_data_def x'_def)
  then have "iderw i (s\<lparr>bcache := (bcache s)[i := x']\<rparr>) = Ok s'"
    using r i(4) len by (simp add: bwrite_def holdingsleep_def set_data_def upd_buf_def)
  then have s': "s' = s\<lparr>bcache := (bcache s)[i := y], disk := (disk s)(b := d), dwrites := (b, d) # dwrites s\<rparr>"
  proof -
    have n: "bcache (s\<lparr>bcache := (bcache s)[i := x']\<rparr>) ! i = x'" using len by simp
    have y': "x'\<lparr>b_flags := (b_flags x' AND NOT B_DIRTY) OR B_VALID\<rparr> = y" by (simp add: x'_def y_def)
    have "iderw i (s\<lparr>bcache := (bcache s)[i := x']\<rparr>) = Ok s' \<Longrightarrow> s' = upd_buf i (\<lambda>x. x\<lparr>b_flags := (b_flags x AND NOT B_DIRTY) OR B_VALID\<rparr>)
        (s\<lparr>bcache := (bcache s)[i := x'], disk := (disk s)(b := d), dwrites := (b, d) # dwrites s\<rparr>)"
      unfolding iderw_def Let_def n flag_both flag_tests using x' by (simp split: if_splits)
    then show ?thesis using \<open>iderw i _ = _\<close> y' len by (simp add: upd_buf_def)
  qed
  have "cache_ok L s' \<and> content s' = (\<lambda>c. if is_blk c y \<and> vld y then b_data y else content s c)"
  proof (rule cache_step [where w = True, OF ok i(1)])
    show "\<not> is_blk c (bcache s ! j)" if "j < NBUF" "j \<noteq> i" "is_blk c y" for j c
      using cache_unique [OF ok that(1) i(1), of c] that(2,3) y(1) i(2) by auto
    show "buf_ok (disk s') y" using d y by (simp add: buf_ok_def s')
  qed (use y s' len in \<open>simp_all add: y_def\<close>)
  moreover have "(\<lambda>c. if is_blk c y \<and> vld y then b_data y else content s c) = (content s)(b := d)"
    using y by (auto simp: fun_eq_iff)
  moreover have "held i b s'" "b_data (bcache s' ! i) = d" using i y len by (simp_all add: held_def s') (simp add: y_def)
  moreover have "b_refcnt y = b_refcnt ?x" by (simp add: y_def)
  ultimately show ?thesis using y len by (simp add: s' frame_def)
qed

lemma wakeup_bst [simp]:
  "bcache (wakeup ch s) = bcache s" "disk (wakeup ch s) = disk s" "disksize (wakeup ch s) = disksize s"
  "dwrites (wakeup ch s) = dwrites s" "bst.more (wakeup ch s) = bst.more s" "cpu_proc (wakeup ch s) = cpu_proc s"
  by (simp_all add: wakeup_def wakeup1_def)


text \<open>The five assignments that move a buffer to the front of the list.\<close>

definition relink :: "nat \<Rightarrow> buf list \<Rightarrow> buf list" where
  "relink b bs =
     (let bs = bs[b_next (bs ! b) := (bs ! b_next (bs ! b))\<lparr>b_prev := b_prev (bs ! b)\<rparr>];
          bs = bs[b_prev (bs ! b) := (bs ! b_prev (bs ! b))\<lparr>b_next := b_next (bs ! b)\<rparr>];
          bs = bs[b := (bs ! b)\<lparr>b_next := b_next (bs ! NBUF), b_prev := NBUF\<rparr>];
          bs = bs[b_next (bs ! NBUF) := (bs ! b_next (bs ! NBUF))\<lparr>b_prev := b\<rparr>]
      in bs[NBUF := (bs ! NBUF)\<lparr>b_next := b\<rparr>])"

definition no_links :: "buf \<Rightarrow> buf" where
  "no_links x = x\<lparr>b_next := 0, b_prev := 0\<rparr>"

lemma no_links_upd:
  "no_links (x\<lparr>b_next := n\<rparr>) = no_links x" "no_links (x\<lparr>b_prev := n\<rparr>) = no_links x"
  by (simp_all add: no_links_def)

lemma relink_frame: "length (relink b bs) = length bs" "map no_links (relink b bs) = map no_links bs"
proof -
  have u: "map no_links (bs[i := y]) = map no_links bs" if "no_links y = no_links (bs ! i)" for i y bs
    using that by (cases "i < length bs") (simp_all add: map_update list_update_beyond list_update_same_conv)
  show "length (relink b bs) = length bs" by (simp add: relink_def Let_def)
  show "map no_links (relink b bs) = map no_links bs"
    unfolding relink_def Let_def by (simp only: u no_links_upd)
qed

lemma link_steps:
  assumes "i < length bs"
  shows "nexts (bs[i := (bs ! i)\<lparr>b_next := v\<rparr>]) = (nexts bs)(i := v)"
    and "prevs (bs[i := (bs ! i)\<lparr>b_next := v\<rparr>]) = prevs bs"
    and "nexts (bs[i := (bs ! i)\<lparr>b_prev := v\<rparr>]) = nexts bs"
    and "prevs (bs[i := (bs ! i)\<lparr>b_prev := v\<rparr>]) = (prevs bs)(i := v)"
    and "nexts (bs[i := (bs ! i)\<lparr>b_next := v, b_prev := w\<rparr>]) = (nexts bs)(i := v)"
    and "prevs (bs[i := (bs ! i)\<lparr>b_next := v, b_prev := w\<rparr>]) = (prevs bs)(i := w)"
  using assms by (auto simp: nexts_def prevs_def fun_eq_iff nth_list_update_if)

lemma dll_relink:
  assumes l: "lru bs L" and b: "b < NBUF"
  shows "lru (relink b bs) (b # remove1 b L)"
proof -
  let ?f = "nexts bs" and ?g = "prevs bs"
  have len: "length bs = Suc NBUF" and sL: "set L = {..<NBUF}" and d: "dll ?f ?g NBUF L" using l by (auto simp: lru_def)
  from b sL have "b \<in> set L" by simp
  then obtain xs ys where L: "L = xs @ b # ys" and nb: "b \<notin> set xs" by (metis split_list_first)
  have r: "remove1 b L = xs @ ys" using L nb by (simp add: remove1_append)
  have dist: "distinct (NBUF # L)" using d by (simp add: dll_def)
  let ?f1 = "?f(?g b := ?f b)" and ?g1 = "?g(?f b := ?g b)"
  have d1: "dll ?f1 ?g1 NBUF (xs @ ys)" by (rule dll_unlink) (use d L in simp)
  have d2: "dll ((?f1(b := ?f1 NBUF))(NBUF := b)) ((?g1(b := NBUF))(?f1 NBUF := b)) NBUF (b # xs @ ys)"
    by (rule dll_push [OF d1]) (use dist L in auto)
  have hd_in: "hd (zs @ [NBUF]) \<in> insert NBUF (set zs)" for zs by (cases zs) auto
  have fb: "?f b \<in> insert NBUF (set ys)" using dll_next [of ?f ?g NBUF xs b ys] d L hd_in [of ys] by simp
  have gb: "?g b \<in> insert NBUF (set xs)" using dll_prev [of ?f ?g NBUF xs b ys] d L last_in_set [of "NBUF # xs"] by simp
  have "?f1 NBUF = hd ((xs @ ys) @ [NBUF])" using d1 path_hd unfolding dll_def by fast
  then have f1: "?f1 NBUF \<in> insert NBUF (set (xs @ ys))" using hd_in [of "xs @ ys"] by metis
  have sub: "insert NBUF (set (xs @ ys)) \<subseteq> {..NBUF} - {b}" using L sL dist b by auto
  have in_L: "?f b < Suc NBUF" "?f b \<noteq> b" "?g b < Suc NBUF" "?g b \<noteq> b" "?f1 NBUF < Suc NBUF" "?f1 NBUF \<noteq> b"
    using fb gb f1 sub by auto
  have "nexts (relink b bs) = (?f1(b := ?f1 NBUF))(NBUF := b) \<and> prevs (relink b bs) = (?g1(b := NBUF))(?f1 NBUF := b)"
  proof -
    define bs1 where "bs1 = bs[?f b := (bs ! ?f b)\<lparr>b_prev := ?g b\<rparr>]"
    have 1: "nexts bs1 = ?f" "prevs bs1 = ?g1" "length bs1 = Suc NBUF" 
      unfolding bs1_def using len in_L by (simp_all add: link_steps)
    define bs2 where "bs2 = bs1[?g b := (bs1 ! ?g b)\<lparr>b_next := ?f b\<rparr>]"
    have 2: "nexts bs2 = ?f1" "prevs bs2 = ?g1" "length bs2 = Suc NBUF"
      unfolding bs2_def using 1 in_L by (simp_all add: link_steps)
    define bs3 where "bs3 = bs2[b := (bs2 ! b)\<lparr>b_next := ?f1 NBUF, b_prev := NBUF\<rparr>]"
    have 3: "nexts bs3 = ?f1(b := ?f1 NBUF)" "prevs bs3 = ?g1(b := NBUF)" "length bs3 = Suc NBUF"
      unfolding bs3_def using 2 b by (simp_all only: link_steps) simp_all
    define bs4 where "bs4 = bs3[?f1 NBUF := (bs3 ! ?f1 NBUF)\<lparr>b_prev := b\<rparr>]"
    have 4: "nexts bs4 = nexts bs3" "prevs bs4 = (prevs bs3)(?f1 NBUF := b)" "length bs4 = Suc NBUF"
      unfolding bs4_def using 3(3) in_L(5) by (simp_all only: link_steps length_list_update)
    have fb: "nexts bs1 b = ?f b" "prevs bs1 b = ?g b" "nexts bs2 NBUF = ?f1 NBUF" "nexts bs3 NBUF = ?f1 NBUF"
      using 1 2 3 in_L b by auto
    have "relink b bs = bs4[NBUF := (bs4 ! NBUF)\<lparr>b_next := b\<rparr>]"
      unfolding relink_def Let_def nexts_def [symmetric] prevs_def [symmetric] bs1_def [symmetric] fb bs2_def [symmetric]
        bs3_def [symmetric] bs4_def [symmetric] by (rule refl)
    then show ?thesis using 3 4 by (simp only: link_steps lessI)
  qed
  then show ?thesis using d2 sL L r len by (auto simp: lru_def relink_frame)
qed

text \<open>What matters of a buffer besides its links.\<close>

definition same_buf :: "buf \<Rightarrow> buf \<Rightarrow> bool" where
  "same_buf x y \<longleftrightarrow> b_flags x = b_flags y \<and> b_dev x = b_dev y \<and> b_blockno x = b_blockno y \<and> b_data x = b_data y"

lemma same_bufD:
  "same_buf x y \<Longrightarrow> vld x = vld y" "same_buf x y \<Longrightarrow> dty x = dty y" "same_buf x y \<Longrightarrow> is_blk b x = is_blk b y"
  "same_buf x y \<Longrightarrow> buf_ok d x = buf_ok d y" "same_buf x y \<Longrightarrow> b_data x = b_data y"
  by (auto simp: same_buf_def vld_def dty_def is_blk_def buf_ok_def)

lemma no_links_same:
  "no_links x = no_links y \<Longrightarrow> same_buf x y" "no_links x = no_links y \<Longrightarrow> b_lock x = b_lock y"
  by (cases x; cases y; simp add: no_links_def same_buf_def)+

lemma no_links_refcnt: "no_links x = no_links y \<Longrightarrow> b_refcnt x = b_refcnt y"
  by (cases x; cases y; simp add: no_links_def)

lemma cache_relinked:
  assumes ok: "cache_ok L s" and l: "lru (bcache s') L'" and d: "disk s' = disk s"
    and same: "\<And>j. j < NBUF \<Longrightarrow> same_buf (bcache s' ! j) (bcache s ! j)"
  shows "cache_ok L' s' \<and> content s' = content s"
proof
  show ok': "cache_ok L' s'"
    unfolding cache_ok_def
  proof (intro conjI allI impI)
    fix i j b
    assume "i < NBUF" "j < NBUF" "is_blk b (bcache s' ! i)" "is_blk b (bcache s' ! j)"
    then show "i = j" using cache_unique [OF ok, of i j b] same_bufD(3) [OF same, of i b] same_bufD(3) [OF same, of j b] by blast
  qed (use ok l d same_bufD(4) [OF same] in \<open>simp_all add: cache_ok_def\<close>)
  show "content s' = content s"
  proof
    fix b
    show "content s' b = content s b"
    proof (cases "\<exists>i < NBUF. is_blk b (bcache s ! i) \<and> vld (bcache s ! i)")
      case True
      then obtain i where "i < NBUF" "is_blk b (bcache s ! i)" "vld (bcache s ! i)" by blast
      then show ?thesis
        using content_cached [OF ok, of i b] content_cached [OF ok', of i b] same_bufD [OF same, of i] by simp
    next
      case False
      have "content s' b = disk s' b" 
        by (rule content_disk) (use False same_bufD [OF same] cache_length [OF ok'] in auto)
      moreover have "content s b = disk s b"
        by (rule content_disk) (use False cache_length [OF ok] in auto)
      ultimately show ?thesis using d by simp
    qed
  qed
qed

text \<open>
  \<open>brelse\<close> keeps the contents; the last holder moves the buffer to the front of the list. A buffer that is
  held stays held.
\<close>

lemma brelse_spec:
  assumes ok: "cache_ok L s" and i: "i < NBUF" and r: "brelse i s = Ok s'"
  shows "cache_ok (if b_refcnt (bcache s ! i) = 1 then i # remove1 i L else L) s' \<and> content s' = content s \<and>
    disk s' = disk s \<and> dwrites s' = dwrites s \<and> frame s s' \<and>
    sl_locked (b_lock (bcache s' ! i)) = 0 \<and> b_refcnt (bcache s' ! i) = b_refcnt (bcache s ! i) - 1 \<and>
    dty (bcache s' ! i) = dty (bcache s ! i) \<and>
    (\<forall>j < NBUF. j \<noteq> i \<longrightarrow> no_links (bcache s' ! j) = no_links (bcache s ! j))"
proof -
  let ?x = "bcache s ! i"
  define y where "y = ?x\<lparr>b_lock := \<lparr>sl_locked = 0, sl_pid = 0\<rparr>, b_refcnt := b_refcnt ?x - 1\<rparr>"
  define s1 where "s1 = upd_buf i (\<lambda>x. x\<lparr>b_refcnt := b_refcnt x - 1\<rparr>) (releasesleep (put_lock i) (ChBuf i) s)"
  have len: "i < length (bcache s)" "length (bcache s) = Suc NBUF" using i cache_length [OF ok] by simp_all
  have s1: "bcache s1 = (bcache s)[i := y]" "disk s1 = disk s" "dwrites s1 = dwrites s" "frame s s1"
    using len by (simp_all add: frame_def s1_def upd_buf_def releasesleep_def put_lock_def y_def)
  have r1: "s' = (if b_refcnt y = 0 then s1\<lparr>bcache := relink i (bcache s1)\<rparr> else s1)"
    using r s1(1) len unfolding brelse_def Let_def s1_def [symmetric]
    by (auto simp: upd_buf_def relink_def Let_def split: if_splits)
  have bc: "bcache s' = (if b_refcnt ?x = 1 then relink i ((bcache s)[i := y]) else (bcache s)[i := y])"
    by (simp add: r1 s1) (simp add: y_def)
  have nl: "no_links (bcache s' ! j) = no_links ((bcache s)[i := y] ! j)" if "j < Suc NBUF" for j
    using arg_cong [OF relink_frame(2) [of i "(bcache s)[i := y]"], of "\<lambda>xs. xs ! j"] that len relink_frame(1)
    by (simp add: bc)
  have "same_buf (bcache s' ! j) (bcache s ! j)" if "j < NBUF" for j
    using no_links_same(1) [OF nl, of j] that len by (cases "j = i") (simp_all add: same_buf_def y_def)
  moreover have "lru ((bcache s)[i := y]) L" using ok by (intro lru_upd) (simp_all add: cache_ok_def y_def)
  then have "lru (bcache s') (if b_refcnt ?x = 1 then i # remove1 i L else L)"
    using dll_relink [OF _ i] by (simp add: bc)
  ultimately have "cache_ok (if b_refcnt ?x = 1 then i # remove1 i L else L) s' \<and> content s' = content s"
    by (intro cache_relinked [OF ok]) (simp_all add: r1 s1)
  moreover have "sl_locked (b_lock (bcache s' ! i)) = 0" "b_refcnt (bcache s' ! i) = b_refcnt ?x - 1" "dty (bcache s' ! i) = dty ?x"
    using no_links_same [OF nl, of i] no_links_refcnt [OF nl, of i] len i by (simp_all add: same_bufD) (simp_all add: y_def)
  moreover have "frame s s'" using s1(4) by (simp add: r1 frame_def)
  ultimately show ?thesis using nl len s1 by (simp add: r1)
qed

subsection \<open>The operations succeed\<close>

lemma acquiresleep_total:
  "sl_locked (get s) = 0 \<Longrightarrow> cpu_proc s \<noteq> None \<Longrightarrow> \<exists>s'. acquiresleep get put s = Ok s'"
  by (auto simp: acquiresleep_def myproc_def)

lemma find_ex: "x \<in> set xs \<Longrightarrow> P x \<Longrightarrow> \<exists>y. List.find P xs = Some y"
  by (cases "List.find P xs") (auto simp: find_None_iff)

lemma bget_total:
  assumes ok: "cache_ok L s" and c: "cpu_proc s \<noteq> None"
    and hit: "\<And>j. j < NBUF \<Longrightarrow> is_blk b (bcache s ! j) \<Longrightarrow> sl_locked (b_lock (bcache s ! j)) = 0"
    and free: "\<And>j. j < NBUF \<Longrightarrow> b_refcnt (bcache s ! j) = 0 \<Longrightarrow> sl_locked (b_lock (bcache s ! j)) = 0"
    and some: "k < NBUF" "b_refcnt (bcache s ! k) = 0" "\<not> dty (bcache s ! k)"
  shows "\<exists>i s'. bget 1 b s = Ok (i, s')"
proof -
  have l: "lru (bcache s) L" using ok by (simp add: cache_ok_def)
  have go: "\<exists>s'. acquiresleep (get_lock j) (put_lock j) (upd_buf j f s) = Ok s'"
    if "j < NBUF" "sl_locked (b_lock (f (bcache s ! j))) = 0" for j f
    using that c cache_length [OF ok] by (intro acquiresleep_total) (auto simp: get_lock_def upd_buf_def)
  show ?thesis
  proof (cases "List.find (\<lambda>i. b_dev (bcache s ! i) = 1 \<and> b_blockno (bcache s ! i) = b) L")
    case (Some j)
    then have "j < NBUF" "sl_locked (b_lock (bcache s ! j)) = 0"
      using find_SomeD [OF Some] cache_mem [OF ok] hit [of j] by (auto simp: is_blk_def)
    then show ?thesis using go [of j "\<lambda>x. x\<lparr>b_refcnt := b_refcnt x + 1\<rparr>"] Some
      unfolding bget_def lru_walks [OF l] by auto
  next
    case None
    obtain j where j: "List.find (\<lambda>i. b_refcnt (bcache s ! i) = 0 \<and> b_flags (bcache s ! i) AND B_DIRTY = 0) (rev L) = Some j"
      using find_ex [of k "rev L" "\<lambda>i. b_refcnt (bcache s ! i) = 0 \<and> b_flags (bcache s ! i) AND B_DIRTY = 0"]
        some cache_mem [OF ok] by (auto simp: flag_tests)
    then have "j < NBUF" "sl_locked (b_lock (bcache s ! j)) = 0"
      using find_SomeD [OF j] cache_mem [OF ok] free [of j] by auto
    then show ?thesis using go [of j "\<lambda>x. x\<lparr>b_dev := 1, b_blockno := b, b_flags := 0, b_refcnt := 1\<rparr>"] None j
      unfolding bget_def lru_walks [OF l] by auto
  qed
qed

lemma bread_total:
  assumes ok: "cache_ok L s" and c: "cpu_proc s \<noteq> None" and b: "b < disksize s"
    and hit: "\<And>j. j < NBUF \<Longrightarrow> is_blk b (bcache s ! j) \<Longrightarrow> sl_locked (b_lock (bcache s ! j)) = 0"
    and free: "\<And>j. j < NBUF \<Longrightarrow> b_refcnt (bcache s ! j) = 0 \<Longrightarrow> sl_locked (b_lock (bcache s ! j)) = 0"
    and some: "k < NBUF" "b_refcnt (bcache s ! k) = 0" "\<not> dty (bcache s ! k)"
  shows "\<exists>i s'. bread 1 b s = Ok (i, s')"
proof -
  obtain i s1 where g: "bget 1 b s = Ok (i, s1)" using bget_total [OF ok c hit free some] by blast
  from ok g obtain y where y: "i < NBUF" "s1 = s\<lparr>bcache := (bcache s)[i := y]\<rparr>" "is_blk b y" "sl_locked (b_lock y) \<noteq> 0"
    by (rule bget_effect)
  have n: "bcache s1 ! i = y" "disksize s1 = disksize s" using y cache_length [OF ok] by simp_all
  have "\<exists>s'. iderw i s1 = Ok s'" if "\<not> vld y"
    unfolding iderw_def Let_def n flag_both using y(3,4) b that by (auto simp: holdingsleep_def is_blk_def)
  then show ?thesis using g by (auto simp: bread_def flag_tests n)
qed

lemma bwrite_total:
  assumes ok: "cache_ok L s" and h: "held i b s" and b: "b < disksize s"
  shows "\<exists>s'. bwrite i (set_data i d s) = Ok s'"
proof -
  define x where "x = (bcache s ! i)\<lparr>b_data := d, b_flags := b_flags (bcache s ! i) OR B_DIRTY\<rparr>"
  let ?s = "s\<lparr>bcache := (bcache s)[i := x]\<rparr>"
  have i: "i < length (bcache s)" using h cache_length [OF ok] by (simp add: held_def)
  have n: "bcache ?s ! i = x" "disksize ?s = disksize s" using i by simp_all
  have x: "dty x" "sl_locked (b_lock x) \<noteq> 0" "is_blk b x" using h by (simp_all add: x_def held_def is_blk_def dty_def bit_simps)
  have "\<exists>s'. iderw i ?s = Ok s'"
    unfolding iderw_def Let_def n flag_both flag_tests using x b by (auto simp: holdingsleep_def is_blk_def)
  then show ?thesis using h i by (simp add: bwrite_def holdingsleep_def held_def set_data_def upd_buf_def x_def)
qed

lemma brelse_total: "held i b s \<Longrightarrow> \<exists>s'. brelse i s = Ok s'"
  by (simp add: brelse_def held_def holdingsleep_def Let_def)

subsection \<open>The cache after \<^verbatim>\<open>binit\<close>\<close>

definition fresh :: "buf list \<Rightarrow> bool" where
  "fresh bs \<longleftrightarrow> length bs = Suc NBUF \<and>
     (\<forall>x \<in> set bs. b_flags x = 0 \<and> b_dev x = 0 \<and> b_refcnt x = 0 \<and> length (b_data x) = BSIZE)"

lemma fresh_upd:
  "fresh bs \<Longrightarrow> b_flags y = 0 \<and> b_dev y = 0 \<and> b_refcnt y = 0 \<and> length (b_data y) = BSIZE \<Longrightarrow> fresh (bs[i := y])"
  by (auto simp: fresh_def dest!: subsetD [OF set_update_subset_insert])

lemma fresh_nth:
  assumes "fresh bs" "i < Suc NBUF"
  shows "b_flags (bs ! i) = 0" "b_dev (bs ! i) = 0" "b_refcnt (bs ! i) = 0" "length (b_data (bs ! i)) = BSIZE"
  using assms nth_mem [of i bs] unfolding fresh_def by auto

lemma binit_loop_lru:
  assumes "dll (nexts bs) (prevs bs) NBUF xs" and "set xs = {..<i}" and "i + n = NBUF" and "fresh bs"
    and "\<forall>j < i. sl_locked (b_lock (bs ! j)) = 0"
  shows "dll (nexts (binit_loop n i bs)) (prevs (binit_loop n i bs)) NBUF (rev [i..<NBUF] @ xs) \<and>
    fresh (binit_loop n i bs) \<and> (\<forall>j < NBUF. sl_locked (b_lock (binit_loop n i bs ! j)) = 0)"
  using assms
proof (induction n arbitrary: i bs xs)
  case 0
  then show ?case by simp
next
  case (Suc n)
  let ?f = "nexts bs" and ?g = "prevs bs"
  have len: "length bs = Suc NBUF" and i: "i < NBUF" using Suc.prems by (simp_all add: fresh_def)
  have d: "dll ?f ?g NBUF xs" and sx: "set xs = {..<i}" using Suc.prems by simp_all
  have "?f NBUF = hd (xs @ [NBUF])" using d path_hd [of ?f NBUF xs NBUF] by (simp only: dll_def)
  moreover have "\<forall>x \<in> set xs. x < i" unfolding sx by simp
  then have "hd (xs @ [NBUF]) < Suc NBUF \<and> hd (xs @ [NBUF]) \<noteq> i" using i by (cases xs) auto
  ultimately have first: "?f NBUF < Suc NBUF" "?f NBUF \<noteq> i" by simp_all
  define b1 where "b1 = bs[i := (bs ! i)\<lparr>b_next := ?f NBUF, b_prev := NBUF, b_lock := initsleeplock\<rparr>]"
  have 1: "nexts b1 = ?f(i := ?f NBUF)" "prevs b1 = ?g(i := NBUF)" "length b1 = Suc NBUF"
    unfolding b1_def using len i by (simp_all add: links_upd)
  define b2 where "b2 = b1[?f NBUF := (b1 ! ?f NBUF)\<lparr>b_prev := i\<rparr>]"
  have 2: "nexts b2 = nexts b1" "prevs b2 = (prevs b1)(?f NBUF := i)" "length b2 = Suc NBUF"
    unfolding b2_def using 1(3) first(1) by (simp_all only: link_steps length_list_update)
  define b3 where "b3 = b2[NBUF := (b2 ! NBUF)\<lparr>b_next := i\<rparr>]"
  have 3: "nexts b3 = (nexts b2)(NBUF := i)" "prevs b3 = prevs b2" "length b3 = Suc NBUF"
    unfolding b3_def using 2(3) by (simp_all only: link_steps length_list_update lessI)
  have push: "dll (nexts b3) (prevs b3) NBUF (i # xs)"
    unfolding 3 2 1 by (rule dll_push [OF d]) (use sx i in auto)
  have fr: "fresh b1" unfolding b1_def using Suc.prems(4) by (rule fresh_upd) (use fresh_nth [OF Suc.prems(4)] i in auto)
  have fr2: "fresh b2" unfolding b2_def using fr by (rule fresh_upd) (use fresh_nth [OF fr] first in auto)
  have fr3: "fresh b3" unfolding b3_def using fr2 by (rule fresh_upd) (use fresh_nth [OF fr2] in auto)
  have l1: "b_lock (b3 ! j) = b_lock (b1 ! j)" for j
    using 1(3) 2(3) first(1) by (auto simp: b3_def b2_def nth_list_update_if)
  have lk: "sl_locked (b_lock (b3 ! j)) = 0" if "j < Suc i" for j
    using that Suc.prems(5) i len by (auto simp: l1 b1_def nth_list_update_if initsleeplock_def)
  have "binit_loop (Suc n) i bs = binit_loop n (Suc i) b3"
    unfolding binit_loop.simps Let_def nexts_def [symmetric] b1_def [symmetric] b2_def [symmetric] b3_def [symmetric] by (rule refl)
  moreover have "[i..<NBUF] = i # [Suc i..<NBUF]" using i by (simp add: upt_conv_Cons)
  ultimately show ?case using Suc.IH [OF push, of "Suc i"] Suc.prems(3) sx fr3 lk by (auto simp: lessThan_Suc)
qed

lemma binit_ok:
  assumes f: "fresh (bcache s)" and d: "\<And>b. length (disk s b) = BSIZE"
  shows "cache_ok (rev [0..<NBUF]) (binit s) \<and> content (binit s) = disk s \<and> fresh (bcache (binit s)) \<and>
    (\<forall>j < NBUF. sl_locked (b_lock (bcache (binit s) ! j)) = 0)"
proof -
  let ?bs = "(bcache s)[NBUF := (bcache s ! NBUF)\<lparr>b_prev := NBUF, b_next := NBUF\<rparr>]"
  have len: "length (bcache s) = Suc NBUF" using f by (simp add: fresh_def)
  have "dll (nexts ?bs) (prevs ?bs) NBUF []" using len by (simp add: dll_def nexts_def prevs_def)
  moreover have "fresh ?bs" using f by (rule fresh_upd) (use fresh_nth [OF f, of NBUF] in simp)
  moreover have "bcache (binit s) = binit_loop NBUF 0 ?bs" by (simp add: binit_def Let_def)
  ultimately have b: "dll (nexts (bcache (binit s))) (prevs (bcache (binit s))) NBUF (rev [0..<NBUF])"
      "fresh (bcache (binit s))" "\<forall>j < NBUF. sl_locked (b_lock (bcache (binit s) ! j)) = 0"
    using binit_loop_lru [of ?bs "[]" 0 NBUF] by auto
  then have "lru (bcache (binit s)) (rev [0..<NBUF])" by (auto simp: lru_def fresh_def)
  moreover have "disk (binit s) = disk s" by (simp add: binit_def Let_def)
  moreover have "content (binit s) = disk (binit s)"
    using fresh_nth [OF b(2)] b(2) by (auto simp: fun_eq_iff fresh_def vld_def intro!: content_disk)
  ultimately show ?thesis
    using b d fresh_nth [OF b(2)] by (auto simp: cache_ok_def buf_ok_def vld_def dty_def is_blk_def)
qed

subsection \<open>A modified block that waits in the cache\<close>

lemma same_cache:
  "bcache s' = bcache s \<Longrightarrow> disk s' = disk s \<Longrightarrow> content s' = content s"
  "bcache s' = bcache s \<Longrightarrow> disk s' = disk s \<Longrightarrow> cache_ok L s' = cache_ok L s"
  by (simp_all add: content_def [abs_def] cache_ok_def cong: option.case_cong)

text \<open>\<open>log_write\<close> on a buffer whose bytes were changed: the disk stays as it is, and the buffer is pinned.\<close>

lemma log_write_spec:
  fixes s :: "'z lst_scheme"
  assumes ok: "cache_ok L s" and h: "held i b s" and d: "length d = BSIZE" and r: "log_write i (set_data i d s) = Ok s'"
  shows "cache_ok L s' \<and> content s' = (content s)(b := d) \<and> held i b s' \<and> disk s' = disk s \<and> dwrites s' = dwrites s \<and>
    dty (bcache s' ! i) \<and> b_refcnt (bcache s' ! i) = b_refcnt (bcache s ! i) \<and>
    cpu_proc s' = cpu_proc s \<and> disksize s' = disksize s \<and> (\<forall>j. j \<noteq> i \<longrightarrow> bcache s' ! j = bcache s ! j)"
proof -
  let ?x = "bcache s ! i"
  define y where "y = ?x\<lparr>b_data := d, b_flags := b_flags ?x OR B_DIRTY\<rparr>"
  have i: "i < NBUF" "is_blk b ?x" "vld ?x" "sl_locked (b_lock ?x) \<noteq> 0" using h by (auto simp: held_def)
  have len: "i < length (bcache s)" using i(1) cache_length [OF ok] by simp
  have y: "is_blk c y \<longleftrightarrow> c = b" "vld y" "dty y" "b_data y = d" "b_dev y = 1" "b_lock y = b_lock ?x" "b_refcnt y = b_refcnt ?x" for c
    using i(2,3) by (auto simp: y_def is_blk_def vld_def dty_def bit_simps)
  have s': "bcache s' = (bcache s)[i := y]" "disk s' = disk s" "dwrites s' = dwrites s" "cpu_proc s' = cpu_proc s" "disksize s' = disksize s"
    using r len by (auto simp: log_write_def set_data_def upd_buf_def y_def Let_def split: if_splits)
  have "cache_ok L s' \<and> content s' = (\<lambda>c. if is_blk c y \<and> vld y then b_data y else content s c)"
  proof (rule cache_step [where w = False, OF ok i(1)])
    show "\<not> is_blk c (bcache s ! j)" if "j < NBUF" "j \<noteq> i" "is_blk c y" for j c
      using cache_unique [OF ok that(1) i(1), of c] that(2,3) y(1) i(2) by auto
    show "buf_ok (disk s') y" using d y by (simp add: buf_ok_def)
  qed (use y s' i in \<open>auto simp: y_def is_blk_def\<close>)
  moreover have "(\<lambda>c. if is_blk c y \<and> vld y then b_data y else content s c) = (content s)(b := d)"
    using y by (auto simp: fun_eq_iff)
  moreover have "held i b s'" using i y len by (simp add: held_def s')
  ultimately show ?thesis using y len by (simp add: s')
qed

subsection \<open>The cache is an array of blocks\<close>

text \<open>
  \<open>cached s m\<close>: the kernel has come from \<open>binit\<close> to state \<open>s\<close> by operations of the cache and by steps that do not
  touch it, and \<open>m\<close> is the array of blocks that results when every write simply replaces the block. A
  process changes only the bytes of a buffer it has locked.
\<close>

inductive cached :: "'z lst_scheme \<Rightarrow> (uint \<Rightarrow> uchar list) \<Rightarrow> bool" where
  c_start: "fresh (bcache s) \<Longrightarrow> \<forall>b. length (disk s b) = BSIZE \<Longrightarrow> cached (binit s) (disk s)"
| c_read: "cached s m \<Longrightarrow> bread 1 b s = Ok (i, s') \<Longrightarrow> cached s' m"
| c_write: "cached s m \<Longrightarrow> i < NBUF \<Longrightarrow> sl_locked (b_lock (bcache s ! i)) \<noteq> 0 \<Longrightarrow> length d = BSIZE \<Longrightarrow>
    bwrite i (set_data i d s) = Ok s' \<Longrightarrow> cached s' (m(b_blockno (bcache s ! i) := d))"
| c_log: "cached s m \<Longrightarrow> i < NBUF \<Longrightarrow> sl_locked (b_lock (bcache s ! i)) \<noteq> 0 \<Longrightarrow> length d = BSIZE \<Longrightarrow>
    log_write i (set_data i d s) = Ok s' \<Longrightarrow> cached s' (m(b_blockno (bcache s ! i) := d))"
| c_release: "cached s m \<Longrightarrow> i < NBUF \<Longrightarrow> brelse i s = Ok s' \<Longrightarrow> cached s' m"
| c_other: "cached s m \<Longrightarrow> bcache s' = bcache s \<Longrightarrow> disk s' = disk s \<Longrightarrow> cached s' m"

definition locks_ok :: "'z bst_scheme \<Rightarrow> bool" where
  "locks_ok s \<longleftrightarrow> (\<forall>i < NBUF. sl_locked (b_lock (bcache s ! i)) \<noteq> 0 \<longrightarrow> held i (b_blockno (bcache s ! i)) s)"

lemma locks_okI:
  assumes "locks_ok s" and "\<And>j. j < NBUF \<Longrightarrow> j \<noteq> i \<Longrightarrow> no_links (bcache s' ! j) = no_links (bcache s ! j)"
    and "sl_locked (b_lock (bcache s' ! i)) \<noteq> 0 \<Longrightarrow> held i b s'"
  shows "locks_ok s'"
  unfolding locks_ok_def
proof (intro allI impI)
  fix j
  assume j: "j < NBUF" "sl_locked (b_lock (bcache s' ! j)) \<noteq> 0"
  show "held j (b_blockno (bcache s' ! j)) s'"
  proof (cases "j = i")
    case True
    then show ?thesis using assms(3) j by (auto simp: held_def is_blk_def)
  next
    case False
    note e = no_links_same [OF assms(2) [OF j(1) False]]
    show ?thesis
      using assms(1) j e(2) same_bufD [OF e(1)] e(1) by (auto simp: locks_ok_def held_def same_buf_def)
  qed
qed

lemma cached_inv: "cached s m \<Longrightarrow> (\<exists>L. cache_ok L s) \<and> content s = m \<and> locks_ok s"
proof (induction rule: cached.induct)
  case (c_start s)
  then show ?case using binit_ok [of s] by (auto simp: locks_ok_def)
next
  case (c_read s m b i s')
  then obtain L where "cache_ok L s" by blast
  note sp = bread_spec [OF this c_read.hyps(2)]
  have "locks_ok s'" by (rule locks_okI [of s i]) (use c_read.IH sp in auto)
  then show ?case using sp c_read.IH by auto
next
  case (c_write s m i d s')
  then obtain L where ok: "cache_ok L s" by blast
  have "held i (b_blockno (bcache s ! i)) s" using c_write by (simp add: locks_ok_def)
  note sp = bwrite_spec [OF ok this c_write.hyps(4,5)]
  have "locks_ok s'" by (rule locks_okI [of s i]) (use c_write.IH sp in auto)
  then show ?case using sp c_write.IH by auto
next
  case (c_log s m i d s')
  then obtain L where ok: "cache_ok L s" by blast
  have "held i (b_blockno (bcache s ! i)) s" using c_log by (simp add: locks_ok_def)
  note sp = log_write_spec [OF ok this c_log.hyps(4,5)]
  have "locks_ok s'" by (rule locks_okI [of s i]) (use c_log.IH sp in auto)
  then show ?case using sp c_log.IH by auto
next
  case (c_release s m i s')
  then obtain L where ok: "cache_ok L s" by blast
  note sp = brelse_spec [OF ok c_release.hyps(2,3)]
  have "locks_ok s'" by (rule locks_okI [of s i]) (use c_release.IH sp in auto)
  then show ?case using sp c_release.IH by auto
next
  case (c_other s m s')
  then show ?case using same_cache [of s' s] by (simp add: locks_ok_def held_def)
qed

text \<open>
  C23. The buffer cache refines an array of blocks: whatever reads, writes, logged modifications and
  releases have gone before, and whichever buffers were recycled on the way, \<open>bread\<close> returns, locked, the bytes that
  were last given to the block.
\<close>

theorem bread_refines_array:
  assumes "cached s m" and "bread 1 b s = Ok (i, s')"
  shows "b_data (bcache s' ! i) = m b \<and> b_blockno (bcache s' ! i) = b \<and> sl_locked (b_lock (bcache s' ! i)) \<noteq> 0 \<and> cached s' m"
proof -
  obtain L where "cache_ok L s" "content s = m" using cached_inv [OF assms(1)] by blast
  then show ?thesis using bread_spec [OF _ assms(2)] c_read [OF assms] by (simp add: held_def is_blk_def)
qed

definition lst_demo :: lst where
  "lst_demo = binit (lst_boot\<lparr>cpu_proc := Some 0\<rparr>)"

lemma lst_demo_fields [simp]:
  "cpu_proc lst_demo = Some 0" "disk lst_demo = (\<lambda>_. replicate BSIZE 0)" "disksize lst_demo = of_nat FSSIZE"
  "log_start lst_demo = 0" "log_dev lst_demo = 0" "lh_n lst_demo = 0" "lh_block lst_demo = replicate LOGSIZE 0"
  by (simp_all add: lst_demo_def binit_def Let_def lst_boot_def bst_boot_def pst.defs bst.defs lst.defs)

lemma lst_demo_ok:
  "cached lst_demo (\<lambda>_. replicate BSIZE 0)" "cache_ok (rev [0..<NBUF]) lst_demo" "content lst_demo = (\<lambda>_. replicate BSIZE 0)"
  "fresh (bcache lst_demo)" "j < NBUF \<Longrightarrow> sl_locked (b_lock (bcache lst_demo ! j)) = 0"
proof -
  let ?s = "lst_boot\<lparr>cpu_proc := Some 0\<rparr>"
  have f: "fresh (bcache ?s)" "disk ?s = (\<lambda>_. replicate BSIZE 0)"
    by (simp_all add: fresh_def lst_boot_def bst_boot_def pst.defs bst.defs lst.defs buf_boot_def)
  show "cached lst_demo (\<lambda>_. replicate BSIZE 0)" using c_start [OF f(1)] f(2) by (simp add: lst_demo_def)
  show "cache_ok (rev [0..<NBUF]) lst_demo" "content lst_demo = (\<lambda>_. replicate BSIZE 0)" "fresh (bcache lst_demo)"
    "j < NBUF \<Longrightarrow> sl_locked (b_lock (bcache lst_demo ! j)) = 0"
    using binit_ok [OF f(1)] f(2) by (simp_all add: lst_demo_def)
qed

lemma lst_demo_bread: "b < 1000 \<Longrightarrow> \<exists>i s'. bread 1 b lst_demo = Ok (i, s')"
  by (rule bread_total [OF lst_demo_ok(2), where k = 0])
    (simp_all add: lst_demo_ok fresh_nth [OF lst_demo_ok(4)] dty_def)

theorem bread_refines_array_witness:
  "\<exists>i s'. bread 1 7 lst_demo = Ok (i, s') \<and> b_data (bcache s' ! i) = replicate BSIZE 0"
proof -
  obtain i s' where r: "bread 1 7 lst_demo = Ok (i, s')" using lst_demo_bread [of 7] by auto
  show ?thesis using bread_refines_array [OF lst_demo_ok(1) r] r by blast
qed

text \<open>
  C24. Replacement is by least recent use. On a miss \<open>bget\<close> takes the buffer that is last in the order of use among
  those that nobody refers to and that hold no logged modification; it panics exactly when there is none.
\<close>

theorem bget_replaces_lru:
  assumes ok: "cache_ok L s" and miss: "\<forall>j < NBUF. \<not> is_blk b (bcache s ! j)" and c: "cpu_proc s \<noteq> None"
    and free: "\<forall>j < NBUF. b_refcnt (bcache s ! j) = 0 \<longrightarrow> sl_locked (b_lock (bcache s ! j)) = 0"
  shows "case List.find (\<lambda>j. b_refcnt (bcache s ! j) = 0 \<and> \<not> dty (bcache s ! j)) (rev L) of
      Some i \<Rightarrow> \<exists>s'. bget 1 b s = Ok (i, s') \<and> is_blk b (bcache s' ! i) \<and> cache_ok L s' \<and> content s' = content s
    | None \<Rightarrow> bget 1 b s = Panic ''bget: no buffers''"
proof -
  have l: "lru (bcache s) L" using ok by (simp add: cache_ok_def)
  let ?new = "\<lambda>x. x\<lparr>b_dev := 1, b_blockno := b, b_flags := 0, b_refcnt := 1\<rparr>"
  have none: "List.find (\<lambda>i. b_dev (bcache s ! i) = 1 \<and> b_blockno (bcache s ! i) = b) L = None"
    using miss cache_mem [OF ok] by (auto simp: find_None_iff is_blk_def)
  show ?thesis
  proof (cases "List.find (\<lambda>j. b_refcnt (bcache s ! j) = 0 \<and> \<not> dty (bcache s ! j)) (rev L)")
    case None
    then show ?thesis unfolding bget_def lru_walks [OF l] none flag_tests by simp
  next
    case (Some i)
    then have "i < NBUF" "sl_locked (b_lock (bcache s ! i)) = 0"
      using find_SomeD [OF Some] cache_mem [OF ok] free by auto
    then obtain s' where "acquiresleep (get_lock i) (put_lock i) (upd_buf i ?new s) = Ok s'"
      using acquiresleep_total [of "get_lock i" "upd_buf i ?new s" "put_lock i"] c cache_length [OF ok]
      by (auto simp: get_lock_def upd_buf_def)
    then have g: "bget 1 b s = Ok (i, s')" unfolding bget_def lru_walks [OF l] none flag_tests by (simp add: Some)
    from ok g obtain y where "i < NBUF" "s' = s\<lparr>bcache := (bcache s)[i := y]\<rparr>" "is_blk b y" by (rule bget_effect)
    then show ?thesis using Some g bget_keeps [OF ok g] cache_length [OF ok] by simp
  qed
qed

theorem bget_replaces_lru_witness:
  "\<exists>s'. bget 1 7 lst_demo = Ok (0, s') \<and> is_blk 7 (bcache s' ! 0)"
proof -
  have "List.find (\<lambda>j. b_refcnt (bcache lst_demo ! j) = 0 \<and> \<not> dty (bcache lst_demo ! j)) (rev (rev [0..<NBUF])) = Some 0"
    using fresh_nth [OF lst_demo_ok(4)] by (simp add: dty_def upt_rec)
  then show ?thesis
    using bget_replaces_lru [OF lst_demo_ok(2), of 7] lst_demo_ok(5) fresh_nth [OF lst_demo_ok(4)] by (auto simp: is_blk_def)
qed

end
