(* ===== verification/LogWrites.thy ===== *)
theory LogWrites
  imports BioCache
begin

section \<open>What the log writes to the disk\<close>

text \<open>
  \<open>opened A ws s s'\<close>: between \<open>s\<close> and \<open>s'\<close> the disk writes \<open>ws\<close> have been made, in this order, and the process
  has exactly the buffers of \<open>A\<close> in its hands, each with the block it is for. The operations of the cache
  succeed in such states, for there is always a buffer to spare: at most 28 of the 30 are pinned.
\<close>

definition apply_writes :: "(uint \<times> uchar list) list \<Rightarrow> (uint \<Rightarrow> uchar list) \<Rightarrow> uint \<Rightarrow> uchar list" where
  "apply_writes ws d = fold (\<lambda>(b, x) d. d(b := x)) ws d"

lemma apply_writes_simps [simp]:
  "apply_writes [] d = d" "apply_writes ((b, x) # ws) d = apply_writes ws (d(b := x))"
  "apply_writes (ws @ ws') d = apply_writes ws' (apply_writes ws d)"
  by (simp_all add: apply_writes_def)

definition dirty :: "'z bst_scheme \<Rightarrow> nat set" where
  "dirty s = {i. i < NBUF \<and> dty (bcache s ! i)}"

definition opened :: "(nat \<rightharpoonup> uint) \<Rightarrow> (uint \<times> uchar list) list \<Rightarrow> 'z bst_scheme \<Rightarrow> 'z bst_scheme \<Rightarrow> bool" where
  "opened A ws s s' \<longleftrightarrow> (\<exists>L. cache_ok L s') \<and> disk s' = apply_writes ws (disk s) \<and>
     content s' = apply_writes ws (content s) \<and> dwrites s' = rev ws @ dwrites s \<and> frame s s' \<and>
     cpu_proc s' \<noteq> None \<and> (\<forall>i \<in> dom A. i < NBUF) \<and> card (dirty s') \<le> 28 \<and>
     (\<forall>i < NBUF. case A i of None \<Rightarrow> sl_locked (b_lock (bcache s' ! i)) = 0 \<and> b_refcnt (bcache s' ! i) = 0
        | Some x \<Rightarrow> held i x s' \<and> b_refcnt (bcache s' ! i) = 1)"

lemma openedD:
  assumes "opened A ws s s'"
  shows "\<exists>L. cache_ok L s'" "frame s s'" "cpu_proc s' \<noteq> None" "card (dirty s') \<le> 28"
    and "A i = Some x \<Longrightarrow> i < NBUF \<and> held i x s' \<and> b_refcnt (bcache s' ! i) = 1"
    and "i < NBUF \<Longrightarrow> A i = None \<Longrightarrow> sl_locked (b_lock (bcache s' ! i)) = 0 \<and> b_refcnt (bcache s' ! i) = 0"
proof -
  show "\<exists>L. cache_ok L s'" "frame s s'" "cpu_proc s' \<noteq> None" "card (dirty s') \<le> 28"
    using assms unfolding opened_def by blast+
  show "A i = Some x \<Longrightarrow> i < NBUF \<and> held i x s' \<and> b_refcnt (bcache s' ! i) = 1"
    using assms unfolding opened_def by (auto dest!: spec [of _ i])
  show "i < NBUF \<Longrightarrow> A i = None \<Longrightarrow> sl_locked (b_lock (bcache s' ! i)) = 0 \<and> b_refcnt (bcache s' ! i) = 0"
    using assms unfolding opened_def by (auto dest!: spec [of _ i])
qed

text \<open>A new start, after a change that leaves the cache alone.\<close>

lemma opened_start:
  assumes o: "opened A ws s s1" and e: "bcache s2 = bcache s1" "disk s2 = disk s1" "cpu_proc s2 = cpu_proc s1"
  shows "opened A [] s2 s2"
proof -
  have "held i x s2 = held i x s1" for i x by (simp add: held_def e)
  moreover have "dirty s2 = dirty s1" by (simp add: dirty_def e)
  moreover have "cache_ok L s2 = cache_ok L s1" for L by (rule same_cache(2) [OF e(1,2)])
  ultimately show ?thesis using o unfolding opened_def by (simp add: e cong: option.case_cong)
qed

lemma dirty_mono: "(\<And>j. j < NBUF \<Longrightarrow> dty (bcache s' ! j) \<Longrightarrow> dty (bcache s ! j)) \<Longrightarrow> card (dirty s) \<le> 28 \<Longrightarrow> card (dirty s') \<le> 28"
proof -
  assume a: "\<And>j. j < NBUF \<Longrightarrow> dty (bcache s' ! j) \<Longrightarrow> dty (bcache s ! j)" and c: "card (dirty s) \<le> 28"
  have "dirty s' \<subseteq> dirty s" using a by (auto simp: dirty_def)
  then have "card (dirty s') \<le> card (dirty s)" by (intro card_mono) (auto simp: dirty_def)
  then show ?thesis using c by simp
qed

lemma spare_element:
  fixes D E :: "nat set"
  assumes "card D + card E < n" and "finite D" "finite E"
  obtains k where "k < n" "k \<notin> D" "k \<notin> E"
proof -
  have "\<not> {..<n} \<subseteq> D \<union> E"
    using card_mono [of "D \<union> E" "{..<n}"] card_Un_le [of D E] assms by auto
  then show ?thesis using that by auto
qed

lemma spare_buffer:
  assumes "card (dirty s) \<le> 28" and "finite (dom A)" and "card (dom A) \<le> 1"
  obtains k where "k < NBUF" "\<not> dty (bcache s ! k)" "A k = None"
proof -
  have "finite (dirty s)" by (simp add: dirty_def)
  moreover have "card (dirty s) + card (dom A) < NBUF" using assms by simp
  ultimately obtain k where k: "k < NBUF" "k \<notin> dirty s" "k \<notin> dom A"
    using spare_element [of "dirty s" "dom A" NBUF] assms(2) by metis
  show ?thesis by (rule that [of k]) (use k in \<open>auto simp: dirty_def domIff\<close>)
qed

lemma held_same:
  assumes "no_links (bcache s' ! i) = no_links (bcache s ! i)"
  shows "held i b s' = held i b s"
  unfolding held_def same_bufD(1) [OF no_links_same(1) [OF assms]] same_bufD(3) [OF no_links_same(1) [OF assms]]
    no_links_same(2) [OF assms] by (rule refl)

lemma open_block:
  assumes o: "opened A ws s s1" and A: "finite (dom A)" "card (dom A) \<le> 1" "x \<notin> ran A" and x: "x < disksize s"
  obtains i s2 where "bread 1 x s1 = Ok (i, s2)" "opened (A(i \<mapsto> x)) ws s s2" "A i = None" "i < NBUF"
    "b_data (bcache s2 ! i) = content s1 x" "content s2 = content s1"
    "\<And>j. j \<noteq> i \<Longrightarrow> bcache s2 ! j = bcache s1 ! j"
proof -
  obtain L where L: "cache_ok L s1" using openedD(1) [OF o] by blast
  obtain k where k: "k < NBUF" "\<not> dty (bcache s1 ! k)" "A k = None"
    using spare_buffer [OF openedD(4) [OF o] A(1,2)] by blast
  have "\<exists>i s2. bread 1 x s1 = Ok (i, s2)"
  proof (rule bread_total [OF L openedD(3) [OF o], where k = k])
    show "x < disksize s1" using x openedD(2) [OF o] by (simp add: frame_def)
    show "sl_locked (b_lock (bcache s1 ! j)) = 0" if "j < NBUF" "is_blk x (bcache s1 ! j)" for j
    proof (cases "A j")
      case (Some y)
      then have "y = x" using openedD(5) [OF o Some] that(2) by (auto simp: held_def is_blk_def)
      then show ?thesis using Some A(3) by (auto simp: ran_def)
    qed (use openedD(6) [OF o that(1)] in simp)
    show "sl_locked (b_lock (bcache s1 ! j)) = 0" if "j < NBUF" "b_refcnt (bcache s1 ! j) = 0" for j
      using that openedD(5) [OF o, of j] openedD(6) [OF o, of j] by (cases "A j") auto
  qed (use k openedD(6) [OF o k(1)] in simp_all)
  then obtain i s2 where r: "bread 1 x s1 = Ok (i, s2)" by blast
  note sp = bread_spec [OF L r]
  have i: "i < NBUF" "A i = None" using sp openedD(5) [OF o, of i] by (cases "A i"; auto simp: held_def)+
  have "card (dirty s2) \<le> 28" by (rule dirty_mono [OF _ openedD(4) [OF o]]) (use sp in metis)
  moreover have "case (A(i \<mapsto> x)) j of None \<Rightarrow> sl_locked (b_lock (bcache s2 ! j)) = 0 \<and> b_refcnt (bcache s2 ! j) = 0
        | Some x \<Rightarrow> held j x s2 \<and> b_refcnt (bcache s2 ! j) = 1" if "j < NBUF" for j
    using that sp openedD(5) [OF o, of j] openedD(6) [OF o, of j] openedD(6) [OF o i] held_same [of s2 j s1]
    by (cases "j = i"; cases "A j") auto
  ultimately have "opened (A(i \<mapsto> x)) ws s s2"
    using o sp i frame_trans [of s s1 s2] unfolding opened_def by (auto simp: frame_def)
  then show thesis using that r i sp by blast
qed

lemma write_block:
  assumes o: "opened A ws s s1" and i: "A i = Some x" and x: "x < disksize s" and d: "length d = BSIZE"
  obtains s2 where "bwrite i (set_data i d s1) = Ok s2" "opened A (ws @ [(x, d)]) s s2" "content s2 = (content s1)(x := d)"
    "\<And>j. j \<noteq> i \<Longrightarrow> bcache s2 ! j = bcache s1 ! j"
proof -
  obtain L where L: "cache_ok L s1" using openedD(1) [OF o] by blast
  have h: "held i x s1" "i < NBUF" using openedD(5) [OF o i] by simp_all
  obtain s2 where r: "bwrite i (set_data i d s1) = Ok s2"
    using bwrite_total [OF L h(1)] x openedD(2) [OF o] by (auto simp: frame_def)
  note sp = bwrite_spec [OF L h(1) d r]
  have "card (dirty s2) \<le> 28" by (rule dirty_mono [OF _ openedD(4) [OF o]]) (use sp in metis)
  moreover have "case A j of None \<Rightarrow> sl_locked (b_lock (bcache s2 ! j)) = 0 \<and> b_refcnt (bcache s2 ! j) = 0
        | Some x \<Rightarrow> held j x s2 \<and> b_refcnt (bcache s2 ! j) = 1" if "j < NBUF" for j
    using that sp i openedD(5) [OF o, of j] openedD(6) [OF o, of j] held_same [of s2 j s1]
    by (cases "j = i"; cases "A j") auto
  ultimately have "opened A (ws @ [(x, d)]) s s2"
    using o sp frame_trans [of s s1 s2] unfolding opened_def by (auto simp: frame_def)
  then show thesis using that r sp by blast
qed

lemma close_block:
  assumes o: "opened A ws s s1" and i: "A i = Some x"
  obtains s2 where "brelse i s1 = Ok s2" "opened (A(i := None)) ws s s2" "content s2 = content s1"
proof -
  obtain L where L: "cache_ok L s1" using openedD(1) [OF o] by blast
  have h: "held i x s1" "i < NBUF" "b_refcnt (bcache s1 ! i) = 1" using openedD(5) [OF o i] by simp_all
  obtain s2 where r: "brelse i s1 = Ok s2" using brelse_total [OF h(1)] by blast
  note sp = brelse_spec [OF L h(2) r]
  have e: "no_links (bcache s2 ! j) = no_links (bcache s1 ! j)" if "j < NBUF" "j \<noteq> i" for j using sp that by blast
  have "card (dirty s2) \<le> 28"
  proof (rule dirty_mono [OF _ openedD(4) [OF o]])
    show "dty (bcache s1 ! j)" if "j < NBUF" "dty (bcache s2 ! j)" for j
      using that sp same_bufD(2) [OF no_links_same(1) [OF e]] by (cases "j = i") auto
  qed
  moreover have "case (A(i := None)) j of None \<Rightarrow> sl_locked (b_lock (bcache s2 ! j)) = 0 \<and> b_refcnt (bcache s2 ! j) = 0
        | Some x \<Rightarrow> held j x s2 \<and> b_refcnt (bcache s2 ! j) = 1" if "j < NBUF" for j
    using that sp h openedD(5) [OF o, of j] openedD(6) [OF o, of j] held_same [OF e] no_links_same(2) [OF e] no_links_refcnt [OF e]
    by (cases "j = i"; cases "A j") auto
  moreover have "\<forall>i \<in> dom (A(i := None)). i < NBUF" using o by (auto simp: opened_def)
  ultimately have "opened (A(i := None)) ws s s2"
    using o sp frame_trans [of s s1 s2] unfolding opened_def by (auto simp: frame_def)
  then show thesis using that r sp by blast
qed

text \<open>Two blocks are read, one is overwritten, both are released.\<close>

lemma open_two:
  assumes o: "opened Map.empty ws s s1" and xy: "x \<noteq> y" "x < disksize s" "y < disksize s"
  obtains i s2 j s3 where "bread 1 x s1 = Ok (i, s2)" "bread 1 y s2 = Ok (j, s3)" "i \<noteq> j"
    "opened [i \<mapsto> x, j \<mapsto> y] ws s s3" "b_data (bcache s3 ! i) = content s1 x" "b_data (bcache s3 ! j) = content s1 y"
    "content s3 = content s1" "frame s s2"
proof -
  obtain i s2 where 1: "bread 1 x s1 = Ok (i, s2)" "opened [i \<mapsto> x] ws s s2" "b_data (bcache s2 ! i) = content s1 x" "content s2 = content s1"
    by (rule open_block [OF o, of x]) (use xy in auto)
  obtain j s3 where 2: "bread 1 y s2 = Ok (j, s3)" "opened [i \<mapsto> x, j \<mapsto> y] ws s s3" "[i \<mapsto> x] j = None"
      "b_data (bcache s3 ! j) = content s2 y" "content s3 = content s2" "\<And>k. k \<noteq> j \<Longrightarrow> bcache s3 ! k = bcache s2 ! k"
    by (rule open_block [OF 1(2), of y]) (use xy in auto)
  have "i \<noteq> j" using 2(3) by auto
  then show thesis using that 1 2 openedD(2) [OF 1(2)] by auto
qed

lemma write_close_two:
  assumes o: "opened A ws s s1" and A: "A = [i \<mapsto> x, j \<mapsto> y] \<or> A = [j \<mapsto> y, i \<mapsto> x]" "i \<noteq> j"
    and x: "x < disksize s" and d: "b_data (bcache s1 ! j) = d"
  obtains s2 s3 s4 where "bwrite i (copy_block j i s1) = Ok s2" "brelse j s2 = Ok s3" "brelse i s3 = Ok s4"
    "opened Map.empty (ws @ [(x, d)]) s s4" "content s4 = (content s1)(x := d)"
proof -
  have Ai: "A i = Some x" and Aj: "A j = Some y" "(A(j := None)) i = Some x" using A by auto
  obtain L where L: "cache_ok L s1" using openedD(1) [OF o] by blast
  have "length d = BSIZE" using cache_buf [OF L] openedD(5) [OF o Aj(1)] d by (auto simp: buf_ok_def)
  from write_block [OF o Ai x this] obtain s2 where 1: "bwrite i (set_data i d s1) = Ok s2"
    "opened A (ws @ [(x, d)]) s s2" "content s2 = (content s1)(x := d)" by metis
  obtain s3 where 2: "brelse j s2 = Ok s3" "opened (A(j := None)) (ws @ [(x, d)]) s s3" "content s3 = content s2"
    using close_block [OF 1(2) Aj(1)] by metis
  obtain s4 where 3: "brelse i s3 = Ok s4" "opened (A(j := None, i := None)) (ws @ [(x, d)]) s s4" "content s4 = content s3"
    using close_block [OF 2(2) Aj(2)] by metis
  have "A(j := None, i := None) = Map.empty" using A by auto
  then show thesis using that 1 2 3 d by (auto simp: copy_block_def)
qed

lemma frame_lst:
  fixes s s' :: "'z lst_scheme"
  assumes "frame s s'"
  shows "log_dev s' = log_dev s" "log_start s' = log_start s" "lh_n s' = lh_n s" "lh_block s' = lh_block s"
    "log_size s' = log_size s" "log_outstanding s' = log_outstanding s" "log_committing s' = log_committing s"
  using assms by (cases s; cases s'; simp add: frame_def)+

abbreviation log_block :: "'z lst_scheme \<Rightarrow> nat \<Rightarrow> uint" where
  "log_block s k \<equiv> log_start s + of_nat k + 1"

abbreviation home_block :: "'z lst_scheme \<Rightarrow> nat \<Rightarrow> uint" where
  "home_block s k \<equiv> lh_block s ! k"

lemma write_log_loop_writes:
  fixes s0 s :: "'z lst_scheme"
  assumes "opened Map.empty ws s0 s" and dev: "log_dev s0 = 1"
    and "\<And>k. k < tail + n \<Longrightarrow> log_block s0 k < disksize s0 \<and> home_block s0 k < disksize s0"
    and "\<And>j k. j < tail + n \<Longrightarrow> k < tail + n \<Longrightarrow> log_block s0 j \<noteq> home_block s0 k"
  shows "\<exists>s'. write_log_loop n tail s = Ok s' \<and>
    opened Map.empty (ws @ map (\<lambda>k. (log_block s0 k, content s (home_block s0 k))) [tail..<tail + n]) s0 s'"
  using assms
proof (induction n arbitrary: tail s ws)
  case 0
  then show ?case by simp
next
  case (Suc n)
  let ?x = "log_block s0 tail" and ?y = "home_block s0 tail"
  note fr = frame_lst [OF openedD(2) [OF Suc.prems(1)]]
  obtain i s1 j s2 where r: "bread 1 ?x s = Ok (i, s1)" "bread 1 ?y s1 = Ok (j, s2)" "i \<noteq> j"
    "opened [i \<mapsto> ?x, j \<mapsto> ?y] ws s0 s2" "b_data (bcache s2 ! j) = content s ?y" "content s2 = content s" "frame s0 s1"
    by (rule open_two [OF Suc.prems(1), of ?x ?y]) (use Suc.prems(3,4) in auto)
  note fr1 = frame_lst [OF r(7)]
  obtain s3 s4 s5 where w: "bwrite i (copy_block j i s2) = Ok s3" "brelse j s3 = Ok s4" "brelse i s4 = Ok s5"
    "opened Map.empty (ws @ [(?x, content s ?y)]) s0 s5" "content s5 = (content s2)(?x := content s ?y)"
    by (rule write_close_two [OF r(4) disjI1 [OF refl] r(3) _ r(5)]) (use Suc.prems(3) in auto)
  have e: "content s5 (home_block s0 k) = content s (home_block s0 k)" if "k < Suc tail + n" for k
    using Suc.prems(4) [of tail k] that w(5) r(6) by auto
  have m: "map (\<lambda>k. (log_block s0 k, content s5 (home_block s0 k))) [Suc tail..<Suc tail + n] =
      map (\<lambda>k. (log_block s0 k, content s (home_block s0 k))) [Suc tail..<Suc tail + n]"
    by (rule map_cong) (use e in auto)
  have up: "[tail..<tail + Suc n] = tail # [Suc tail..<Suc tail + n]" by (simp add: upt_conv_Cons)
  have "write_log_loop (Suc n) tail s = write_log_loop n (Suc tail) s5"
    using r(1,2) w(1-3) fr(1-4) fr1(1-4) dev by simp
  moreover have "\<exists>s'. write_log_loop n (Suc tail) s5 = Ok s' \<and>
    opened Map.empty ((ws @ [(?x, content s ?y)]) @ map (\<lambda>k. (log_block s0 k, content s5 (home_block s0 k))) [Suc tail..<Suc tail + n]) s0 s'"
    by (rule Suc.IH [OF w(4) dev]) (use Suc.prems(3,4) in auto)
  ultimately show ?case unfolding m up by simp
qed

lemma install_loop_writes:
  fixes s0 s :: "'z lst_scheme"
  assumes "opened Map.empty ws s0 s" and dev: "log_dev s0 = 1"
    and "\<And>k. k < tail + n \<Longrightarrow> log_block s0 k < disksize s0 \<and> home_block s0 k < disksize s0"
    and "\<And>j k. j < tail + n \<Longrightarrow> k < tail + n \<Longrightarrow> log_block s0 j \<noteq> home_block s0 k"
  shows "\<exists>s'. install_loop n tail s = Ok s' \<and>
    opened Map.empty (ws @ map (\<lambda>k. (home_block s0 k, content s (log_block s0 k))) [tail..<tail + n]) s0 s'"
  using assms
proof (induction n arbitrary: tail s ws)
  case 0
  then show ?case by simp
next
  case (Suc n)
  let ?x = "log_block s0 tail" and ?y = "home_block s0 tail"
  note fr = frame_lst [OF openedD(2) [OF Suc.prems(1)]]
  obtain i s1 j s2 where r: "bread 1 ?x s = Ok (i, s1)" "bread 1 ?y s1 = Ok (j, s2)" "i \<noteq> j"
    "opened [i \<mapsto> ?x, j \<mapsto> ?y] ws s0 s2" "b_data (bcache s2 ! i) = content s ?x" "content s2 = content s" "frame s0 s1"
    by (rule open_two [OF Suc.prems(1), of ?x ?y]) (use Suc.prems(3,4) in auto)
  note fr1 = frame_lst [OF r(7)]
  obtain s3 s4 s5 where w: "bwrite j (copy_block i j s2) = Ok s3" "brelse i s3 = Ok s4" "brelse j s4 = Ok s5"
    "opened Map.empty (ws @ [(?y, content s ?x)]) s0 s5" "content s5 = (content s2)(?y := content s ?x)"
    by (rule write_close_two [OF r(4) disjI2 [OF refl] r(3) [symmetric] _ r(5)]) (use Suc.prems(3) in auto)
  have e: "content s5 (log_block s0 k) = content s (log_block s0 k)" if "k < Suc tail + n" for k
    using Suc.prems(4) [of k tail] that w(5) r(6) by auto
  have m: "map (\<lambda>k. (home_block s0 k, content s5 (log_block s0 k))) [Suc tail..<Suc tail + n] =
      map (\<lambda>k. (home_block s0 k, content s (log_block s0 k))) [Suc tail..<Suc tail + n]"
    by (rule map_cong) (use e in auto)
  have up: "[tail..<tail + Suc n] = tail # [Suc tail..<Suc tail + n]" by (simp add: upt_conv_Cons)
  have "install_loop (Suc n) tail s = install_loop n (Suc tail) s5"
    using r(1,2) w(1-3) fr(1-4) fr1(1-4) dev by simp
  moreover have "\<exists>s'. install_loop n (Suc tail) s5 = Ok s' \<and>
    opened Map.empty ((ws @ [(?y, content s ?x)]) @ map (\<lambda>k. (home_block s0 k, content s5 (log_block s0 k))) [Suc tail..<Suc tail + n]) s0 s'"
    by (rule Suc.IH [OF w(4) dev]) (use Suc.prems(3,4) in auto)
  ultimately show ?case unfolding m up by simp
qed

subsection \<open>The header\<close>

definition put_header :: "int \<Rightarrow> uint list \<Rightarrow> uchar list \<Rightarrow> uchar list" where
  "put_header n bs d = splice 0 (le32 (of_int n) @ concat (map le32 (take (nat n) bs))) d"

lemma length_le32s [simp]: "length (concat (map le32 ws)) = 4 * length ws"
  by (induction ws) (simp_all add: le32_def)

lemma length_put_header: "length d = BSIZE \<Longrightarrow> n \<le> 30 \<Longrightarrow> length (put_header n bs d) = BSIZE"
  by (simp add: put_header_def splice_def le32_def)

lemma write_head_writes:
  fixes s0 s :: "'z lst_scheme"
  assumes o: "opened Map.empty ws s0 s" and dev: "log_dev s0 = 1" and st: "log_start s0 < disksize s0" and n: "lh_n s0 \<le> 30"
  shows "\<exists>s'. write_head s = Ok s' \<and>
    opened Map.empty (ws @ [(log_start s0, put_header (lh_n s0) (lh_block s0) (content s (log_start s0)))]) s0 s'"
proof -
  note fr = frame_lst [OF openedD(2) [OF o]]
  let ?x = "log_start s0"
  obtain i s1 where 1: "bread 1 ?x s = Ok (i, s1)" "opened [i \<mapsto> ?x] ws s0 s1" "b_data (bcache s1 ! i) = content s ?x" "content s1 = content s"
    by (rule open_block [OF o, of ?x]) (use st in auto)
  note fr1 = frame_lst [OF openedD(2) [OF 1(2)]]
  define d where "d = put_header (lh_n s0) (lh_block s0) (content s ?x)"
  obtain L where "cache_ok L s" using openedD(1) [OF o] by blast
  then have "length d = BSIZE" using n content_length by (auto simp: d_def intro: length_put_header)
  then obtain s2 where 2: "bwrite i (set_data i d s1) = Ok s2" "opened [i \<mapsto> ?x] (ws @ [(?x, d)]) s0 s2"
    using write_block [OF 1(2) _ st] by (metis fun_upd_same)
  obtain s3 where 3: "brelse i s2 = Ok s3" "opened Map.empty (ws @ [(?x, d)]) s0 s3"
    using close_block [OF 2(2), of i ?x] by (metis fun_upd_same fun_upd_upd fun_upd_idem_iff)
  have "splice 0 (header_bytes s1) (b_data (bcache s1 ! i)) = d"
    by (simp add: header_bytes_def d_def put_header_def 1(3) fr1(3,4))
  then have "write_head s = Ok s3" using 1(1) 2(1) 3(1) fr(1,2) dev by (simp add: write_head_def)
  then show ?thesis using 3(2) by (auto simp: d_def)
qed

lemma read_head_reads:
  fixes s :: "'z lst_scheme"
  assumes o: "opened Map.empty [] s s" and dev: "log_dev s = 1" and st: "log_start s < disksize s"
    and n: "sint (word_at (content s (log_start s)) 0) \<le> 30"
  shows "\<exists>s1. read_head s = Ok s1 \<and> opened Map.empty [] s1 s1 \<and> content s1 = content s \<and> disk s1 = disk s \<and>
    dwrites s1 = dwrites s \<and> log_dev s1 = log_dev s \<and> log_start s1 = log_start s \<and> disksize s1 = disksize s \<and>
    lh_n s1 = sint (word_at (content s (log_start s)) 0) \<and>
    (\<forall>i < nat (lh_n s1). lh_block s1 ! i = word_at (content s (log_start s)) (Suc i))"
proof -
  let ?x = "log_start s" let ?n = "sint (word_at (content s ?x) 0)"
  obtain i s1 where 1: "bread 1 ?x s = Ok (i, s1)" "opened [i \<mapsto> ?x] [] s s1" "b_data (bcache s1 ! i) = content s ?x" "content s1 = content s"
    by (rule open_block [OF o, of ?x]) (use st in auto)
  define s2 where "s2 = s1\<lparr>lh_n := ?n,
      lh_block := map (\<lambda>i. word_at (content s ?x) (Suc i)) [0..<nat ?n] @ drop (nat ?n) (lh_block s1)\<rparr>"
  have c: "content s2 = content s1" by (rule same_cache) (simp_all add: s2_def)
  have o2: "opened [i \<mapsto> ?x] [] s2 s2" by (rule opened_start [OF 1(2)]) (simp_all add: s2_def)
  obtain s3 where 3: "brelse i s2 = Ok s3" "opened Map.empty [] s2 s3" "content s3 = content s2"
    using close_block [OF o2, of i ?x] by (metis fun_upd_same fun_upd_upd fun_upd_idem_iff)
  note fr = frame_lst [OF openedD(2) [OF 1(2)]] and fr3 = frame_lst [OF openedD(2) [OF 3(2)]]
  have "read_head s = Ok s3" using 1(1,3) 3(1) n dev by (simp add: read_head_def s2_def Let_def)
  moreover have "opened Map.empty [] s3 s3" by (rule opened_start [OF 3(2)]) simp_all
  moreover have "disk s3 = disk s" "dwrites s3 = dwrites s" "disksize s3 = disksize s"
    using 1(2) 3(2) by (simp_all add: opened_def s2_def frame_def)
  ultimately show ?thesis
    using fr fr3 1(4) 3(3) c by (simp add: s2_def nth_append)
qed

subsection \<open>Commit and recovery\<close>

text \<open>
  The state in which a transaction commits: nobody uses a buffer, the blocks of the transaction and those
  of the log are on the disk, and no block of the transaction is one of the log.
\<close>

definition idle :: "'z bst_scheme \<Rightarrow> bool" where
  "idle s \<longleftrightarrow> (\<exists>L. cache_ok L s) \<and> cpu_proc s \<noteq> None \<and> card (dirty s) \<le> 28 \<and>
     (\<forall>i < NBUF. sl_locked (b_lock (bcache s ! i)) = 0 \<and> b_refcnt (bcache s ! i) = 0)"

definition log_area :: "'z lst_scheme \<Rightarrow> uint set" where
  "log_area s = (\<lambda>k. log_start s + of_nat k) ` {..<nat (log_size s)}"

definition log_fits :: "'z lst_scheme \<Rightarrow> bool" where
  "log_fits s \<longleftrightarrow> log_dev s = 1 \<and> 0 < log_size s \<and> log_size s \<le> int LOGSIZE \<and> lh_n s < log_size s \<and> nat (lh_n s) \<le> length (lh_block s) \<and>
     (\<forall>b \<in> log_area s. b < disksize s) \<and>
     (\<forall>k < nat (lh_n s). home_block s k < disksize s \<and> home_block s k \<notin> log_area s)"

lemma idle_opened: "idle s \<longleftrightarrow> opened Map.empty [] s s"
  by (simp add: idle_def opened_def)

lemma log_area_block:
  "Suc k < nat (log_size s) \<Longrightarrow> log_block s k \<in> log_area s" "0 < log_size s \<Longrightarrow> log_start s \<in> log_area s"
  unfolding log_area_def by (rule image_eqI [of _ _ "Suc k"]; simp) (rule image_eqI [of _ _ 0]; simp)

lemma log_fitsD:
  assumes "log_fits s"
  shows "log_dev s = 1" "lh_n s \<le> 30" "log_start s < disksize s" "nat (lh_n s) \<le> LOGSIZE"
    and "k < nat (lh_n s) \<Longrightarrow> log_block s k < disksize s \<and> home_block s k < disksize s"
    and "j < nat (lh_n s) \<Longrightarrow> k < nat (lh_n s) \<Longrightarrow> log_block s j \<noteq> home_block s k"
    and "k < nat (lh_n s) \<Longrightarrow> log_start s \<noteq> home_block s k"
proof -
  have "0 < log_size s" "log_size s \<le> 30" "lh_n s < log_size s" using assms by (simp_all add: log_fits_def)
  then have n: "Suc k < nat (log_size s)" if "k < nat (lh_n s)" for k using that by linarith
  show "log_dev s = 1" "lh_n s \<le> 30" "nat (lh_n s) \<le> LOGSIZE" "log_start s < disksize s"
    using assms log_area_block(2) [of s] by (auto simp: log_fits_def)
  show "k < nat (lh_n s) \<Longrightarrow> log_block s k < disksize s \<and> home_block s k < disksize s"
    using assms log_area_block(1) [OF n, of k] by (auto simp: log_fits_def)
  show "j < nat (lh_n s) \<Longrightarrow> k < nat (lh_n s) \<Longrightarrow> log_block s j \<noteq> home_block s k"
    using assms log_area_block(1) [OF n, of j] unfolding log_fits_def by metis
  show "k < nat (lh_n s) \<Longrightarrow> log_start s \<noteq> home_block s k"
    using assms log_area_block(2) [of s] unfolding log_fits_def by metis
qed

text \<open>The writes of \<open>commit\<close>, oldest first.\<close>

definition log_copies :: "'z lst_scheme \<Rightarrow> (uint \<times> uchar list) list" where
  "log_copies s = map (\<lambda>k. (log_block s k, content s (home_block s k))) [0..<nat (lh_n s)]"

definition installs :: "'z lst_scheme \<Rightarrow> (uint \<times> uchar list) list" where
  "installs s = map (\<lambda>k. (home_block s k, content s (home_block s k))) [0..<nat (lh_n s)]"

definition full_header :: "'z lst_scheme \<Rightarrow> uchar list" where
  "full_header s = put_header (lh_n s) (lh_block s) (content s (log_start s))"

definition commit_writes :: "'z lst_scheme \<Rightarrow> (uint \<times> uchar list) list" where
  "commit_writes s = log_copies s @ (log_start s, full_header s) # installs s @
     [(log_start s, put_header 0 [] (full_header s))]"

lemma apply_other: "b \<notin> fst ` set ws \<Longrightarrow> apply_writes ws d b = d b"
  by (induction ws arbitrary: d) auto

lemma apply_distinct: "distinct (map fst ws) \<Longrightarrow> (b, x) \<in> set ws \<Longrightarrow> apply_writes ws d b = x"
proof (induction ws arbitrary: d)
  case (Cons w ws)
  then show ?case using apply_other [of b ws "d(b := x)"] by (cases w) (auto simp: image_iff)
qed simp

text \<open>Writes that agree on what each block gets.\<close>

lemma apply_fun: "\<forall>(b, x) \<in> set ws. x = F b \<Longrightarrow> apply_writes ws d b = (if b \<in> fst ` set ws then F b else d b)"
proof (induction ws arbitrary: d)
  case (Cons w ws)
  then show ?case by (cases w) (auto simp: image_iff)
qed simp

lemma log_block_inj: "j < LOGSIZE \<Longrightarrow> k < LOGSIZE \<Longrightarrow> log_block s j = log_block s k \<longleftrightarrow> j = k"
proof -
  assume "j < LOGSIZE" "k < LOGSIZE"
  then have "unat (of_nat j :: uint) = j" "unat (of_nat k :: uint) = k" by (simp_all add: unat_of_nat take_bit_nat_eq_self)
  then show ?thesis by (metis add_left_imp_eq add_right_imp_eq)
qed

lemma log_start_block: "k < LOGSIZE \<Longrightarrow> log_start s \<noteq> log_block s k"
proof -
  assume "k < LOGSIZE"
  then have "unat (of_nat (Suc k) :: uint) = Suc k" by (subst unat_of_nat) (simp add: take_bit_nat_eq_self)
  then have "(of_nat (Suc k) :: uint) \<noteq> 0" by (metis nat.distinct(1) unat_0)
  then show ?thesis by (simp add: add.assoc add.commute)
qed

lemma log_copies_distinct:
  assumes "log_fits s"
  shows "distinct (map fst (log_copies s))"
proof -
  have "nat (lh_n s) \<le> LOGSIZE" by (rule log_fitsD(4) [OF assms])
  then have "inj_on (log_block s) {..<nat (lh_n s)}"
    by (intro inj_onI) (subst (asm) log_block_inj, auto)
  then show ?thesis by (simp add: log_copies_def distinct_map comp_def atLeast0LessThan)
qed

lemma after_log_copies:
  assumes f: "log_fits s" and k: "k < nat (lh_n s)"
  shows "apply_writes (log_copies s) d (log_block s k) = content s (home_block s k)"
  by (rule apply_distinct [OF log_copies_distinct [OF f]]) (use k in \<open>auto simp: log_copies_def\<close>)

lemma commit_writes_disk:
  fixes s :: "'z lst_scheme"
  assumes i: "idle s" and f: "log_fits s" and n: "0 < lh_n s"
  shows "\<exists>s'. commit s = Ok s' \<and> dwrites s' = rev (commit_writes s) @ dwrites s \<and>
    disk s' = apply_writes (commit_writes s) (disk s) \<and> content s' = apply_writes (commit_writes s) (content s) \<and>
    idle s' \<and> lh_n s' = 0 \<and> log_start s' = log_start s"
proof -
  let ?n = "nat (lh_n s)"
  note F = log_fitsD [OF f]
  have n30: "?n \<le> LOGSIZE" by (rule F(4))
  obtain s1 where 1: "write_log_loop ?n 0 s = Ok s1" "opened Map.empty (log_copies s) s s1"
    using write_log_loop_writes [of "[]" s s 0 ?n] i F(1,5,6) n30 unfolding idle_opened log_copies_def by auto
  obtain s2 where 2: "write_head s1 = Ok s2"
      "opened Map.empty (log_copies s @ [(log_start s, put_header (lh_n s) (lh_block s) (content s1 (log_start s)))]) s s2"
    using write_head_writes [OF 1(2) F(1,3,2)] by blast
  have lc: "content s1 = apply_writes (log_copies s) (content s)" using 1(2) by (simp add: opened_def)
  have "log_start s \<notin> fst ` set (log_copies s)" using log_start_block n30 by (auto simp: log_copies_def)
  then have h: "content s1 (log_start s) = content s (log_start s)" unfolding lc by (rule apply_other)
  note 2 = 2 [unfolded h full_header_def [symmetric]]
  note fr2 = frame_lst [OF openedD(2) [OF 2(2)]]
  have c2: "content s2 (log_block s k) = content s (home_block s k)" if "k < ?n" for k
    using 2(2) after_log_copies [OF f that, of "content s"] log_start_block [of k s] that n30 by (auto simp: opened_def)
  have ins: "map (\<lambda>k. (home_block s k, content s2 (log_block s k))) [0..<?n] = installs s"
    unfolding installs_def using c2 by (intro map_cong) auto
  obtain s3 where 3: "install_loop ?n 0 s2 = Ok s3"
      "opened Map.empty ((log_copies s @ [(log_start s, full_header s)]) @ installs s) s s3"
    using install_loop_writes [OF 2(2), of 0 ?n] F(1,5,6) n30 ins by auto
  note fr3 = frame_lst [OF openedD(2) [OF 3(2)]]
  let ?s = "s3\<lparr>lh_n := 0\<rparr>"
  have o: "opened Map.empty [] ?s ?s" by (rule opened_start [OF 3(2)]) simp_all
  have c3: "content ?s = content s3" by (rule same_cache) simp_all
  have "log_start s \<notin> fst ` set (installs s)" using F(7) by (simp add: installs_def image_image image_iff)
  then have h3: "content ?s (log_start s) = full_header s"
    unfolding c3 using 3(2) by (simp add: opened_def apply_other)
  have "put_header 0 (lh_block s) (full_header s) = put_header 0 [] (full_header s)" by (simp add: put_header_def)
  then obtain s4 where 4: "write_head ?s = Ok s4"
      "opened Map.empty [(log_start s, put_header 0 [] (full_header s))] ?s s4"
    using write_head_writes [OF o] F(1,3) fr3 openedD(2) [OF 3(2)] h3 by (auto simp: frame_def)
  have "commit s = Ok s4"
    using n 1(1) 2(1) 3(1) 4(1) fr2 by (simp add: commit_def write_log_def install_trans_def)
  moreover have "idle s4" unfolding idle_opened by (rule opened_start [OF 4(2)]) simp_all
  moreover have "lh_n s4 = 0" "log_start s4 = log_start s" using frame_lst [OF openedD(2) [OF 4(2)]] fr3 by simp_all
  ultimately show ?thesis using 3(2) 4(2) c3 by (simp add: opened_def commit_writes_def)
qed

end
