(* ===== verification/LogCrash.thy ===== *)
theory LogCrash
  imports LogWrites
begin

section \<open>Transactions survive a crash\<close>

text \<open>
  Recovery as a function on disks, and what it makes of a disk on which a commit, or a recovery, was cut off
  after any number of block writes. A crash loses the memory; a block write happens entirely or not at
  all.
\<close>

subsection \<open>The header on disk\<close>

lemma word_at_le32s: "i < length ws \<Longrightarrow> word_at (concat (map le32 ws) @ r) i = ws ! i"
proof (induction ws arbitrary: i)
  case (Cons w ws)
  show ?case
  proof (cases i)
    case 0
    then show ?thesis by (simp add: word_at_def slice_def)
  next
    case (Suc j)
    have "drop (4 * Suc j) (le32 w @ xs) = drop (4 * j) xs" for xs by simp
    then show ?thesis using Cons Suc by (simp add: word_at_def slice_def)
  qed
qed simp

lemma put_header_words:
  "put_header n bs d = concat (map le32 (of_int n # take (nat n) bs)) @ drop (4 + 4 * length (take (nat n) bs)) d"
  by (simp add: put_header_def splice_def)

lemma header_count: "word_at (put_header n bs d) 0 = of_int n"
  using word_at_le32s [of 0 "of_int n # take (nat n) bs"] unfolding put_header_words by simp

lemma header_block: "k < nat n \<Longrightarrow> nat n \<le> length bs \<Longrightarrow> word_at (put_header n bs d) (Suc k) = bs ! k"
  using word_at_le32s [of "Suc k" "of_int n # take (nat n) bs"] unfolding put_header_words by simp

subsection \<open>Recovery of a disk\<close>

definition hd_n :: "uchar list \<Rightarrow> nat" where
  "hd_n h = nat (sint (word_at h 0))"

definition recover_writes :: "uint \<Rightarrow> (uint \<Rightarrow> uchar list) \<Rightarrow> (uint \<times> uchar list) list" where
  "recover_writes st d =
     map (\<lambda>k. (word_at (d st) (Suc k), d (st + of_nat k + 1))) [0..<hd_n (d st)] @ [(st, put_header 0 [] (d st))]"

definition recover_disk :: "uint \<Rightarrow> (uint \<Rightarrow> uchar list) \<Rightarrow> uint \<Rightarrow> uchar list" where
  "recover_disk st d = apply_writes (recover_writes st d) d"

definition area :: "uint \<Rightarrow> nat \<Rightarrow> uint set" where
  "area st n = (\<lambda>k. st + of_nat k) ` {..<n}"

definition header_fits :: "uint \<Rightarrow> nat \<Rightarrow> uint \<Rightarrow> uchar list \<Rightarrow> bool" where
  "header_fits st n sz h \<longleftrightarrow> 0 < n \<and> n \<le> LOGSIZE \<and> hd_n h < n \<and>
     (\<forall>k < hd_n h. word_at h (Suc k) < sz \<and> word_at h (Suc k) \<notin> area st n)"

lemma area_block: "Suc k < n \<Longrightarrow> st + of_nat k + 1 \<in> area st n" "0 < n \<Longrightarrow> st \<in> area st n"
  unfolding area_def by (rule image_eqI [of _ _ "Suc k"]; simp) (rule image_eqI [of _ _ 0]; simp)

lemma header_fitsD:
  assumes "header_fits st n sz h"
  shows "hd_n h \<le> LOGSIZE" "sint (word_at h 0) \<le> 30" "st \<in> area st n" "k < hd_n h \<Longrightarrow> st + of_nat k + 1 \<in> area st n"
    and "k < hd_n h \<Longrightarrow> word_at h (Suc k) < sz" "k < hd_n h \<Longrightarrow> word_at h (Suc k) \<notin> area st n"
    and "k < hd_n h \<Longrightarrow> word_at h (Suc k) \<noteq> st" "k < hd_n h \<Longrightarrow> j < hd_n h \<Longrightarrow> word_at h (Suc k) \<noteq> st + of_nat j + 1"
proof -
  have H: "0 < n" "n \<le> 30" "hd_n h < n" "\<forall>k < hd_n h. word_at h (Suc k) < sz \<and> word_at h (Suc k) \<notin> area st n"
    using assms by (simp_all add: header_fits_def)
  show "hd_n h \<le> LOGSIZE" "sint (word_at h 0) \<le> 30" using H(2,3) by (simp_all add: hd_n_def)
  show a: "st \<in> area st n" "k < hd_n h \<Longrightarrow> st + of_nat k + 1 \<in> area st n" for k
    using area_block(2) [OF H(1)] area_block(1) [of k n st] H(3) by simp_all
  show "k < hd_n h \<Longrightarrow> word_at h (Suc k) < sz" "k < hd_n h \<Longrightarrow> word_at h (Suc k) \<notin> area st n"
    using H(4) by simp_all
  show "k < hd_n h \<Longrightarrow> word_at h (Suc k) \<noteq> st" using H(4) a(1) by metis
  show "k < hd_n h \<Longrightarrow> j < hd_n h \<Longrightarrow> word_at h (Suc k) \<noteq> st + of_nat j + 1" using H(4) a(2) by metis
qed

lemma apply_indep: "b \<in> fst ` set ws \<Longrightarrow> apply_writes ws d b = apply_writes ws d' b"
proof (induction ws arbitrary: d d')
  case (Cons w ws)
  then show ?case using apply_other [of b ws] by (cases w; cases "b \<in> fst ` set ws") auto
qed simp

lemma apply_again: "fst ` set ws' \<subseteq> fst ` set ws \<Longrightarrow> apply_writes ws (apply_writes ws' d) = apply_writes ws d"
proof
  fix b
  assume "fst ` set ws' \<subseteq> fst ` set ws"
  then show "apply_writes ws (apply_writes ws' d) b = apply_writes ws d b"
    using apply_indep [of b ws] apply_other [of b ws] apply_other [of b ws' d] by (cases "b \<in> fst ` set ws") auto
qed

lemma recover_empty: "hd_n (d st) = 0 \<Longrightarrow> b \<noteq> st \<Longrightarrow> recover_disk st d b = d b"
  by (simp add: recover_disk_def recover_writes_def)

lemma hd_n_put [simp]: "hd_n (put_header 0 [] h) = 0"
  by (simp add: hd_n_def header_count)

text \<open>A recovery that is cut off and run again has the effect of one recovery.\<close>

lemma recover_prefix:
  assumes f: "header_fits st n sz (d st)" and b: "b \<notin> area st n"
  shows "recover_disk st (apply_writes (take m (recover_writes st d)) d) b = recover_disk st d b"
proof -
  let ?n = "hd_n (d st)"
  define homes where "homes = map (\<lambda>k. (word_at (d st) (Suc k), d (st + of_nat k + 1))) [0..<?n]"
  have rw: "recover_writes st d = homes @ [(st, put_header 0 [] (d st))]" by (simp add: recover_writes_def homes_def)
  have out: "x \<notin> area st n" if "x \<in> fst ` set homes" for x using header_fitsD(6) [OF f] that by (auto simp: homes_def)
  have bs: "b \<noteq> st" using b header_fitsD(3) [OF f] by auto
  show ?thesis
  proof (cases "m \<le> ?n")
    case True
    let ?d = "apply_writes (take m homes) d"
    have sub: "fst ` set (take m homes) \<subseteq> fst ` set homes" using set_take_subset by fast
    have keep: "?d x = d x" if "x \<in> area st n" for x using out that sub by (intro apply_other) blast
    have "recover_writes st ?d = recover_writes st d"
      using keep header_fitsD(3,4) [OF f] by (auto simp: recover_writes_def)
    moreover have "take m (recover_writes st d) = take m homes" using True by (simp add: rw homes_def)
    ultimately have "recover_disk st (apply_writes (take m (recover_writes st d)) d) = apply_writes (recover_writes st d) ?d"
      by (simp add: recover_disk_def)
    also have "\<dots> = recover_disk st d" unfolding recover_disk_def by (rule apply_again) (use sub rw in auto)
    finally show ?thesis by simp
  next
    case False
    then have "take m (recover_writes st d) = recover_writes st d" by (simp add: rw homes_def)
    moreover have "recover_disk st d st = put_header 0 [] (d st)" by (simp add: recover_disk_def rw)
    ultimately show ?thesis using recover_empty [of "recover_disk st d" st b] bs by (simp add: recover_disk_def)
  qed
qed

lemma recover_prefix_header:
  assumes f: "header_fits st n sz (d st)"
  shows "header_fits st n sz (apply_writes (take m (recover_writes st d)) d st)"
proof (cases "m \<le> hd_n (d st)")
  case True
  define homes where "homes = map (\<lambda>k. (word_at (d st) (Suc k), d (st + of_nat k + 1))) [0..<hd_n (d st)]"
  have "st \<notin> fst ` set homes" using not_sym [OF header_fitsD(7) [OF f]] by (simp add: homes_def image_image image_iff)
  then have "apply_writes (take m homes) d st = d st" by (intro apply_other) (auto dest!: in_set_takeD)
  then show ?thesis using f True by (simp add: recover_writes_def homes_def)
next
  case False
  then have "apply_writes (take m (recover_writes st d)) d st = put_header 0 [] (d st)" by (simp add: recover_writes_def)
  then show ?thesis using f by (simp add: header_fits_def)
qed

subsection \<open>\<^verbatim>\<open>recover_from_log\<close> recovers the disk\<close>

text \<open>A machine that has just started with disk \<open>d\<close>: nothing is cached, and the log is that of \<open>s\<close>.\<close>

definition booted :: "'z lst_scheme \<Rightarrow> (uint \<Rightarrow> uchar list) \<Rightarrow> 'z lst_scheme \<Rightarrow> bool" where
  "booted s d t \<longleftrightarrow> idle t \<and> disk t = d \<and> content t = d \<and> log_dev t = 1 \<and> log_start t = log_start s \<and> disksize t = disksize s"

lemma recover_from_log_disk:
  fixes s t :: "'z lst_scheme"
  assumes t: "booted s d t" and f: "header_fits (log_start s) (nat (log_size s)) (disksize s) (d (log_start s))"
    and a: "\<forall>b \<in> area (log_start s) (nat (log_size s)). b < disksize s"
  shows "\<exists>t'. recover_from_log t = Ok t' \<and> disk t' = recover_disk (log_start s) d \<and>
    dwrites t' = rev (recover_writes (log_start s) d) @ dwrites t \<and> idle t' \<and> content t' = disk t'"
proof -
  let ?st = "log_start s" let ?n = "hd_n (d ?st)"
  have T: "opened Map.empty [] t t" "disk t = d" "content t = d" "log_dev t = 1" "log_start t = ?st" "disksize t = disksize s"
    using t by (simp_all add: booted_def idle_opened)
  note H = header_fitsD [OF f]
  obtain t1 where 1: "read_head t = Ok t1" "opened Map.empty [] t1 t1" "content t1 = d" "disk t1 = d" "dwrites t1 = dwrites t"
      "log_dev t1 = 1" "log_start t1 = ?st" "disksize t1 = disksize s" "nat (lh_n t1) = ?n"
      "\<forall>i < ?n. lh_block t1 ! i = word_at (d ?st) (Suc i)"
    using read_head_reads [OF T(1)] T(2-6) a H(2,3) unfolding hd_n_def by auto
  have lim: "log_block t1 k < disksize t1 \<and> home_block t1 k < disksize t1" if "k < ?n" for k
    using that a H(4,5) [OF that] 1(7,8,10) by auto
  have dis: "log_block t1 j \<noteq> home_block t1 k" if "j < ?n" "k < ?n" for j k
    using that H(8) [of k j] 1(7,10) by auto
  define homes where "homes = map (\<lambda>k. (word_at (d ?st) (Suc k), d (?st + of_nat k + 1))) [0..<?n]"
  have "map (\<lambda>k. (home_block t1 k, content t1 (log_block t1 k))) [0..<?n] = homes"
    unfolding homes_def using 1(3,7,10) by (intro map_cong) auto
  then obtain t2 where 2: "install_loop ?n 0 t1 = Ok t2" "opened Map.empty homes t1 t2"
    using install_loop_writes [OF 1(2,6), of 0 ?n] lim dis by auto
  note fr2 = frame_lst [OF openedD(2) [OF 2(2)]]
  let ?s = "t2\<lparr>lh_n := 0\<rparr>"
  have o: "opened Map.empty [] ?s ?s" by (rule opened_start [OF 2(2)]) simp_all
  have c: "content ?s = content t2" by (rule same_cache) simp_all
  have "?st \<notin> fst ` set homes" using not_sym [OF H(7)] by (simp add: homes_def image_image image_iff)
  then have h: "content ?s ?st = d ?st" unfolding c using 2(2) 1(3) by (simp add: opened_def apply_other)
  have "put_header 0 (lh_block t2) (d ?st) = put_header 0 [] (d ?st)" by (simp add: put_header_def)
  then obtain t3 where 3: "write_head ?s = Ok t3" "opened Map.empty [(?st, put_header 0 [] (d ?st))] ?s t3"
    using write_head_writes [OF o] 1(6-8) fr2 openedD(2) [OF 2(2)] h a H(3) by (auto simp: frame_def)
  have "recover_from_log t = Ok t3" using 1(1,9) 2(1) 3(1) by (simp add: recover_from_log_def install_trans_def)
  moreover have "idle t3" unfolding idle_opened by (rule opened_start [OF 3(2)]) simp_all
  moreover have "recover_writes ?st d = homes @ [(?st, put_header 0 [] (d ?st))]" by (simp add: recover_writes_def homes_def)
  ultimately show ?thesis using 1(3-5) 2(2) 3(2) c by (simp add: opened_def recover_disk_def)
qed

subsection \<open>A commit that is cut off\<close>

lemma area_log_area: "log_area s = area (log_start s) (nat (log_size s))"
  by (simp add: log_area_def area_def)

lemma hd_n_full:
  assumes "log_fits s" "0 < lh_n s"
  shows "hd_n (full_header s) = nat (lh_n s)" "sint (word_at (full_header s) 0) = lh_n s"
    and "k < nat (lh_n s) \<Longrightarrow> word_at (full_header s) (Suc k) = home_block s k"
proof -
  have "sint (of_int (lh_n s) :: uint) = lh_n s"
    using log_fitsD(2) [OF assms(1)] assms(2) by (simp add: signed_of_int signed_take_bit_int_eq_self)
  then show "hd_n (full_header s) = nat (lh_n s)" "sint (word_at (full_header s) 0) = lh_n s"
    by (simp_all add: hd_n_def full_header_def header_count)
  show "k < nat (lh_n s) \<Longrightarrow> word_at (full_header s) (Suc k) = home_block s k"
    using assms(1) by (simp add: full_header_def header_block log_fits_def)
qed

text \<open>Once the header is on the disk, the rest of the commit is what recovery would do.\<close>

lemma commit_is_recovery:
  assumes f: "log_fits s" and n: "0 < lh_n s"
    and d: "d = apply_writes (log_copies s @ [(log_start s, full_header s)]) d0"
  shows "recover_writes (log_start s) d = installs s @ [(log_start s, put_header 0 [] (full_header s))]"
    and "header_fits (log_start s) (nat (log_size s)) (disksize s) (d (log_start s))"
proof -
  have n30: "nat (lh_n s) \<le> LOGSIZE" by (rule log_fitsD(4) [OF f])
  have h: "d (log_start s) = full_header s" by (simp add: d)
  have l: "d (log_block s k) = content s (home_block s k)" if "k < nat (lh_n s)" for k
    using after_log_copies [OF f that, of d0] log_start_block [of k s] that n30 by (simp add: d)
  show "recover_writes (log_start s) d = installs s @ [(log_start s, put_header 0 [] (full_header s))]"
    using l hd_n_full [OF f n] by (simp add: recover_writes_def h installs_def)
  show "header_fits (log_start s) (nat (log_size s)) (disksize s) (d (log_start s))"
    using f hd_n_full [OF f n] by (auto simp: header_fits_def h log_fits_def area_log_area)
qed

lemma installs_effect:
  "apply_writes (installs s) d b =
     (if b \<in> set (take (nat (lh_n s)) (lh_block s)) then content s b else d b)" if "log_fits s"
proof -
  have "nat (lh_n s) \<le> length (lh_block s)" using that by (simp add: log_fits_def)
  then have "fst ` set (installs s) = set (take (nat (lh_n s)) (lh_block s))"
    using nth_image [of "nat (lh_n s)" "lh_block s"] by (simp add: installs_def image_image)
  moreover have "\<forall>(b, x) \<in> set (installs s). x = content s b" by (auto simp: installs_def)
  ultimately show ?thesis using apply_fun [of "installs s" "content s" d b] by simp
qed

lemma log_copies_area:
  assumes f: "log_fits s" and x: "x \<in> fst ` set (log_copies s)"
  shows "x \<in> area (log_start s) (nat (log_size s)) \<and> x \<noteq> log_start s"
proof -
  obtain k where k: "k < nat (lh_n s)" "x = log_block s k" using x by (auto simp: log_copies_def)
  moreover have "lh_n s < log_size s" using f by (simp add: log_fits_def)
  ultimately have "Suc k < nat (log_size s)" by linarith
  moreover have "log_start s \<noteq> log_block s k" using log_start_block [of k s] k(1) log_fitsD(4) [OF f] by simp
  ultimately show ?thesis using area_block(1) [of k] k(2) by simp
qed

lemma log_fits_start: "log_fits s \<Longrightarrow> log_start s \<in> area (log_start s) (nat (log_size s))"
  by (rule area_block(2)) (simp add: log_fits_def)

text \<open>The two phases of a commit, before and after the header is written.\<close>

lemma commit_phases:
  assumes f: "log_fits s" and n: "0 < lh_n s"
  shows "m \<le> nat (lh_n s) \<Longrightarrow> take m (commit_writes s) = take m (log_copies s)"
    and "apply_writes (take (Suc (nat (lh_n s)) + k) (commit_writes s)) d =
      (let d1 = apply_writes (log_copies s @ [(log_start s, full_header s)]) d
       in apply_writes (take k (recover_writes (log_start s) d1)) d1)"
proof -
  have len: "length (log_copies s) = nat (lh_n s)" by (simp add: log_copies_def)
  show "m \<le> nat (lh_n s) \<Longrightarrow> take m (commit_writes s) = take m (log_copies s)"
    using len by (simp add: commit_writes_def)
  show "apply_writes (take (Suc (nat (lh_n s)) + k) (commit_writes s)) d =
      (let d1 = apply_writes (log_copies s @ [(log_start s, full_header s)]) d
       in apply_writes (take k (recover_writes (log_start s) d1)) d1)"
    unfolding Let_def commit_is_recovery(1) [OF f n refl] using len by (simp add: commit_writes_def)
qed

lemma commit_prefix_header:
  assumes f: "log_fits s" and n: "0 < lh_n s" and z: "hd_n (d (log_start s)) = 0"
  shows "header_fits (log_start s) (nat (log_size s)) (disksize s) (apply_writes (take m (commit_writes s)) d (log_start s))"
proof (cases "m \<le> nat (lh_n s)")
  case True
  have "apply_writes (take m (log_copies s)) d (log_start s) = d (log_start s)"
    using log_copies_area [OF f] by (intro apply_other) (auto dest!: in_set_takeD)
  then show ?thesis using commit_phases(1) [OF f n True] z f by (auto simp: header_fits_def log_fits_def)
next
  case False
  then obtain k where k: "m = Suc (nat (lh_n s)) + k" by (metis not_less_eq_eq le_Suc_ex)
  define d1 where "d1 = apply_writes (log_copies s @ [(log_start s, full_header s)]) d"
  note R = commit_is_recovery [OF f n d1_def]
  have ap: "apply_writes (take m (commit_writes s)) d = apply_writes (take k (recover_writes (log_start s) d1)) d1"
    unfolding k commit_phases(2) [OF f n] Let_def d1_def by (rule refl)
  show ?thesis unfolding ap by (rule recover_prefix_header [where d = d1, OF R(2)])
qed

lemma commit_prefix:
  assumes f: "log_fits s" and n: "0 < lh_n s" and z: "hd_n (d (log_start s)) = 0" and b: "b \<notin> log_area s"
  shows "recover_disk (log_start s) (apply_writes (take m (commit_writes s)) d) b =
      (if m \<le> nat (lh_n s) then d b else apply_writes (installs s) d b)"
proof (cases "m \<le> nat (lh_n s)")
  case True
  let ?d = "apply_writes (take m (log_copies s)) d"
  have bs: "b \<noteq> log_start s" using b log_fits_start [OF f] by (auto simp: area_log_area)
  have "?d (log_start s) = d (log_start s)" "?d b = d b"
    using log_copies_area [OF f] b by (auto intro!: apply_other simp: area_log_area dest!: in_set_takeD)
  then show ?thesis using True z bs recover_empty [of ?d "log_start s" b] commit_phases(1) [OF f n True] by simp
next
  case False
  then obtain k where k: "m = Suc (nat (lh_n s)) + k" by (metis not_less_eq_eq le_Suc_ex)
  define d1 where "d1 = apply_writes (log_copies s @ [(log_start s, full_header s)]) d"
  note R = commit_is_recovery [OF f n d1_def]
  have bs: "b \<noteq> log_start s" and ba: "b \<notin> area (log_start s) (nat (log_size s))" using b log_fits_start [OF f] by (auto simp: area_log_area)
  have "d1 b = d b" using log_copies_area [OF f] ba bs by (auto simp: d1_def intro!: apply_other)
  then have "recover_disk (log_start s) d1 b = apply_writes (installs s) d b"
    unfolding recover_disk_def R(1) using bs by (simp add: installs_effect [OF f])
  moreover have "recover_disk (log_start s) (apply_writes (take m (commit_writes s)) d) b = recover_disk (log_start s) d1 b"
    unfolding k commit_phases(2) [OF f n] Let_def d1_def [symmetric] using recover_prefix [where d = d1, OF R(2) ba] .
  ultimately show ?thesis using False by simp
qed

definition writes_since :: "'z bst_scheme \<Rightarrow> 'z bst_scheme \<Rightarrow> (uint \<times> uchar list) list" where
  "writes_since s s' = rev (take (length (dwrites s') - length (dwrites s)) (dwrites s'))"

text \<open>
  C25. A transaction is atomic. Let a commit begin with an empty header on the disk, and let the machine
  crash after any number \<open>m\<close> of its block writes and start again: recovery succeeds, and outside the log the disk has
  either none of the transaction, namely when the header was not yet written, or all of it. A commit that
  is not cut off succeeds as well.
\<close>

theorem commit_atomic:
  fixes s :: "'z lst_scheme"
  assumes "idle s" and "log_fits s" and "0 < lh_n s" and "word_at (disk s (log_start s)) 0 = 0"
  shows "\<exists>s'. commit s = Ok s' \<and>
    (\<forall>m t. booted s (apply_writes (take m (writes_since s s')) (disk s)) t \<longrightarrow>
       (\<exists>t'. recover_from_log t = Ok t' \<and>
         (\<forall>b. b \<notin> log_area s \<longrightarrow> disk t' b =
            (if nat (lh_n s) < m \<and> b \<in> set (take (nat (lh_n s)) (lh_block s)) then content s b else disk s b))))"
proof -
  obtain s' where s': "commit s = Ok s'" "dwrites s' = rev (commit_writes s) @ dwrites s"
    using commit_writes_disk [OF assms(1-3)] by blast
  have ws: "writes_since s s' = commit_writes s" by (simp add: writes_since_def s'(2))
  have z: "hd_n (disk s (log_start s)) = 0" using assms(4) by (simp add: hd_n_def)
  have a: "\<forall>b \<in> area (log_start s) (nat (log_size s)). b < disksize s" using assms(2) by (simp add: log_fits_def area_log_area)
  show ?thesis
  proof (rule exI [of _ s'], rule conjI, rule s'(1), intro allI impI)
    fix m t
    assume t: "booted s (apply_writes (take m (writes_since s s')) (disk s)) t"
    show "\<exists>t'. recover_from_log t = Ok t' \<and> (\<forall>b. b \<notin> log_area s \<longrightarrow> disk t' b =
            (if nat (lh_n s) < m \<and> b \<in> set (take (nat (lh_n s)) (lh_block s)) then content s b else disk s b))"
      using recover_from_log_disk [OF t _ a] commit_prefix_header [where d = "disk s", OF assms(2,3) z, of m]
        commit_prefix [where d = "disk s", OF assms(2,3) z, of _ m] installs_effect [OF assms(2), of "disk s"] unfolding ws by auto
  qed
qed

subsection \<open>A transaction on a concrete disk\<close>

text \<open>Block 100 is modified in the cache and logged; the log starts at block 2.\<close>

definition log_demo :: lst where
  "log_demo = lst_demo\<lparr>log_start := 2, log_size := 30, log_dev := 1, lh_n := 1, lh_block := 100 # replicate 29 0,
     bcache := (bcache lst_demo)[0 := (bcache lst_demo ! 0)\<lparr>b_dev := 1, b_blockno := 100, b_flags := 6, b_data := replicate BSIZE 7\<rparr>]\<rparr>"

lemma log_demo_fields [simp]:
  "cpu_proc log_demo = Some 0" "disk log_demo = (\<lambda>_. replicate BSIZE 0)" "disksize log_demo = 1000" "log_start log_demo = 2"
  "log_dev log_demo = 1" "log_size log_demo = 30" "lh_n log_demo = 1" "lh_block log_demo = 100 # replicate 29 0"
  by (simp_all add: log_demo_def)

lemma log_demo_cache:
  "cache_ok (rev [0..<NBUF]) log_demo \<and> content log_demo = (\<lambda>_. replicate BSIZE 0)(100 := replicate BSIZE 7)"
proof -
  let ?y = "(bcache lst_demo ! 0)\<lparr>b_dev := 1, b_blockno := 100, b_flags := 6, b_data := replicate BSIZE 7\<rparr>"
  have y: "vld ?y" "dty ?y" "is_blk b ?y \<longleftrightarrow> b = 100" for b by (auto simp: vld_def dty_def is_blk_def)
  note f = fresh_nth [OF lst_demo_ok(4)]
  have "cache_ok (rev [0..<NBUF]) log_demo \<and> content log_demo = (\<lambda>b. if is_blk b ?y \<and> vld ?y then b_data ?y else content lst_demo b)"
    by (rule cache_step [where w = False and i = 0, OF lst_demo_ok(2)])
      (use y f in \<open>simp_all add: log_demo_def buf_ok_def is_blk_def\<close>)
  then show ?thesis using y lst_demo_ok(3) by (auto simp: fun_eq_iff)
qed

lemma log_demo_idle: "idle log_demo"
proof -
  note f = fresh_nth [OF lst_demo_ok(4)]
  have "dirty log_demo \<subseteq> {0}" using f by (auto simp: dirty_def log_demo_def dty_def nth_list_update_if split: if_splits)
  then have "card (dirty log_demo) \<le> 1" using card_mono [of "{0}" "dirty log_demo"] by simp
  then show ?thesis
    using log_demo_cache f lst_demo_ok(5) by (auto simp: idle_def log_demo_def nth_list_update_if)
qed

lemma log_demo_fits: "log_fits log_demo"
proof -
  have "b < 1000 \<and> b \<noteq> 100" if "b \<in> log_area log_demo" for b
  proof -
    obtain k where k: "b = 2 + of_nat k" "k < 30" using \<open>b \<in> log_area log_demo\<close> by (auto simp: log_area_def)
    then have "unat b = 2 + k" by (simp add: unat_word_ariths unat_of_nat take_bit_nat_eq_self)
    then show ?thesis using k(2) by (auto simp: word_less_nat_alt)
  qed
  then show ?thesis by (auto simp: log_fits_def)
qed

definition boot_demo :: "(uint \<Rightarrow> uchar list) \<Rightarrow> lst" where
  "boot_demo d = binit (lst_boot\<lparr>cpu_proc := Some 0, disk := d, log_start := 2, log_dev := 1\<rparr>)"

lemma booted_demo:
  assumes "\<And>b. length (d b) = BSIZE"
  shows "booted log_demo d (boot_demo d)"
proof -
  let ?s = "lst_boot\<lparr>cpu_proc := Some 0, disk := d, log_start := 2, log_dev := 1\<rparr>"
  have f: "fresh (bcache ?s)" "disk ?s = d" "disksize ?s = 1000"
    by (simp_all add: fresh_def lst_boot_def bst_boot_def pst.defs bst.defs lst.defs buf_boot_def)
  note B = binit_ok [OF f(1), unfolded f(2), OF assms]
  have b: "disk (binit ?s) = d" "cpu_proc (binit ?s) = Some 0" "log_start (binit ?s) = 2" "log_dev (binit ?s) = 1" "disksize (binit ?s) = 1000"
    using f(2,3) by (simp_all add: binit_def Let_def)
  have fr: "fresh (bcache (binit ?s))" using B by simp
  have "dirty (binit ?s) = {}" using fresh_nth [OF fr] by (auto simp: dirty_def dty_def)
  then show ?thesis using B b fresh_nth(3) [OF fr] by (auto simp: booted_def idle_def boot_demo_def)
qed

lemma apply_length: "\<forall>(b, x) \<in> set ws. length x = n \<Longrightarrow> \<forall>b. length (d b) = n \<Longrightarrow> length (apply_writes ws d b) = n"
  by (induction ws arbitrary: d) auto

lemma commit_writes_length:
  assumes "idle s" "log_fits s" "(b, x) \<in> set (commit_writes s)"
  shows "length x = BSIZE"
proof -
  obtain L where "cache_ok L s" using assms(1) by (auto simp: idle_def)
  note c = content_length [OF this]
  have h: "length (full_header s) = BSIZE" using c log_fitsD(2) [OF assms(2)] by (simp add: full_header_def length_put_header)
  have "length (put_header 0 [] (full_header s)) = BSIZE" by (rule length_put_header [OF h]) simp
  then show ?thesis using assms(3) c h by (auto simp: commit_writes_def log_copies_def installs_def)
qed

theorem commit_atomic_witness:
  "\<exists>s' t'. commit log_demo = Ok s' \<and>
     recover_from_log (boot_demo (apply_writes (take 2 (writes_since log_demo s')) (disk log_demo))) = Ok t' \<and>
     disk t' 100 = replicate BSIZE 7"
proof -
  have "word_at (disk log_demo (log_start log_demo)) 0 = 0" by (simp add: word_at_def slice_def of_le32_def)
  from commit_atomic [OF log_demo_idle log_demo_fits _ this] obtain s' where s': "commit log_demo = Ok s'"
    "\<forall>m t. booted log_demo (apply_writes (take m (writes_since log_demo s')) (disk log_demo)) t \<longrightarrow>
       (\<exists>t'. recover_from_log t = Ok t' \<and> (\<forall>b. b \<notin> log_area log_demo \<longrightarrow> disk t' b =
            (if nat (lh_n log_demo) < m \<and> b \<in> set (take (nat (lh_n log_demo)) (lh_block log_demo)) then content log_demo b else disk log_demo b)))"
    by auto
  have "writes_since log_demo s' = commit_writes log_demo"
    using commit_writes_disk [OF log_demo_idle log_demo_fits] s'(1) by (auto simp: writes_since_def)
  then have bt: "booted log_demo (apply_writes (take 2 (writes_since log_demo s')) (disk log_demo))
      (boot_demo (apply_writes (take 2 (writes_since log_demo s')) (disk log_demo)))"
    using commit_writes_length [OF log_demo_idle log_demo_fits]
    by (intro booted_demo apply_length) (auto dest!: in_set_takeD)
  have "100 \<notin> log_area log_demo" using log_demo_fits by (simp add: log_fits_def)
  then show ?thesis using s'(1) s'(2) [rule_format, OF bt] log_demo_cache by auto
qed

text \<open>
  C26. Recovery may itself be cut off: after any number of its block writes, starting again and recovering from
  the beginning gives the disk that a single recovery gives, outside the log.
\<close>

theorem recovery_idempotent:
  fixes s t :: "'z lst_scheme"
  assumes "booted s d t" and "header_fits (log_start s) (nat (log_size s)) (disksize s) (d (log_start s))"
    and "\<forall>b \<in> log_area s. b < disksize s"
  shows "\<exists>t'. recover_from_log t = Ok t' \<and>
    (\<forall>m u. booted s (apply_writes (take m (writes_since t t')) d) u \<longrightarrow>
       (\<exists>u'. recover_from_log u = Ok u' \<and> (\<forall>b. b \<notin> log_area s \<longrightarrow> disk u' b = disk t' b)))"
proof -
  let ?st = "log_start s"
  have a: "\<forall>b \<in> area ?st (nat (log_size s)). b < disksize s" using assms(3) by (simp add: area_log_area)
  obtain t' where t': "recover_from_log t = Ok t'" "disk t' = recover_disk ?st d" "dwrites t' = rev (recover_writes ?st d) @ dwrites t"
    using recover_from_log_disk [OF assms(1,2) a] by blast
  have ws: "writes_since t t' = recover_writes ?st d" by (simp add: writes_since_def t'(3))
  show ?thesis
  proof (rule exI [of _ t'], rule conjI, rule t'(1), intro allI impI)
    fix m u
    assume u: "booted s (apply_writes (take m (writes_since t t')) d) u"
    show "\<exists>u'. recover_from_log u = Ok u' \<and> (\<forall>b. b \<notin> log_area s \<longrightarrow> disk u' b = disk t' b)"
      using recover_from_log_disk [OF u _ a] recover_prefix_header [where d = d, OF assms(2), of m]
        recover_prefix [where d = d, OF assms(2), of _ m] t'(2) unfolding ws area_log_area by auto
  qed
qed

theorem recovery_idempotent_witness:
  "let d = (\<lambda>_. replicate BSIZE 0)(2 := put_header 1 [100] (replicate BSIZE 0), 3 := replicate BSIZE 7)
   in \<exists>t' u'. recover_from_log (boot_demo d) = Ok t' \<and>
     recover_from_log (boot_demo (apply_writes (take 1 (writes_since (boot_demo d) t')) d)) = Ok u' \<and> disk u' 100 = disk t' 100"
proof -
  define d :: "uint \<Rightarrow> uchar list" where
    "d = (\<lambda>_. replicate BSIZE 0)(2 := put_header 1 [100] (replicate BSIZE 0), 3 := replicate BSIZE 7)"
  have len: "length (d b) = BSIZE" for b by (simp add: d_def length_put_header)
  have fits: "\<forall>b \<in> log_area log_demo. b < disksize log_demo" "100 \<notin> log_area log_demo"
    using log_demo_fits by (simp_all add: log_fits_def)
  have h: "d (log_start log_demo) = put_header 1 [100] (replicate BSIZE 0)" by (simp add: d_def)
  have hf: "header_fits (log_start log_demo) (nat (log_size log_demo)) (disksize log_demo) (d (log_start log_demo))"
    unfolding h using fits(2) by (auto simp: header_fits_def hd_n_def header_count header_block area_log_area)
  note bt = booted_demo [of d, OF len]
  from recovery_idempotent [OF bt hf fits(1)] obtain t' where t': "recover_from_log (boot_demo d) = Ok t'"
    "\<And>m u. booted log_demo (apply_writes (take m (writes_since (boot_demo d) t')) d) u \<Longrightarrow>
       \<exists>u'. recover_from_log u = Ok u' \<and> (\<forall>b. b \<notin> log_area log_demo \<longrightarrow> disk u' b = disk t' b)" by blast
  have "writes_since (boot_demo d) t' = recover_writes (log_start log_demo) d"
    using recover_from_log_disk [OF bt hf] fits(1) t'(1) by (auto simp: writes_since_def area_log_area)
  then have "length x = BSIZE" if "(b, x) \<in> set (writes_since (boot_demo d) t')" for b x
    using that len length_put_header [OF len] by (auto simp: recover_writes_def)
  then have "booted log_demo (apply_writes (take 1 (writes_since (boot_demo d) t')) d)
      (boot_demo (apply_writes (take 1 (writes_since (boot_demo d) t')) d))"
    using len by (intro booted_demo apply_length) (auto dest!: in_set_takeD)
  from t'(2) [OF this] show ?thesis using t'(1) fits(2) by (auto simp: d_def Let_def)
qed

end
