(* ===== verification/LogBounds.thy ===== *)
theory LogBounds
  imports LogCrash
begin

section \<open>The size of a transaction\<close>

definition log_inv :: "'z lst_scheme \<Rightarrow> bool" where
  "log_inv s \<longleftrightarrow> 0 \<le> lh_n s \<and> lh_n s \<le> int LOGSIZE \<and> length (lh_block s) = LOGSIZE \<and>
     distinct (take (nat (lh_n s)) (lh_block s))"

definition logged :: "'z lst_scheme \<Rightarrow> uint set" where
  "logged s = set (take (nat (lh_n s)) (lh_block s))"

lemma scan_take_None:
  "scan (\<lambda>x. x = v) xs = None \<longleftrightarrow> v \<notin> set xs"
  by (auto simp: scan_None_iff)

lemma take_snoc: "n < length xs \<Longrightarrow> take (Suc n) (xs[n := v]) = take n xs @ [v]"
  by (simp add: take_Suc_conv_app_nth)

text \<open>The two ways \<open>log_write\<close> goes: the block is already in the transaction, or it is added.\<close>

lemma log_write_cases:
  assumes inv: "log_inv s" and r: "log_write b s = Ok s'"
  shows "lh_n s < int LOGSIZE" "lh_n s < log_size s - 1"
    and "b_blockno (bcache s ! b) \<in> logged s \<Longrightarrow> lh_n s' = lh_n s \<and> lh_block s' = lh_block s"
    and "b_blockno (bcache s ! b) \<notin> logged s \<Longrightarrow> lh_n s' = lh_n s + 1 \<and>
      take (nat (lh_n s')) (lh_block s') = take (nat (lh_n s)) (lh_block s) @ [b_blockno (bcache s ! b)] \<and>
      length (lh_block s') = LOGSIZE"
proof -
  let ?v = "b_blockno (bcache s ! b)" and ?xs = "take (nat (lh_n s)) (lh_block s)"
  show lim: "lh_n s < int LOGSIZE" "lh_n s < log_size s - 1" using r by (auto simp: log_write_def split: if_splits)
  have n: "nat (lh_n s) < length (lh_block s)" "int (nat (lh_n s)) = lh_n s" using inv lim by (auto simp: log_inv_def)
  show "?v \<in> logged s \<Longrightarrow> lh_n s' = lh_n s \<and> lh_block s' = lh_block s"
  proof -
    assume "?v \<in> logged s"
    then obtain i where i: "scan (\<lambda>x. x = ?v) ?xs = Some i" using scan_take_None [of ?v ?xs] by (cases "scan (\<lambda>x. x = ?v) ?xs") (auto simp: logged_def)
    then have "i < nat (lh_n s)" "lh_block s ! i = ?v" using scan_take [OF i] n by auto
    moreover from this have "(lh_block s)[i := ?v] = lh_block s" by (metis list_update_id)
    ultimately show ?thesis using r i n by (auto simp: log_write_def Let_def upd_buf_def split: if_splits)
  qed
  show "?v \<notin> logged s \<Longrightarrow> lh_n s' = lh_n s + 1 \<and> take (nat (lh_n s')) (lh_block s') = ?xs @ [?v] \<and> length (lh_block s') = LOGSIZE"
  proof -
    assume "?v \<notin> logged s"
    then have "scan (\<lambda>x. x = ?v) ?xs = None" using scan_take_None [of ?v ?xs] by (simp add: logged_def)
    moreover have "nat (lh_n s + 1) = Suc (nat (lh_n s))" using n by linarith
    ultimately show ?thesis using r n inv
      by (auto simp: log_write_def Let_def upd_buf_def take_snoc log_inv_def split: if_splits)
  qed
qed

text \<open>
  C27. \<open>log_write\<close> stays inside the header: a call that returns adds the block of the buffer to the transaction, once,
  keeps the count below both limits and pins the buffer; a call that finds the log full panics before it
  touches anything.
\<close>

theorem log_write_bounds:
  assumes inv: "log_inv s" and b: "b < length (bcache s)" and o: "0 < log_outstanding s"
  shows "case log_write b s of
      Ok s' \<Rightarrow> log_inv s' \<and> lh_n s' \<le> int LOGSIZE \<and> lh_n s' \<le> log_size s - 1 \<and>
        logged s' = insert (b_blockno (bcache s ! b)) (logged s) \<and> dty (bcache s' ! b)
    | Panic m \<Rightarrow> m = ''too big a transaction'' \<and> (lh_n s = int LOGSIZE \<or> log_size s - 1 \<le> lh_n s)
    | _ \<Rightarrow> False"
proof (cases "log_write b s")
  case (Ok s')
  note C = log_write_cases [OF inv Ok]
  have d: "dty (bcache s' ! b)" using Ok b by (auto simp: log_write_def Let_def upd_buf_def split: if_splits)
  show ?thesis
  proof (cases "b_blockno (bcache s ! b) \<in> logged s")
    case True
    then show ?thesis using C inv d Ok by (auto simp: log_inv_def logged_def)
  next
    case False
    then show ?thesis using C(1,2) C(4) [OF False] inv d Ok by (auto simp: log_inv_def logged_def)
  qed
qed (use inv o in \<open>auto simp: log_write_def Let_def log_inv_def split: if_splits\<close>)

lemma log_demo_inv: "log_inv log_demo"
  by (simp add: log_inv_def)

theorem log_write_bounds_witness:
  "\<exists>s'. log_write 0 (log_demo\<lparr>log_outstanding := 1\<rparr>) = Ok s' \<and> logged s' = {100}"
proof -
  let ?s = "log_demo\<lparr>log_outstanding := 1\<rparr>"
  have i: "log_inv ?s" by (simp add: log_inv_def)
  have b: "0 < length (bcache ?s)" "b_blockno (bcache ?s ! 0) = 100"
    using lst_demo_ok(4) by (simp_all add: log_demo_def fresh_def)
  have l: "logged ?s = {100}" "lh_n ?s = 1" "log_size ?s = 30" by (simp_all add: logged_def)
  show ?thesis using log_write_bounds [OF i b(1)] b(2) l by (cases "log_write 0 ?s") auto
qed

subsection \<open>Reservations\<close>

text \<open>
  \<open>begin_op\<close> lets an operation in when ten more blocks fit beside those of the operations inside, out of 30. The
  log area has 30 blocks, one of which is the header: there is room for 29.
\<close>

fun log_writes :: "nat list \<Rightarrow> 'z lst_scheme \<Rightarrow> 'z lst_scheme res" where
  "log_writes [] s = Ok s"
| "log_writes (b # bs) s = bindR (log_write b s) (log_writes bs)"

lemma log_write_new:
  assumes inv: "log_inv s" and o: "0 < log_outstanding s" and n: "lh_n s < log_size s - 1" "lh_n s < int LOGSIZE"
    and new: "b_blockno (bcache s ! b) \<notin> logged s"
  shows "\<exists>s'. log_write b s = Ok s' \<and> log_inv s' \<and> logged s' = insert (b_blockno (bcache s ! b)) (logged s) \<and>
    lh_n s' = lh_n s + 1 \<and> log_outstanding s' = log_outstanding s \<and> log_size s' = log_size s \<and>
    (\<forall>c. b_blockno (bcache s' ! c) = b_blockno (bcache s ! c))"
proof -
  obtain s' where r: "log_write b s = Ok s'" using o n by (auto simp: log_write_def Let_def)
  note C = log_write_cases(4) [OF inv r new]
  have "log_outstanding s' = log_outstanding s" "log_size s' = log_size s" "b_blockno (bcache s' ! c) = b_blockno (bcache s ! c)" for c
    using r by (auto simp: log_write_def Let_def upd_buf_def nth_list_update_if split: if_splits)
  then show ?thesis using r C inv new n by (auto simp: log_inv_def logged_def)
qed

lemma log_writes_fill:
  assumes "log_inv s" and "0 < log_outstanding s" and "lh_n s + int (length bs) < log_size s" and "log_size s \<le> int LOGSIZE"
    and "distinct (map (\<lambda>b. b_blockno (bcache s ! b)) bs)" and "\<forall>b \<in> set bs. b_blockno (bcache s ! b) \<notin> logged s"
  shows "\<exists>s'. log_writes bs s = Ok s' \<and> lh_n s' = lh_n s + int (length bs) \<and> log_size s' = log_size s"
  using assms
proof (induction bs arbitrary: s)
  case (Cons b bs)
  obtain s1 where 1: "log_write b s = Ok s1" "log_inv s1" "logged s1 = insert (b_blockno (bcache s ! b)) (logged s)"
      "lh_n s1 = lh_n s + 1" "log_outstanding s1 = log_outstanding s" "log_size s1 = log_size s"
      "\<forall>c. b_blockno (bcache s1 ! c) = b_blockno (bcache s ! c)"
    using log_write_new [OF Cons.prems(1,2), of b] Cons.prems(3,4,6) by auto
  have "\<exists>s'. log_writes bs s1 = Ok s' \<and> lh_n s' = lh_n s1 + int (length bs) \<and> log_size s' = log_size s1"
    by (rule Cons.IH [OF 1(2)]) (use Cons.prems 1 in \<open>auto simp: image_iff\<close>)
  then show ?case using 1(1,4,6) by (simp add: add.assoc)
qed simp

text \<open>
  C28. The reservations of \<open>begin_op\<close> do not suffice with the log that \<^verbatim>\<open>mkfs\<close> makes: three operations that are let in and
  that log ten different blocks each, as they may, end in the panic of \<open>log_write\<close>.
\<close>

theorem log_reservation_gap:
  fixes s :: "'z lst_scheme"
  assumes "lh_n s = 0" and "log_outstanding s = 0" and "\<not> log_committing s" and "log_size s = int LOGSIZE"
    and "length (lh_block s) = LOGSIZE" and "length bs = 3 * MAXOPBLOCKS" and "distinct (map (\<lambda>b. b_blockno (bcache s ! b)) bs)"
  shows "\<exists>s3. bindR (begin_op s) (\<lambda>s. bindR (begin_op s) begin_op) = Ok s3 \<and>
    log_writes bs s3 = Panic ''too big a transaction''"
proof -
  let ?s3 = "s\<lparr>log_outstanding := 3\<rparr>"
  have b: "bindR (begin_op s) (\<lambda>s. bindR (begin_op s) begin_op) = Ok ?s3" using assms(1-4) by (simp add: begin_op_def)
  obtain cs c where bs: "bs = cs @ [c]" using assms(6) by (cases bs rule: rev_cases) auto
  have "\<exists>s'. log_writes cs ?s3 = Ok s' \<and> lh_n s' = lh_n ?s3 + int (length cs) \<and> log_size s' = log_size ?s3"
    by (rule log_writes_fill) (use assms bs in \<open>simp_all add: log_inv_def logged_def\<close>)
  then obtain s' where s': "log_writes cs ?s3 = Ok s'" "lh_n s' = 29" "log_size s' = 30" using assms(1,4,6) bs by auto
  have app: "log_writes (xs @ ys) u = bindR (log_writes xs u) (log_writes ys)" for xs ys and u :: "'z lst_scheme"
  proof (induction xs arbitrary: u)
    case (Cons x xs)
    then show ?case by (cases "log_write x u") auto
  qed simp
  show ?thesis using b s' by (simp add: bs app log_write_def)
qed

definition gap_demo :: lst where
  "gap_demo = lst_boot\<lparr>log_size := 30, bcache := map (\<lambda>i. buf_boot\<lparr>b_blockno := of_nat i\<rparr>) [0..<31]\<rparr>"

theorem log_reservation_gap_witness:
  "\<exists>s3. bindR (begin_op gap_demo) (\<lambda>s. bindR (begin_op s) begin_op) = Ok s3 \<and>
    log_writes [0..<30] s3 = Panic ''too big a transaction''"
proof (rule log_reservation_gap)
  show "distinct (map (\<lambda>b. b_blockno (bcache gap_demo ! b)) [0..<30])"
    by (simp add: gap_demo_def upt_rec)
qed (simp_all add: gap_demo_def lst_boot_def bst_boot_def pst.defs bst.defs lst.defs)

end
