(* ===== verification/Spinlock.thy ===== *)
theory Spinlock
  imports Prelude
begin

section \<open>Spin locks on several processors: spinlock.c\<close>

text \<open>
  The rest of the kernel takes each critical section as one step of one processor. This theory is about what
  makes that sound: any number of processors interleave the memory accesses of \<open>acquire\<close> and
  \<open>release\<close>. A processor is named by a number; \<open>lk_cpu\<close> is the processor that \<^verbatim>\<open>lk->cpu\<close> points to, \<open>lk_pcs\<close> what
  \<open>getcallerpcs\<close> left, which is an argument here. \<open>c_if\<close> is the interrupt flag of the processor.
\<close>

record spinlock =
  lk_locked :: uint
  lk_name :: string
  lk_cpu :: "nat option"
  lk_pcs :: "uint list"

record scpu =
  c_ncli :: int
  c_intena :: bool
  c_if :: bool

record spst =
  lks :: "nat \<Rightarrow> spinlock"
  scpus :: "nat \<Rightarrow> scpu"

definition upd_lock :: "nat \<Rightarrow> (spinlock \<Rightarrow> spinlock) \<Rightarrow> 'z spst_scheme \<Rightarrow> 'z spst_scheme" where
  "upd_lock l f s = s\<lparr>lks := (lks s)(l := f (lks s l))\<rparr>"

definition upd_cpu :: "nat \<Rightarrow> (scpu \<Rightarrow> scpu) \<Rightarrow> 'z spst_scheme \<Rightarrow> 'z spst_scheme" where
  "upd_cpu c f s = s\<lparr>scpus := (scpus s)(c := f (scpus s c))\<rparr>"

definition initlock :: "nat \<Rightarrow> string \<Rightarrow> 'z spst_scheme \<Rightarrow> 'z spst_scheme" where
  "initlock l name = upd_lock l (\<lambda>k. k\<lparr>lk_name := name, lk_locked := 0, lk_cpu := None\<rparr>)"

definition holding :: "nat \<Rightarrow> nat \<Rightarrow> 'z spst_scheme \<Rightarrow> bool" where
  "holding c l s \<longleftrightarrow> lk_locked (lks s l) \<noteq> 0 \<and> lk_cpu (lks s l) = Some c"

definition pushcli :: "nat \<Rightarrow> 'z spst_scheme \<Rightarrow> 'z spst_scheme" where
  "pushcli c = upd_cpu c (\<lambda>p.
     let eflags = c_if p;
         p = p\<lparr>c_if := False\<rparr>;
         p = (if c_ncli p = 0 then p\<lparr>c_intena := eflags\<rparr> else p)
     in p\<lparr>c_ncli := c_ncli p + 1\<rparr>)"

definition popcli :: "nat \<Rightarrow> 'z spst_scheme \<Rightarrow> 'z spst_scheme res" where
  "popcli c s =
     (if c_if (scpus s c) then Panic ''popcli - interruptible''
      else
        let s = upd_cpu c (\<lambda>p. p\<lparr>c_ncli := c_ncli p - 1\<rparr>) s in
        if c_ncli (scpus s c) < 0 then Panic ''popcli''
        else if c_ncli (scpus s c) = 0 \<and> c_intena (scpus s c) then Ok (upd_cpu c (\<lambda>p. p\<lparr>c_if := True\<rparr>) s)
        else Ok s)"

definition xchg :: "nat \<Rightarrow> uint \<Rightarrow> 'z spst_scheme \<Rightarrow> uint \<times> 'z spst_scheme" where
  "xchg l v s = (lk_locked (lks s l), upd_lock l (\<lambda>k. k\<lparr>lk_locked := v\<rparr>) s)"

text \<open>\<open>acquire\<close> before and after the loop, \<open>release\<close> before and after the store that frees the lock.\<close>

definition acquire_enter :: "nat \<Rightarrow> nat \<Rightarrow> 'z spst_scheme \<Rightarrow> 'z spst_scheme res" where
  "acquire_enter c l s =
     (let s = pushcli c s in if holding c l s then Panic ''acquire'' else Ok s)"

definition acquire_mark :: "nat \<Rightarrow> nat \<Rightarrow> uint list \<Rightarrow> 'z spst_scheme \<Rightarrow> 'z spst_scheme" where
  "acquire_mark c l pcs = upd_lock l (\<lambda>k. k\<lparr>lk_cpu := Some c, lk_pcs := pcs\<rparr>)"

definition release_enter :: "nat \<Rightarrow> nat \<Rightarrow> 'z spst_scheme \<Rightarrow> 'z spst_scheme res" where
  "release_enter c l s =
     (if \<not> holding c l s then Panic ''release''
      else Ok (upd_lock l (\<lambda>k. k\<lparr>lk_pcs := (lk_pcs k)[0 := 0], lk_cpu := None\<rparr>) s))"

definition release_store :: "nat \<Rightarrow> 'z spst_scheme \<Rightarrow> 'z spst_scheme" where
  "release_store l = upd_lock l (\<lambda>k. k\<lparr>lk_locked := 0\<rparr>)"

text \<open>
  The whole functions, when no other processor runs: the loop then ends at once or never.
\<close>

definition acquire :: "nat \<Rightarrow> nat \<Rightarrow> uint list \<Rightarrow> 'z spst_scheme \<Rightarrow> 'z spst_scheme res" where
  "acquire c l pcs s =
     bindR (acquire_enter c l s) (\<lambda>s.
       let (old, s) = xchg l 1 s in if old \<noteq> 0 then Diverge else Ok (acquire_mark c l pcs s))"

definition release :: "nat \<Rightarrow> nat \<Rightarrow> 'z spst_scheme \<Rightarrow> 'z spst_scheme res" where
  "release c l s = bindR (release_enter c l s) (\<lambda>s. popcli c (release_store l s))"

subsection \<open>Interleaving\<close>

text \<open>
  Where a processor is: outside the two functions, in the loop, just after it took the lock, after the
  check of \<open>release\<close>, before \<open>popcli\<close>. \<open>s_holds\<close> are the locks it has acquired and not begun to release. A processor panics
  instead of taking a step whose function panics. Outside critical sections the kernel may turn
  interrupts on and off.
\<close>

datatype spc = Out | Loop nat | Took nat | Freeing nat | Popping

record mpst = spst +
  s_pc :: "nat \<Rightarrow> spc"
  s_holds :: "nat \<Rightarrow> nat set"

definition go :: "nat \<Rightarrow> spc \<Rightarrow> mpst \<Rightarrow> mpst" where
  "go c p s = s\<lparr>s_pc := (s_pc s)(c := p)\<rparr>"

inductive mstep :: "mpst \<Rightarrow> mpst \<Rightarrow> bool" where
  m_enter: "s_pc s c = Out \<Longrightarrow> acquire_enter c l s = Ok s' \<Longrightarrow> mstep s (go c (Loop l) s')"
| m_spin: "s_pc s c = Loop l \<Longrightarrow> xchg l 1 s = (old, s') \<Longrightarrow> old \<noteq> 0 \<Longrightarrow> mstep s s'"
| m_take: "s_pc s c = Loop l \<Longrightarrow> xchg l 1 s = (0, s') \<Longrightarrow> mstep s (go c (Took l) s')"
| m_mark: "s_pc s c = Took l \<Longrightarrow>
    mstep s (go c Out ((acquire_mark c l pcs s)\<lparr>s_holds := (s_holds s)(c := insert l (s_holds s c))\<rparr>))"
| m_release: "s_pc s c = Out \<Longrightarrow> release_enter c l s = Ok s' \<Longrightarrow>
    mstep s (go c (Freeing l) (s'\<lparr>s_holds := (s_holds s)(c := s_holds s c - {l})\<rparr>))"
| m_free: "s_pc s c = Freeing l \<Longrightarrow> mstep s (go c Popping (release_store l s))"
| m_pop: "s_pc s c = Popping \<Longrightarrow> popcli c s = Ok s' \<Longrightarrow> mstep s (go c Out s')"
| m_sti: "s_pc s c = Out \<Longrightarrow> c_ncli (scpus s c) = 0 \<Longrightarrow> mstep s (upd_cpu c (\<lambda>p. p\<lparr>c_if := b\<rparr>) s)"

text \<open>At first no lock is taken and no processor is inside.\<close>

definition mstart :: "mpst \<Rightarrow> bool" where
  "mstart s \<longleftrightarrow> (\<forall>l. lk_locked (lks s l) = 0 \<and> lk_cpu (lks s l) = None) \<and>
     (\<forall>c. c_ncli (scpus s c) = 0 \<and> s_pc s c = Out \<and> s_holds s c = {})"

inductive mreach :: "mpst \<Rightarrow> bool" where
  mr_start: "mstart s \<Longrightarrow> mreach s"
| mr_step: "mreach s \<Longrightarrow> mstep s s' \<Longrightarrow> mreach s'"

text \<open>The processors inside the critical section of a lock, from the exchange to the store.\<close>

definition inside :: "mpst \<Rightarrow> nat \<Rightarrow> nat \<Rightarrow> bool" where
  "inside s l c \<longleftrightarrow> l \<in> s_holds s c \<or> s_pc s c = Took l \<or> s_pc s c = Freeing l"

definition lock_ok :: "mpst \<Rightarrow> nat \<Rightarrow> bool" where
  "lock_ok s l \<longleftrightarrow> (lk_locked (lks s l) \<noteq> 0 \<longleftrightarrow> (\<exists>c. inside s l c)) \<and>
     (\<forall>c d. inside s l c \<longrightarrow> inside s l d \<longrightarrow> c = d) \<and> (\<forall>c. lk_cpu (lks s l) = Some c \<longleftrightarrow> l \<in> s_holds s c)"

definition depth :: "mpst \<Rightarrow> nat \<Rightarrow> nat" where
  "depth s c = card (s_holds s c) + (if s_pc s c = Out then 0 else 1)"

definition cpu_ok :: "mpst \<Rightarrow> nat \<Rightarrow> bool" where
  "cpu_ok s c \<longleftrightarrow> finite (s_holds s c) \<and> c_ncli (scpus s c) = int (depth s c) \<and>
     (0 < depth s c \<longrightarrow> \<not> c_if (scpus s c)) \<and>
     (\<forall>l. s_pc s c = Took l \<or> s_pc s c = Freeing l \<longrightarrow> l \<notin> s_holds s c)"

lemma lock_ok_cong:
  "lks s' l = lks s l \<Longrightarrow> (\<And>c. inside s' l c = inside s l c) \<Longrightarrow> (\<And>c. l \<in> s_holds s' c \<longleftrightarrow> l \<in> s_holds s c) \<Longrightarrow>
   lock_ok s' l = lock_ok s l"
  by (simp add: lock_ok_def)

lemma cpu_ok_cong:
  "scpus s' c = scpus s c \<Longrightarrow> s_pc s' c = s_pc s c \<Longrightarrow> s_holds s' c = s_holds s c \<Longrightarrow> cpu_ok s' c = cpu_ok s c"
  by (simp add: cpu_ok_def depth_def)

lemmas sp_defs = go_def upd_lock_def upd_cpu_def pushcli_def xchg_def acquire_enter_def acquire_mark_def
  release_enter_def release_store_def holding_def Let_def

definition sp_inv :: "mpst \<Rightarrow> bool" where
  "sp_inv s \<longleftrightarrow> (\<forall>l. lock_ok s l) \<and> (\<forall>c. cpu_ok s c)"

lemma sp_inv_start: "mstart s \<Longrightarrow> sp_inv s"
  by (auto simp: mstart_def sp_inv_def lock_ok_def cpu_ok_def inside_def depth_def)

text \<open>Steps that leave the lock words, the holders and the places of interest alone.\<close>

lemma sp_inv_cpu:
  assumes inv: "sp_inv s" and l: "lks s' = lks s" and h: "s_holds s' = s_holds s"
    and p: "s_pc s' = (s_pc s)(c := q)" "\<And>l. s_pc s c \<noteq> Took l \<and> s_pc s c \<noteq> Freeing l \<and> q \<noteq> Took l \<and> q \<noteq> Freeing l"
    and o: "\<And>d. d \<noteq> c \<Longrightarrow> scpus s' d = scpus s d" and ok: "cpu_ok s' c"
  shows "sp_inv s'"
proof -
  have "inside s' l d = inside s l d" for l d using p by (auto simp: inside_def h)
  then have "lock_ok s' l" for l using inv lock_ok_cong [of s' l s] by (simp add: l h sp_inv_def)
  moreover have "cpu_ok s' d" for d
    using ok inv cpu_ok_cong [of s' d s] o [of d] by (cases "d = c") (auto simp: p(1) h sp_inv_def)
  ultimately show ?thesis by (simp add: sp_inv_def)
qed

lemma inv_enter:
  assumes inv: "sp_inv s" and c: "s_pc s c = Out" and e: "acquire_enter c l s = Ok s'"
  shows "sp_inv (go c (Loop l) s')"
proof -
  have s': "s' = pushcli c s" using e by (auto simp: acquire_enter_def Let_def split: if_splits)
  have "cpu_ok s c" using inv by (simp add: sp_inv_def)
  then have "cpu_ok (go c (Loop l) s') c" using c by (auto simp: s' cpu_ok_def depth_def sp_defs)
  then show ?thesis by (intro sp_inv_cpu [OF inv]) (use c in \<open>auto simp: s' sp_defs\<close>)
qed

lemma inv_pop:
  assumes inv: "sp_inv s" and c: "s_pc s c = Popping" and e: "popcli c s = Ok s'"
  shows "sp_inv (go c Out s')"
proof -
  have "cpu_ok s c" using inv by (simp add: sp_inv_def)
  then have "cpu_ok (go c Out s') c" using c e by (auto simp: popcli_def cpu_ok_def depth_def sp_defs split: if_splits)
  then show ?thesis by (intro sp_inv_cpu [OF inv]) (use c e in \<open>auto simp: popcli_def sp_defs split: if_splits\<close>)
qed

lemma inv_sti:
  assumes inv: "sp_inv s" and c: "s_pc s c = Out" and n: "c_ncli (scpus s c) = 0"
  shows "sp_inv (upd_cpu c (\<lambda>p. p\<lparr>c_if := b\<rparr>) s)"
proof -
  have "cpu_ok s c" using inv by (simp add: sp_inv_def)
  then have "cpu_ok (upd_cpu c (\<lambda>p. p\<lparr>c_if := b\<rparr>) s) c" using c n by (auto simp: cpu_ok_def depth_def sp_defs)
  then show ?thesis by (intro sp_inv_cpu [OF inv, where c = c and q = Out]) (use c in \<open>auto simp: sp_defs\<close>)
qed

text \<open>Steps that change one lock.\<close>

lemma sp_inv_lock:
  assumes inv: "sp_inv s" and l: "\<And>k. k \<noteq> l \<Longrightarrow> lks s' k = lks s k"
    and h: "\<And>k d. k \<noteq> l \<or> d \<noteq> c \<Longrightarrow> k \<in> s_holds s' d \<longleftrightarrow> k \<in> s_holds s d"
    and p: "\<And>k d. k \<noteq> l \<or> d \<noteq> c \<Longrightarrow> inside s' k d = inside s k d" "\<And>d. d \<noteq> c \<Longrightarrow> s_pc s' d = s_pc s d"
    and o: "scpus s' = scpus s" and ok: "lock_ok s' l" "cpu_ok s' c"
  shows "sp_inv s'"
proof -
  have "lock_ok s' k" for k
    using ok(1) inv lock_ok_cong [of s' k s] l [of k] p(1) [of k] h [of k] by (cases "k = l") (auto simp: sp_inv_def)
  moreover have "cpu_ok s' d" for d
  proof (cases "d = c")
    case False
    then have "s_holds s' d = s_holds s d" using h [of _ d] by blast
    then show ?thesis using inv cpu_ok_cong [of s' d s] p(2) [OF False] by (simp add: o sp_inv_def)
  qed (simp add: ok(2))
  ultimately show ?thesis by (simp add: sp_inv_def)
qed

lemma inv_take:
  assumes inv: "sp_inv s" and c: "s_pc s c = Loop l" and e: "xchg l 1 s = (0, s')"
  shows "sp_inv (go c (Took l) s')"
proof -
  have k: "lock_ok s l" and k': "cpu_ok s c" using inv by (simp_all add: sp_inv_def)
  have z: "lk_locked (lks s l) = 0" and s': "s' = upd_lock l (\<lambda>k. k\<lparr>lk_locked := 1\<rparr>) s" using e by (simp_all add: xchg_def)
  have none: "\<not> inside s l d" for d using k z by (simp add: lock_ok_def)
  have ins: "inside (go c (Took l) s') j d = (if j = l \<and> d = c then True else inside s j d)" for j d
    using c by (auto simp: inside_def s' sp_defs)
  have "lock_ok (go c (Took l) s') l" using k none by (auto simp: lock_ok_def ins) (auto simp: s' sp_defs)
  moreover have "cpu_ok (go c (Took l) s') c"
    using k' c none [of c] by (auto simp: cpu_ok_def depth_def inside_def s' sp_defs)
  ultimately show ?thesis by (intro sp_inv_lock [OF inv, where l = l and c = c]) (auto simp: ins, auto simp: s' sp_defs split: if_splits)
qed

lemma inv_spin:
  assumes inv: "sp_inv s" and e: "xchg l 1 s = (old, s')" "old \<noteq> 0"
  shows "sp_inv s'"
proof -
  have k: "lock_ok s l" and k': "cpu_ok s c" for c using inv by (simp_all add: sp_inv_def)
  have z: "lk_locked (lks s l) \<noteq> 0" and s': "s' = upd_lock l (\<lambda>k. k\<lparr>lk_locked := 1\<rparr>) s" using e by (auto simp: xchg_def)
  have ins: "inside s' = inside s" by (auto simp: inside_def s' sp_defs fun_eq_iff)
  have "lock_ok s' l" using k z by (auto simp: lock_ok_def ins) (auto simp: s' sp_defs)
  moreover have "cpu_ok s' c" for c using k' [of c] cpu_ok_cong [of s' c s] by (simp add: s' sp_defs)
  ultimately show ?thesis by (intro sp_inv_lock [OF inv, where l = l]) (auto simp: ins, auto simp: s' sp_defs split: if_splits)
qed

lemma inv_mark:
  assumes inv: "sp_inv s" and c: "s_pc s c = Took l"
  shows "sp_inv (go c Out ((acquire_mark c l pcs s)\<lparr>s_holds := (s_holds s)(c := insert l (s_holds s c))\<rparr>))" (is "sp_inv ?s")
proof -
  have k: "lock_ok s l" and k': "cpu_ok s c" using inv by (simp_all add: sp_inv_def)
  have ci: "inside s l c" using c by (simp add: inside_def)
  have new: "l \<notin> s_holds s d" for d using k k' c ci by (auto simp: lock_ok_def cpu_ok_def inside_def)
  have ins: "inside ?s j d = inside s j d" for j d using c by (auto simp: inside_def sp_defs)
  have "lock_ok ?s l" using k new ci by (auto simp: lock_ok_def ins) (auto simp: sp_defs split: if_splits)
  moreover have "cpu_ok ?s c" using k' c new by (auto simp: cpu_ok_def depth_def sp_defs)
  ultimately show ?thesis by (intro sp_inv_lock [OF inv, where l = l and c = c]) (auto simp: ins, auto simp: sp_defs split: if_splits)
qed

lemma inv_release:
  assumes inv: "sp_inv s" and c: "s_pc s c = Out" and e: "release_enter c l s = Ok s'"
  shows "sp_inv (go c (Freeing l) (s'\<lparr>s_holds := (s_holds s)(c := s_holds s c - {l})\<rparr>))" (is "sp_inv ?s")
proof -
  have k: "lock_ok s l" and k': "cpu_ok s c" using inv by (simp_all add: sp_inv_def)
  have h: "lk_cpu (lks s l) = Some c" and s': "s' = upd_lock l (\<lambda>k. k\<lparr>lk_pcs := (lk_pcs k)[0 := 0], lk_cpu := None\<rparr>) s"
    using e by (auto simp: release_enter_def holding_def split: if_splits)
  have lc: "l \<in> s_holds s d \<longleftrightarrow> d = c" for d using k h by (auto simp: lock_ok_def)
  have ins: "inside ?s j d = inside s j d" for j d using c lc [of c] by (auto simp: inside_def s' sp_defs)
  have "lock_ok ?s l" using k lc by (auto simp: lock_ok_def ins) (auto simp: s' sp_defs split: if_splits)
  moreover have "card (s_holds s c) = Suc (card (s_holds s c - {l}))"
    using k' lc [of c] card.remove [of "s_holds s c" l] by (simp add: cpu_ok_def)
  then have "cpu_ok ?s c" using k' c by (auto simp: cpu_ok_def depth_def s' sp_defs)
  ultimately show ?thesis by (intro sp_inv_lock [OF inv, where l = l and c = c]) (auto simp: ins, auto simp: s' sp_defs split: if_splits)
qed

lemma inv_free:
  assumes inv: "sp_inv s" and c: "s_pc s c = Freeing l"
  shows "sp_inv (go c Popping (release_store l s))" (is "sp_inv ?s")
proof -
  have k: "lock_ok s l" and k': "cpu_ok s c" using inv by (simp_all add: sp_inv_def)
  have only: "inside s l d \<longleftrightarrow> d = c" for d using k c by (auto simp: lock_ok_def inside_def)
  have nh: "l \<notin> s_holds s c" using k' c by (auto simp: cpu_ok_def)
  have ins: "inside ?s j d = (if j = l then False else inside s j d)" for j d
    using c only [of d] nh by (cases "d = c") (auto simp: inside_def sp_defs)
  have "lock_ok ?s l" using k by (auto simp: lock_ok_def ins) (auto simp: sp_defs)
  moreover have "cpu_ok ?s c" using k' c by (auto simp: cpu_ok_def depth_def sp_defs)
  ultimately show ?thesis by (intro sp_inv_lock [OF inv, where l = l and c = c]) (auto simp: ins only, auto simp: sp_defs split: if_splits)
qed

lemma sp_inv_step: "mstep s s' \<Longrightarrow> sp_inv s \<Longrightarrow> sp_inv s'"
  by (induction rule: mstep.induct)
    (blast intro: inv_enter inv_spin inv_take inv_mark inv_release inv_free inv_pop inv_sti)+

lemma sp_inv_reach: "mreach s \<Longrightarrow> sp_inv s"
  by (induction rule: mreach.induct) (auto intro: sp_inv_start sp_inv_step)

definition mp_start :: mpst where
  "mp_start = \<lparr>lks = \<lambda>_. \<lparr>lk_locked = 0, lk_name = [], lk_cpu = None, lk_pcs = replicate 10 0\<rparr>,
     scpus = \<lambda>_. \<lparr>c_ncli = 0, c_intena = False, c_if = True\<rparr>, s_pc = \<lambda>_. Out, s_holds = \<lambda>_. {}\<rparr>"

text \<open>Processor 0 has taken lock 5.\<close>

definition mp_demo :: mpst where
  "mp_demo = go 0 (Took 5) (snd (xchg 5 1 (go 0 (Loop 5) (pushcli 0 mp_start))))"

lemma mp_demo_reach: "mreach mp_demo"
proof -
  have "mreach mp_start" by (rule mr_start) (simp add: mstart_def mp_start_def)
  moreover have "mstep mp_start (go 0 (Loop 5) (pushcli 0 mp_start))"
    by (rule m_enter) (simp_all add: mp_start_def sp_defs)
  moreover have "mstep (go 0 (Loop 5) (pushcli 0 mp_start)) mp_demo"
    unfolding mp_demo_def by (rule m_take [where l = 5]) (simp_all add: mp_start_def sp_defs)
  ultimately show ?thesis by (blast intro: mr_step)
qed

text \<open>
  C29. Spin locks give mutual exclusion among any number of processors, whatever the interleaving: at most one
  processor is between the exchange that takes a lock and the store that frees it, and the lock word is
  nonzero exactly while there is one. A processor that is inside has its interrupts off, and \<open>holding\<close> tells it exactly
  which locks it has.
\<close>

theorem spinlock_mutual_exclusion:
  assumes "mreach s"
  shows "(inside s l c \<longrightarrow> inside s l d \<longrightarrow> c = d) \<and> (lk_locked (lks s l) \<noteq> 0 \<longleftrightarrow> (\<exists>c. inside s l c)) \<and>
    (inside s l c \<longrightarrow> \<not> c_if (scpus s c)) \<and> (holding c l s \<longleftrightarrow> l \<in> s_holds s c)"
proof -
  have k: "lock_ok s l" and k': "cpu_ok s c" using sp_inv_reach [OF assms] by (simp_all add: sp_inv_def)
  have "0 < depth s c" if "inside s l c"
    using that k' by (auto simp: inside_def depth_def cpu_ok_def card_gt_0_iff)
  moreover have "l \<in> s_holds s c \<Longrightarrow> lk_locked (lks s l) \<noteq> 0" using k by (auto simp: lock_ok_def inside_def)
  ultimately show ?thesis using k k' by (auto simp: lock_ok_def cpu_ok_def holding_def)
qed

theorem spinlock_mutual_exclusion_witness:
  "inside mp_demo 5 0 \<and> \<not> inside mp_demo 5 1 \<and> \<not> c_if (scpus mp_demo 0) \<and> lk_locked (lks mp_demo 5) \<noteq> 0"
proof -
  have "inside mp_demo 5 0" by (simp add: inside_def mp_demo_def sp_defs)
  then show ?thesis using spinlock_mutual_exclusion [OF mp_demo_reach, of 5 0 1] by auto
qed

text \<open>
  C30. The checks of \<open>acquire\<close> and \<open>release\<close> are exact: \<open>acquire\<close> panics precisely when the processor already holds the lock, \<open>release\<close>
  precisely when it does not, and the \<open>popcli\<close> at the end of a \<open>release\<close> never panics; it turns interrupts on again
  when the last lock is released and they were on when the first was taken.
\<close>

theorem spinlock_checks_exact:
  assumes r: "mreach s"
  shows "(s_pc s c = Out \<longrightarrow> (acquire_enter c l s = Panic ''acquire'' \<longleftrightarrow> l \<in> s_holds s c)) \<and>
    (s_pc s c = Out \<longrightarrow> (release_enter c l s = Panic ''release'' \<longleftrightarrow> l \<notin> s_holds s c)) \<and>
    (s_pc s c = Popping \<longrightarrow> (\<exists>s'. popcli c s = Ok s' \<and>
       c_if (scpus s' c) = (s_holds s c = {} \<and> c_intena (scpus s c)) \<and> c_ncli (scpus s' c) = int (card (s_holds s c))))"
proof -
  have k: "lock_ok s l" and k': "cpu_ok s c" using sp_inv_reach [OF r] by (simp_all add: sp_inv_def)
  have h: "holding c l s \<longleftrightarrow> l \<in> s_holds s c" using k by (auto simp: lock_ok_def holding_def inside_def)
  have "holding c l (pushcli c s) = holding c l s" by (simp add: holding_def pushcli_def upd_cpu_def)
  then have "acquire_enter c l s = Panic ''acquire'' \<longleftrightarrow> l \<in> s_holds s c" using h by (simp add: acquire_enter_def Let_def)
  moreover have "release_enter c l s = Panic ''release'' \<longleftrightarrow> l \<notin> s_holds s c" using h by (simp add: release_enter_def)
  moreover have "\<exists>s'. popcli c s = Ok s' \<and> c_if (scpus s' c) = (s_holds s c = {} \<and> c_intena (scpus s c)) \<and>
      c_ncli (scpus s' c) = int (card (s_holds s c))" if "s_pc s c = Popping"
    using k' that by (auto simp: popcli_def cpu_ok_def depth_def upd_cpu_def Let_def)
  ultimately show ?thesis by blast
qed

theorem spinlock_checks_exact_witness:
  "acquire_enter 1 5 mp_demo \<noteq> Panic ''acquire'' \<and> release_enter 1 5 mp_demo = Panic ''release''"
proof -
  have "s_pc mp_demo 1 = Out" "5 \<notin> s_holds mp_demo 1" by (simp_all add: mp_demo_def mp_start_def sp_defs)
  then show ?thesis using spinlock_checks_exact [OF mp_demo_reach, of 1 5] by simp
qed

end
