(* ===== verification/Spec2Isabelle.thy ===== *)
theory Spec2Isabelle
  imports PageTable PipeStream ConsoleLine ProcProps Grep Lsh LogBounds Spinlock
begin

text \<open>
  This development models the xv6-based teaching kernel under \<^verbatim>\<open>src/code\<close>, bottom up.
\<close>

end
